(* ===== verification/SecGit_Prelude.thy ===== *)
theory SecGit_Prelude
  imports "HOL-Library.Word" "HOL-Library.Char_ord" "HOL-Library.List_Lexorder"
    "HOL-Library.Sublist"
begin

text \<open>
  The prelude of the development: what the Rust language and its standard library give the
  program, and the generic lemmas the components share.

  \<^item> \<open>('e, 'a) result\<close> is Rust's \<open>Result\<close> (\<open>Ok\<close>/\<open>Err\<close> are the two injections), \<open>rbind\<close> is the
    \<open>?\<close> operator, \<open>map_err\<close> and \<open>ok_or\<close> are the methods of the same names;
  \<^item> \<open>('s, 'e, 'a) st\<close> is a fallible computation with an effect on a state \<open>'s\<close>; an error keeps
    the effects that happened before it;
  \<^item> \<open>bytes\<close> are lists of 8-bit words and a Rust \<open>String\<close> is the list of its UTF-8 bytes read as
    characters, so \<open>as_bytes\<close> is one byte per character;
  \<^item> \<open>le_bytes\<close>/\<open>le_word\<close> are \<open>to_le_bytes\<close>/\<open>from_le_bytes\<close> at any width.

  Collections: \<open>le_simps\<close> (little-endian codecs) and \<open>st_simps\<close> (the computation combinators).
\<close>

named_theorems st_simps
named_theorems le_simps

unbundle bit_operations_syntax

section \<open>Results and fallible computations\<close>

type_synonym ('e, 'a) result = "'e + 'a"

abbreviation Ok :: "'a \<Rightarrow> ('e, 'a) result" where "Ok \<equiv> Inr"
abbreviation Err :: "'e \<Rightarrow> ('e, 'a) result" where "Err \<equiv> Inl"

definition rbind :: "('e, 'a) result \<Rightarrow> ('a \<Rightarrow> ('e, 'b) result) \<Rightarrow> ('e, 'b) result" where
  "rbind r f = (case r of Err e \<Rightarrow> Err e | Ok x \<Rightarrow> f x)"

definition map_err :: "('e \<Rightarrow> 'f) \<Rightarrow> ('e, 'a) result \<Rightarrow> ('f, 'a) result" where
  "map_err g r = (case r of Err e \<Rightarrow> Err (g e) | Ok x \<Rightarrow> Ok x)"

definition ok_or :: "'e \<Rightarrow> 'a option \<Rightarrow> ('e, 'a) result" where
  "ok_or e o' = (case o' of None \<Rightarrow> Err e | Some x \<Rightarrow> Ok x)"

lemma rbind_simps [simp, st_simps]:
  "rbind (Ok x) f = f x" "rbind (Err e) f = Err e"
  by (simp_all add: rbind_def)

lemma rbind_eq_Ok [simp, st_simps]: "rbind r f = Ok y \<longleftrightarrow> (\<exists>x. r = Ok x \<and> f x = Ok y)"
  by (cases r) auto

lemma map_err_simps [simp, st_simps]:
  "map_err g (Ok x) = Ok x" "map_err g (Err e) = Err (g e)"
  "map_err g r = Ok x \<longleftrightarrow> r = Ok x"
  by (simp_all add: map_err_def split: sum.splits)

lemma ok_or_simps [simp, st_simps]:
  "ok_or e (Some x) = Ok x" "ok_or e None = Err e"
  "ok_or e v = Ok x \<longleftrightarrow> v = Some x"
  by (simp_all add: ok_or_def split: option.splits)

type_synonym ('s, 'e, 'a) st = "'s \<Rightarrow> ('e, 'a) result \<times> 's"

definition sret :: "'a \<Rightarrow> ('s, 'e, 'a) st" where "sret x s = (Ok x, s)"
definition sfail :: "'e \<Rightarrow> ('s, 'e, 'a) st" where "sfail e s = (Err e, s)"
definition slift :: "('e, 'a) result \<Rightarrow> ('s, 'e, 'a) st" where "slift r s = (r, s)"

definition sbind :: "('s, 'e, 'a) st \<Rightarrow> ('a \<Rightarrow> ('s, 'e, 'b) st) \<Rightarrow> ('s, 'e, 'b) st" where
  "sbind m f s = (case m s of (Err e, s') \<Rightarrow> (Err e, s') | (Ok x, s') \<Rightarrow> f x s')"

definition smap_err :: "('e \<Rightarrow> 'f) \<Rightarrow> ('s, 'e, 'a) st \<Rightarrow> ('s, 'f, 'a) st" where
  "smap_err g m s = (case m s of (r, s') \<Rightarrow> (map_err g r, s'))"

lemma st_prims [simp, st_simps]:
  "sret x s = (Ok x, s)" "sfail e s = (Err e, s)" "slift r s = (r, s)"
  by (simp_all add: sret_def sfail_def slift_def)

lemma sbind_Ok [st_simps]: "m s = (Ok x, s') \<Longrightarrow> sbind m f s = f x s'"
  by (simp add: sbind_def)

lemma sbind_Err [st_simps]: "m s = (Err e, s') \<Longrightarrow> sbind m f s = (Err e, s')"
  by (simp add: sbind_def)

lemma sbind_prims [simp, st_simps]:
  "sbind (sret x) f s = f x s" "sbind (sfail e) f s = (Err e, s)"
  by (simp_all add: sbind_def)

lemma sbind_slift: "sbind (slift r) f s = (case r of Err e \<Rightarrow> (Err e, s) | Ok x \<Rightarrow> f x s)"
  by (simp add: sbind_def split: sum.splits)

lemma sbind_slift_simps [simp, st_simps]:
  "sbind (slift (Ok x)) f s = f x s" "sbind (slift (Err e)) f s = (Err e, s)"
  by (simp_all add: sbind_def)

lemma sbind_eq_Ok:
  "sbind m f s = (Ok y, s'') \<longleftrightarrow> (\<exists>x s'. m s = (Ok x, s') \<and> f x s' = (Ok y, s''))"
  by (auto simp: sbind_def split: prod.splits sum.splits)

lemma sbind_eq_Err:
  "sbind m f s = (Err e, s'') \<longleftrightarrow>
    m s = (Err e, s'') \<or> (\<exists>x s'. m s = (Ok x, s') \<and> f x s' = (Err e, s''))"
  by (auto simp: sbind_def split: prod.splits sum.splits)

lemma sbind_OkE [elim]:
  assumes "sbind m f s = (Ok y, s'')"
  obtains x s' where "m s = (Ok x, s')" "f x s' = (Ok y, s'')"
  using assms by (auto simp: sbind_eq_Ok)

lemma fst_eq_Ok: "fst p = Ok x \<longleftrightarrow> (\<exists>s'. p = (Ok x, s'))"
  by (cases p) auto

lemma smap_err_eq_Ok [simp, st_simps]: "smap_err g m s = (Ok x, s') \<longleftrightarrow> m s = (Ok x, s')"
  by (auto simp: smap_err_def split: prod.splits)

lemma smap_err_Err [st_simps]: "m s = (Err e, s') \<Longrightarrow> smap_err g m s = (Err (g e), s')"
  by (simp add: smap_err_def)

text \<open>Hoare triples for computations: \<open>Q\<close> holds of the result and the state after a success, \<open>E\<close> of the
  state after an error.\<close>

definition valid :: "('s \<Rightarrow> bool) \<Rightarrow> ('s, 'e, 'a) st \<Rightarrow> ('a \<Rightarrow> 's \<Rightarrow> bool) \<Rightarrow> ('s \<Rightarrow> bool) \<Rightarrow> bool" where
  "valid P m Q E \<longleftrightarrow> (\<forall>s. P s \<longrightarrow> (case m s of (Ok x, s') \<Rightarrow> Q x s' | (Err e, s') \<Rightarrow> E s'))"

lemma validI:
  "(\<And>s x s'. P s \<Longrightarrow> m s = (Ok x, s') \<Longrightarrow> Q x s') \<Longrightarrow> (\<And>s e s'. P s \<Longrightarrow> m s = (Err e, s') \<Longrightarrow> E s') \<Longrightarrow>
    valid P m Q E"
  unfolding valid_def by (auto split: prod.splits sum.splits)

lemma valid_Ok: "valid P m Q E \<Longrightarrow> P s \<Longrightarrow> m s = (Ok x, s') \<Longrightarrow> Q x s'"
  by (force simp: valid_def)

lemma valid_Err: "valid P m Q E \<Longrightarrow> P s \<Longrightarrow> m s = (Err e, s') \<Longrightarrow> E s'"
  by (force simp: valid_def)

lemma valid_bind:
  assumes m: "valid P m R E" and f: "\<And>x. valid (R x) (f x) Q E"
  shows "valid P (sbind m f) Q E"
proof (rule validI)
  fix s y s''
  assume "P s" "sbind m f s = (Ok y, s'')"
  then obtain x s' where "m s = (Ok x, s')" "f x s' = (Ok y, s'')" by (auto simp: sbind_eq_Ok)
  with valid_Ok [OF m \<open>P s\<close>] show "Q y s''" by (blast intro: valid_Ok [OF f])
next
  fix s e s''
  assume "P s" "sbind m f s = (Err e, s'')"
  then consider "m s = (Err e, s'')" | x s' where "m s = (Ok x, s')" "f x s' = (Err e, s'')"
    by (auto simp: sbind_eq_Err)
  then show "E s''"
  proof cases
    case 1
    with valid_Err [OF m \<open>P s\<close>] show ?thesis by blast
  next
    case 2
    with valid_Ok [OF m \<open>P s\<close>] show ?thesis by (blast intro: valid_Err [OF f])
  qed
qed

lemma valid_conseq:
  assumes "valid P m Q E" "\<And>s. P' s \<Longrightarrow> P s" "\<And>x s. Q x s \<Longrightarrow> Q' x s" "\<And>s. E s \<Longrightarrow> E' s"
  shows "valid P' m Q' E'"
  by (rule validI) (blast intro: assms valid_Ok [OF assms(1)] valid_Err [OF assms(1)])+

lemma valid_ret: "(\<And>s. P s \<Longrightarrow> Q x s) \<Longrightarrow> valid P (sret x) Q E"
  by (simp add: valid_def)

lemma valid_fail: "(\<And>s. P s \<Longrightarrow> E s) \<Longrightarrow> valid P (sfail e) Q E"
  by (simp add: valid_def)

lemma valid_lift:
  "(\<And>x s. P s \<Longrightarrow> r = Ok x \<Longrightarrow> Q x s) \<Longrightarrow> (\<And>s. P s \<Longrightarrow> E s) \<Longrightarrow> valid P (slift r) Q E"
  by (auto simp: valid_def split: sum.splits)

lemma valid_if:
  "valid (\<lambda>s. P s \<and> c s) m Q E \<Longrightarrow> valid (\<lambda>s. P s \<and> \<not> c s) n Q E \<Longrightarrow>
    valid P (\<lambda>s. if c s then m s else n s) Q E"
  by (simp add: valid_def)

lemma valid_pure: "(c \<Longrightarrow> valid P m Q E) \<Longrightarrow> valid (\<lambda>s. P s \<and> c) m Q E"
  by (auto simp: valid_def)

lemma smap_err_eq_Err: "smap_err g m s = (Err e, s') \<longleftrightarrow> (\<exists>e'. m s = (Err e', s') \<and> e = g e')"
  by (auto simp: smap_err_def map_err_def split: prod.splits sum.splits)

lemma valid_map_err:
  assumes "valid P m Q E"
  shows "valid P (smap_err g m) Q E"
  by (rule validI) (auto simp: smap_err_eq_Err intro: valid_Ok [OF assms] valid_Err [OF assms])

section \<open>Bytes, words and strings\<close>

type_synonym byte = "8 word"
type_synonym bytes = "8 word list"
type_synonym u16 = "16 word"
type_synonym u32 = "32 word"
type_synonym u64 = "64 word"

definition as_bytes :: "string \<Rightarrow> bytes" where
  "as_bytes s = map of_char s"

lemma as_bytes_simps [simp]:
  "as_bytes [] = []" "as_bytes (c # s) = of_char c # as_bytes s"
  "as_bytes (s @ t) = as_bytes s @ as_bytes t" "length (as_bytes s) = length s"
  by (simp_all add: as_bytes_def)

lemma of_char_byte_eq [simp]: "(of_char c :: byte) = of_char d \<longleftrightarrow> c = d"
proof
  assume "(of_char c :: byte) = of_char d"
  then have "unat (of_char c :: byte) = unat (of_char d :: byte)" by simp
  moreover have "unat (of_char e :: byte) = of_char e" for e
  proof -
    have "(of_char e :: nat) < 256" by (rule nat_of_char_less_256)
    moreover have "(of_char e :: byte) = of_nat (of_char e :: nat)" by (metis of_nat_of_char)
    ultimately show ?thesis by (simp only: unat_of_nat) simp
  qed
  ultimately show "c = d" by simp
qed simp

lemma as_bytes_inj [simp]: "as_bytes s = as_bytes t \<longleftrightarrow> s = t"
  by (simp add: as_bytes_def inj_map_eq_map inj_def)

text \<open>\<open>from_utf8\<close> on bytes that came from a string: the inverse of \<open>as_bytes\<close>.\<close>

definition of_bytes :: "bytes \<Rightarrow> string" where
  "of_bytes bs = map (\<lambda>b. char_of (unat b)) bs"

lemma of_bytes_as_bytes [simp]: "as_bytes (of_bytes b) = b" "of_bytes (as_bytes s) = s"
proof -
  have byte: "(of_char (char_of (unat x)) :: byte) = x" for x :: byte
  proof -
    have "unat x < 2 ^ LENGTH(8)" by (rule unsigned_less)
    then have "(of_char (char_of (unat x) :: char) :: nat) = unat x" by simp
    then have "(of_nat (of_char (char_of (unat x) :: char)) :: byte) = x" by simp
    then show ?thesis by (metis of_nat_of_char)
  qed
  then show b: "as_bytes (of_bytes b) = b" for b by (simp add: as_bytes_def of_bytes_def comp_def)
  show "of_bytes (as_bytes s) = s" using b [of "as_bytes s"] by (simp only: as_bytes_inj)
qed

primrec le_bytes :: "nat \<Rightarrow> 'a::len word \<Rightarrow> bytes" where
  "le_bytes 0 w = []"
| "le_bytes (Suc n) w = ucast w # le_bytes n (drop_bit 8 w)"

primrec le_word :: "bytes \<Rightarrow> 'a::len word" where
  "le_word [] = 0"
| "le_word (b # bs) = ucast b OR push_bit 8 (le_word bs)"

lemma length_le_bytes [simp, le_simps]: "length (le_bytes n w) = n"
  by (induction n arbitrary: w) simp_all

lemma bit_le_word_le_bytes:
  "bit (le_word (le_bytes n w) :: 'a::len word) i \<longleftrightarrow> bit (w :: 'a word) i \<and> i < 8 * n"
proof (induction n arbitrary: w i)
  case (Suc n)
  show ?case
  proof (cases "i < 8")
    case True
    then show ?thesis
      by (auto simp: bit_or_iff bit_ucast_iff bit_push_bit_iff dest: bit_imp_le_length)
  next
    case False
    then have "bit (drop_bit 8 w) (i - 8) = bit w i" by (simp add: bit_drop_bit_eq)
    with False Suc show ?thesis
      by (auto simp: bit_or_iff bit_ucast_iff bit_push_bit_iff dest: bit_imp_le_length)
  qed
qed simp

lemma le_word_le_bytes [le_simps]:
  "LENGTH('a::len) \<le> 8 * n \<Longrightarrow> le_word (le_bytes n w) = (w :: 'a word)"
  by (rule bit_word_eqI) (auto simp: bit_le_word_le_bytes)

lemma le_bytes_inj [le_simps]:
  "LENGTH('a::len) \<le> 8 * n \<Longrightarrow> le_bytes n (v :: 'a word) = le_bytes n w \<longleftrightarrow> v = w"
  by (metis le_word_le_bytes)

lemma le_bytes_cong:
  "(\<And>i. i < 8 * n \<Longrightarrow> bit x i = bit y i) \<Longrightarrow> le_bytes n x = le_bytes n (y :: 'a::len word)"
proof (induction n arbitrary: x y)
  case (Suc n)
  have "(ucast x :: byte) = ucast y"
    using Suc.prems by (intro bit_word_eqI) (auto simp: bit_ucast_iff)
  moreover have "le_bytes n (drop_bit 8 x) = le_bytes n (drop_bit 8 y)"
    using Suc.prems by (intro Suc.IH) (auto simp: bit_drop_bit_eq)
  ultimately show ?case by simp
qed simp

lemma le_bytes_le_word [le_simps]:
  "8 * length bs \<le> LENGTH('a::len) \<Longrightarrow> le_bytes (length bs) (le_word bs :: 'a word) = bs"
proof (induction bs)
  case (Cons b bs)
  let ?w = "le_word bs :: 'a word"
  have len: "8 + 8 * length bs \<le> LENGTH('a)" using Cons.prems by simp
  have "(ucast (ucast b OR push_bit 8 ?w) :: byte) = b"
    using len by (intro bit_word_eqI)
      (auto simp: bit_ucast_iff bit_or_iff bit_push_bit_iff)
  moreover have "le_bytes (length bs) (drop_bit 8 (ucast b OR push_bit 8 ?w)) =
      le_bytes (length bs) ?w"
    using len by (intro le_bytes_cong)
      (auto simp: bit_drop_bit_eq bit_or_iff bit_ucast_iff bit_push_bit_iff
        dest: bit_imp_le_length)
  ultimately show ?case using Cons by simp
qed simp

lemma unat_add_1: "(c :: 'a::len word) + 1 \<noteq> 0 \<Longrightarrow> unat (c + 1) = Suc (unat c)"
  by (simp add: unatSuc add.commute)

lemma unat_byte_Suc:
  assumes "(c :: byte) \<noteq> 255"
  shows "unat (c + 1) = Suc (unat c)"
proof -
  have "c + 1 \<noteq> 0"
  proof
    assume "c + 1 = 0"
    then have "c = - 1" by (metis eq_neg_iff_add_eq_0)
    then show False using assms by simp
  qed
  then show ?thesis by (rule unat_add_1)
qed

section \<open>Lists\<close>

lemma append_eq_same_length [simp]:
  "length xs = length ys \<Longrightarrow> xs @ us = ys @ vs \<longleftrightarrow> xs = ys \<and> us = vs"
  by simp

text \<open>A separator that occurs in neither prefix splits a concatenation uniquely.\<close>

lemma sep_inj:
  assumes "z \<notin> set xs" "z \<notin> set ys"
  shows "xs @ z # us = ys @ z # vs \<longleftrightarrow> xs = ys \<and> us = vs"
  using assms
proof (induction xs arbitrary: ys)
  case Nil
  then show ?case by (cases ys) auto
next
  case (Cons x xs)
  then show ?case by (cases ys) auto
qed

section \<open>Strings\<close>

abbreviation NL :: char where "NL \<equiv> CHR 0x0A"
abbreviation CR :: char where "CR \<equiv> CHR 0x0D"

text \<open>\<open>str::trim\<close> on ASCII white space.\<close>

definition is_space :: "char \<Rightarrow> bool" where
  "is_space c \<longleftrightarrow> c \<in> set [CHR 0x20, CHR 0x09, NL, CHR 0x0B, CHR 0x0C, CR]"

definition trim :: "string \<Rightarrow> string" where
  "trim s = rev (dropWhile is_space (rev (dropWhile is_space s)))"

lemma trim_id: "\<forall>c \<in> set s. \<not> is_space c \<Longrightarrow> trim s = s"
proof -
  assume a: "\<forall>c \<in> set s. \<not> is_space c"
  have drop: "dropWhile is_space t = t" if "\<forall>c \<in> set t. \<not> is_space c" for t
    using that by (cases t) auto
  show ?thesis using drop [of s] drop [of "rev s"] a by (simp add: trim_def)
qed

lemma trim_nonempty: "c \<in> set s \<Longrightarrow> \<not> is_space c \<Longrightarrow> trim s \<noteq> []"
  by (auto simp: trim_def dropWhile_eq_Nil_conv) (metis dropWhile_eq_Nil_conv set_dropWhileD set_rev
      list.set_intros(1) hd_dropWhile list.collapse)

text \<open>\<open>str::lines\<close>: the pieces ended by a newline, without it and without a carriage return before it,
  and an unterminated last piece as it is.\<close>

definition strip_cr :: "string \<Rightarrow> string" where
  "strip_cr l = (if l \<noteq> [] \<and> last l = CR then butlast l else l)"

function str_lines :: "string \<Rightarrow> string list" where
  "str_lines s =
    (if s = [] then []
     else let l = takeWhile (\<lambda>c. c \<noteq> NL) s; r = dropWhile (\<lambda>c. c \<noteq> NL) s in
       if r = [] then [l] else strip_cr l # str_lines (tl r))"
  by pat_completeness auto
termination
proof (relation "measure length", simp)
  fix s l r :: string
  assume "s \<noteq> []" "r = dropWhile (\<lambda>c. c \<noteq> NL) s" "r \<noteq> []"
  moreover have "length (dropWhile (\<lambda>c. c \<noteq> NL) s) \<le> length s" by (rule length_dropWhile_le)
  ultimately have "length r \<le> length s" "0 < length s" by auto
  then have "length r - 1 < length s" by linarith
  then show "(tl r, s) \<in> measure length" by simp
qed

declare str_lines.simps [simp del]

definition unlines :: "string list \<Rightarrow> string" where
  "unlines ls = concat (map (\<lambda>l. l @ [NL]) ls)"

lemma unlines_simps [simp]:
  "unlines [] = []" "unlines (l # ls) = l @ NL # unlines ls"
  "unlines (ls @ ks) = unlines ls @ unlines ks"
  by (simp_all add: unlines_def)

lemma str_lines_Nil [simp]: "str_lines [] = []"
  by (simp add: str_lines.simps)

lemma str_lines_line [simp]:
  assumes "NL \<notin> set l"
  shows "str_lines (l @ NL # s) = strip_cr l # str_lines s"
proof -
  have "takeWhile (\<lambda>c. c \<noteq> NL) (l @ NL # s) = l" "dropWhile (\<lambda>c. c \<noteq> NL) (l @ NL # s) = NL # s"
    using assms by (simp_all add: takeWhile_append dropWhile_append)
  then show ?thesis by (subst str_lines.simps) simp
qed

definition is_line :: "string \<Rightarrow> bool" where
  "is_line l \<longleftrightarrow> NL \<notin> set l \<and> CR \<notin> set l"

lemma strip_cr_line [simp]: "is_line l \<Longrightarrow> strip_cr l = l"
  by (metis is_line_def last_in_set strip_cr_def)

lemma str_lines_unlines: "list_all is_line ls \<Longrightarrow> str_lines (unlines ls) = ls"
proof (induction ls)
  case (Cons l ls)
  then have "NL \<notin> set l" by (simp add: is_line_def)
  with Cons show ?case by simp
qed simp

text \<open>Decimal printing (\<open>to_string\<close>, \<open>{}\<close> in a format string) and zero padding (\<open>{:08}\<close>).\<close>

definition digit :: "nat \<Rightarrow> char" where
  "digit d = char_of (48 + d)"

fun dec :: "nat \<Rightarrow> string" where
  "dec n = (if n < 10 then [digit n] else dec (n div 10) @ [digit (n mod 10)])"

declare dec.simps [simp del]

definition dec_pad :: "nat \<Rightarrow> nat \<Rightarrow> string" where
  "dec_pad w n = replicate (w - length (dec n)) CHR ''0'' @ dec n"

definition undec :: "string \<Rightarrow> nat" where
  "undec s = foldl (\<lambda>a c. 10 * a + (of_char c - 48)) 0 s"

lemma of_char_digit: "d < 10 \<Longrightarrow> of_char (digit d) = 48 + d"
  by (simp add: digit_def)

lemma undec_dec [simp]: "undec (dec n) = n"
proof (induction n rule: dec.induct)
  case (1 n)
  show ?case
  proof (cases "n < 10")
    case True
    then show ?thesis by (simp add: dec.simps [of n] undec_def of_char_digit)
  next
    case False
    then have "undec (dec (n div 10)) = n div 10" using 1 by simp
    with False show ?thesis by (simp add: dec.simps [of n] undec_def of_char_digit)
  qed
qed

lemma dec_inj [simp]: "dec m = dec n \<longleftrightarrow> m = n"
  by (metis undec_dec)

lemma undec_zeros: "undec (replicate k CHR ''0'' @ s) = undec s"
  by (induction k) (simp_all add: undec_def)

lemma dec_pad_inj [simp]: "dec_pad w m = dec_pad w n \<longleftrightarrow> m = n"
  unfolding dec_pad_def by (metis undec_dec undec_zeros)

definition is_digit :: "char \<Rightarrow> bool" where
  "is_digit c \<longleftrightarrow> c \<in> set ''0123456789''"

lemma digit_is_digit: "d < 10 \<Longrightarrow> is_digit (digit d)"
proof -
  have "list_all (\<lambda>d. is_digit (digit d)) [0..<10]" by code_simp
  then show "d < 10 \<Longrightarrow> is_digit (digit d)" by (simp add: list_all_iff)
qed

lemma dec_digits: "c \<in> set (dec n) \<Longrightarrow> is_digit c"
proof (induction n rule: dec.induct)
  case (1 n)
  then show ?case
    by (cases "n < 10") (auto simp: dec.simps [of n] digit_is_digit)
qed

text \<open>\<open>str::contains\<close>, \<open>starts_with\<close>, \<open>ends_with\<close> and ASCII case.\<close>

fun contains :: "'a list \<Rightarrow> 'a list \<Rightarrow> bool" where
  "contains needle [] = (needle = [])"
| "contains needle (c # s) = (prefix needle (c # s) \<or> contains needle s)"

lemma contains_iff: "contains needle s \<longleftrightarrow> sublist needle s"
proof (induction s)
  case (Cons c s)
  then show ?case by (simp add: sublist_Cons_right)
qed simp

definition is_upper :: "char \<Rightarrow> bool" where
  "is_upper c \<longleftrightarrow> (65 :: nat) \<le> of_char c \<and> of_char c \<le> (90 :: nat)"

definition is_lower :: "char \<Rightarrow> bool" where
  "is_lower c \<longleftrightarrow> (97 :: nat) \<le> of_char c \<and> of_char c \<le> (122 :: nat)"

definition is_alnum :: "char \<Rightarrow> bool" where
  "is_alnum c \<longleftrightarrow> is_upper c \<or> is_lower c \<or> is_digit c"

definition to_lower :: "char \<Rightarrow> char" where
  "to_lower c = (if is_upper c then char_of (of_char c + 32 :: nat) else c)"

definition ascii_lower :: "string \<Rightarrow> string" where
  "ascii_lower s = map to_lower s"

section \<open>Saturating arithmetic\<close>

definition sat_sub :: "'a::len word \<Rightarrow> 'a word \<Rightarrow> 'a word" where
  "sat_sub a b = (if a < b then 0 else a - b)"

definition sat_add :: "'a::len word \<Rightarrow> 'a word \<Rightarrow> 'a word" where
  "sat_add a b = (if a + b < a then - 1 else a + b)"

lemma unat_sat_sub: "unat (sat_sub a b) = unat a - unat b"
  by (simp add: sat_sub_def unat_sub word_less_nat_alt word_le_nat_alt not_less)

lemma unat_sat_add: "unat (sat_add a b) = min (unat a + unat b) (2 ^ LENGTH('a) - 1)"
  for a b :: "'a::len word"
proof (cases "unat a + unat b < 2 ^ LENGTH('a)")
  case True
  then have "unat (a + b) = unat a + unat b" by (simp add: unat_word_ariths)
  then have "\<not> a + b < a" by (simp add: word_less_nat_alt)
  with True \<open>unat (a + b) = unat a + unat b\<close> show ?thesis by (simp add: sat_add_def)
next
  case False
  have lt: "unat a < 2 ^ LENGTH('a)" "unat b < 2 ^ LENGTH('a)" by (rule unsigned_less)+
  then have "unat a + unat b - 2 ^ LENGTH('a) < 2 ^ LENGTH('a)" by linarith
  then have "unat (a + b) = unat a + unat b - 2 ^ LENGTH('a)"
    using False by (simp add: unat_word_ariths le_mod_geq)
  moreover have "unat a + unat b - 2 ^ LENGTH('a) < unat a" using False lt by linarith
  ultimately have "a + b < a" by (simp add: word_less_nat_alt)
  then show ?thesis using False by (simp add: sat_add_def unsigned_minus_1_eq_mask mask_eq_exp_minus_1)
qed

definition slice :: "nat \<Rightarrow> nat \<Rightarrow> 'a list \<Rightarrow> 'a list" where
  "slice off n xs = take n (drop off xs)"

lemma length_slice [simp]: "off + n \<le> length xs \<Longrightarrow> length (slice off n xs) = n"
  by (simp add: slice_def)

section \<open>Hash maps\<close>

text \<open>A \<open>HashMap\<close> that is iterated over is an association list in which a key occurs once (\<open>hm_ok\<close>); lookup is
  \<^const>\<open>map_of\<close>. The order of the list stands for the unspecified order of iteration.\<close>

type_synonym ('k, 'v) hmap = "('k \<times> 'v) list"

definition hm_ok :: "('k, 'v) hmap \<Rightarrow> bool" where
  "hm_ok m \<longleftrightarrow> distinct (map fst m)"

definition hm_remove :: "'k \<Rightarrow> ('k, 'v) hmap \<Rightarrow> ('k, 'v) hmap" where
  "hm_remove k m = filter (\<lambda>e. fst e \<noteq> k) m"

definition hm_insert :: "'k \<Rightarrow> 'v \<Rightarrow> ('k, 'v) hmap \<Rightarrow> ('k, 'v) hmap" where
  "hm_insert k v m = (k, v) # hm_remove k m"

definition hm_retain :: "('k \<Rightarrow> 'v \<Rightarrow> bool) \<Rightarrow> ('k, 'v) hmap \<Rightarrow> ('k, 'v) hmap" where
  "hm_retain P m = filter (\<lambda>(k, v). P k v) m"

lemma map_of_hm_remove [simp]: "map_of (hm_remove k m) = (map_of m)(k := None)"
  by (induction m) (auto simp: hm_remove_def fun_eq_iff)

lemma map_of_hm_insert [simp]: "map_of (hm_insert k v m) = (map_of m)(k \<mapsto> v)"
  by (simp add: hm_insert_def fun_eq_iff)

lemma hm_ok_Nil [simp]: "hm_ok []"
  by (simp add: hm_ok_def)

lemma hm_ok_remove [simp]: "hm_ok m \<Longrightarrow> hm_ok (hm_remove k m)"
  by (simp add: hm_ok_def hm_remove_def distinct_map_filter)

lemma hm_ok_insert [simp]: "hm_ok m \<Longrightarrow> hm_ok (hm_insert k v m)"
  by (auto simp: hm_ok_def hm_insert_def hm_remove_def distinct_map_filter)

lemma hm_ok_retain [simp]: "hm_ok m \<Longrightarrow> hm_ok (hm_retain P m)"
  by (simp add: hm_ok_def hm_retain_def distinct_map_filter)

lemma hm_values: "hm_ok m \<Longrightarrow> v \<in> set (map snd m) \<longleftrightarrow> (\<exists>k. map_of m k = Some v)"
  by (force simp: hm_ok_def)

lemma map_of_hm_retain:
  "hm_ok m \<Longrightarrow> map_of (hm_retain P m) k =
    (case map_of m k of Some v \<Rightarrow> if P k v then Some v else None | None \<Rightarrow> None)"
proof (induction m)
  case (Cons x xs)
  then have "hm_ok xs" "fst x = k \<Longrightarrow> map_of xs k = None"
    by (auto simp: hm_ok_def map_of_eq_None_iff)
  with Cons show ?case by (cases x) (auto simp: hm_retain_def split: option.splits)
qed (simp add: hm_retain_def)

lemma length_hm_remove_le: "length (hm_remove k m) \<le> length m"
  by (simp add: hm_remove_def)

lemma length_hm_remove_present: "map_of m k = Some v \<Longrightarrow> length (hm_remove k m) < length m"
  unfolding hm_remove_def by (rule length_filter_less [of "(k, v)"]) (auto dest: map_of_SomeD)

lemma length_hm_insert: "length (hm_insert k v m) \<le> Suc (length m)"
  by (simp add: hm_insert_def length_hm_remove_le)

lemma length_hm_insert_present: "map_of m k = Some x \<Longrightarrow> length (hm_insert k v m) \<le> length m"
  using length_hm_remove_present [of m k x] by (simp add: hm_insert_def)

end
