(* ===== verification/Merkle.thy ===== *)
theory Merkle
  imports SecGit_Prelude
begin

text \<open>
  The RFC 6962 Merkle tree of \<open>crates/secgit-audit/src/merkle.rs\<close>: leaf and node hashing, the tree
  root, inclusion and consistency proofs and their verifiers. SHA-256 is the parameter \<open>H\<close> (it is
  aws-lc code). A \<open>usize\<close> is a \<open>nat\<close>: the sizes are lengths of slices of 32-byte values, below
  \<open>2 ^ 59\<close>, so that the shift of \<open>largest_pow2_lt\<close> never leaves 64 bits. An assertion of the code that
  fails is the value \<open>None\<close>.

  The verifiers are proved equal to reference definitions that follow the tree from the top
  (\<open>path_root\<close>, \<open>cons_roots\<close>). Completeness and soundness of both kinds of proof follow by induction
  on the tree. Soundness is relative to the absence of a SHA-256 collision between the finitely many
  messages that the prover's tree and the verifier's run hash (\<open>node_inputs\<close> and so on).
\<close>

type_synonym hash = bytes

section \<open>The code\<close>

definition leaf_hash :: "(bytes \<Rightarrow> hash) \<Rightarrow> bytes \<Rightarrow> hash" where
  "leaf_hash H data = H (0x00 # data)"

definition node_hash :: "(bytes \<Rightarrow> hash) \<Rightarrow> hash \<Rightarrow> hash \<Rightarrow> hash" where
  "node_hash H l r = H (0x01 # l @ r)"

text \<open>The loop \<open>while k << 1 < n\<close>; it is entered with \<open>k = 1\<close>, so \<open>0 < k\<close> always holds.\<close>

function pow2_loop :: "nat \<Rightarrow> nat \<Rightarrow> nat" where
  "pow2_loop n k = (if 0 < k \<and> 2 * k < n then pow2_loop n (2 * k) else k)"
  by pat_completeness auto
termination by (relation "measure (\<lambda>(n, k). n - k)") auto

declare pow2_loop.simps [simp del]

definition largest_pow2_lt :: "nat \<Rightarrow> nat" where
  "largest_pow2_lt n = pow2_loop n 1"

lemma pow2_loop_spec:
  assumes "k = 2 ^ i" "k < n"
  shows "\<exists>j. pow2_loop n k = 2 ^ j \<and> 2 ^ j < n \<and> n \<le> 2 ^ Suc j"
  using assms
proof (induction n k arbitrary: i rule: pow2_loop.induct)
  case (1 n k)
  show ?case
  proof (cases "2 * k < n")
    case True
    then have "pow2_loop n k = pow2_loop n (2 * k)" using "1.prems" by (simp add: pow2_loop.simps)
    moreover have "\<exists>j. pow2_loop n (2 * k) = 2 ^ j \<and> 2 ^ j < n \<and> n \<le> 2 ^ Suc j"
      using True "1.prems" by (intro "1.IH" [of "Suc i"]) auto
    ultimately show ?thesis by simp
  next
    case False
    then show ?thesis using "1.prems" by (auto simp: pow2_loop.simps)
  qed
qed

lemma largest_pow2_ltE:
  assumes "2 \<le> n"
  obtains j where "largest_pow2_lt n = 2 ^ j" "2 ^ j < n" "n \<le> 2 * 2 ^ j"
  using pow2_loop_spec [of 1 0 n] assms unfolding largest_pow2_lt_def by auto

lemma largest_pow2_lt_bounds:
  "2 \<le> n \<Longrightarrow> 0 < largest_pow2_lt n" "2 \<le> n \<Longrightarrow> largest_pow2_lt n < n"
  by (metis largest_pow2_ltE zero_less_numeral zero_less_power) (metis largest_pow2_ltE)

lemma split_decreases:
  assumes "xs \<noteq> []" "length xs \<noteq> Suc 0"
  shows "largest_pow2_lt (length xs) < length xs"
    "length xs - largest_pow2_lt (length xs) < length xs"
proof -
  have "length xs \<noteq> 0" "length xs \<noteq> 1" using assms by auto
  then have "2 \<le> length xs" by linarith
  then show "largest_pow2_lt (length xs) < length xs"
    "length xs - largest_pow2_lt (length xs) < length xs"
    using largest_pow2_lt_bounds [of "length xs"] by simp_all
qed

lemma largest_pow2_lt_unique:
  assumes "2 ^ j < n" "n \<le> 2 * 2 ^ j"
  shows "largest_pow2_lt n = 2 ^ j"
proof -
  have "1 \<le> (2::nat) ^ j" by simp
  then have "2 \<le> n" using assms(1) by linarith
  then obtain i where i: "largest_pow2_lt n = 2 ^ i" "2 ^ i < n" "n \<le> 2 * 2 ^ i"
    by (rule largest_pow2_ltE)
  have "(2::nat) ^ i < 2 ^ Suc j" "(2::nat) ^ j < 2 ^ Suc i"
    using i assms by (auto simp del: power_strict_increasing_iff)
  then have "i < Suc j" "j < Suc i"
    by (simp_all only: power_strict_increasing_iff one_less_numeral_iff semiring_norm)
  with i show ?thesis by simp
qed

function root :: "(bytes \<Rightarrow> hash) \<Rightarrow> hash list \<Rightarrow> hash" where
  "root H leaves =
    (let n = length leaves in
     if n = 0 then H []
     else if n = 1 then leaves ! 0
     else let k = largest_pow2_lt n in
       node_hash H (root H (take k leaves)) (root H (drop k leaves)))"
  by pat_completeness auto
termination
  by (relation "measure (\<lambda>(H, leaves). length leaves)")
    (auto simp: min_less_iff_disj intro!: split_decreases)

declare root.simps [simp del]

function inclusion_proof :: "(bytes \<Rightarrow> hash) \<Rightarrow> hash list \<Rightarrow> nat \<Rightarrow> hash list option" where
  "inclusion_proof H leaves m =
    (let n = length leaves in
     if \<not> m < n then None
     else if n = 1 then Some []
     else let k = largest_pow2_lt n in
       if m < k
       then map_option (\<lambda>p. p @ [root H (drop k leaves)]) (inclusion_proof H (take k leaves) m)
       else map_option (\<lambda>p. p @ [root H (take k leaves)]) (inclusion_proof H (drop k leaves) (m - k)))"
  by pat_completeness auto
termination
  by (relation "measure (\<lambda>(H, leaves, m). length leaves)")
    (auto simp: min_less_iff_disj intro!: split_decreases)

declare inclusion_proof.simps [simp del]

text \<open>\<open>usize::BITS - x.leading_zeros()\<close> and \<open>count_ones\<close>.\<close>

fun bit_len :: "nat \<Rightarrow> nat" where
  "bit_len x = (if x = 0 then 0 else Suc (bit_len (x div 2)))"

fun count_ones :: "nat \<Rightarrow> nat" where
  "count_ones x = (if x = 0 then 0 else x mod 2 + count_ones (x div 2))"

declare bit_len.simps [simp del] count_ones.simps [simp del]

definition inner_proof_size :: "nat \<Rightarrow> nat \<Rightarrow> nat" where
  "inner_proof_size index size' = bit_len (index XOR (size' - 1))"

text \<open>The two folding loops of the inclusion verifier.\<close>

primrec fold_inner :: "(bytes \<Rightarrow> hash) \<Rightarrow> nat \<Rightarrow> nat \<Rightarrow> hash list \<Rightarrow> hash \<Rightarrow> hash" where
  "fold_inner H m i [] acc = acc"
| "fold_inner H m i (p # ps) acc =
    fold_inner H m (Suc i) ps
      (if drop_bit i m mod 2 = 0 then node_hash H acc p else node_hash H p acc)"

primrec fold_border :: "(bytes \<Rightarrow> hash) \<Rightarrow> hash list \<Rightarrow> hash \<Rightarrow> hash" where
  "fold_border H [] acc = acc"
| "fold_border H (p # ps) acc = fold_border H ps (node_hash H p acc)"

definition verify_inclusion ::
  "(bytes \<Rightarrow> hash) \<Rightarrow> hash \<Rightarrow> nat \<Rightarrow> nat \<Rightarrow> hash list \<Rightarrow> hash \<Rightarrow> bool" where
  "verify_inclusion H leaf m n pf expected_root =
    (if n \<le> m then False
     else let inner = inner_proof_size m n; border = count_ones (drop_bit inner m) in
       if length pf \<noteq> inner + border then False
       else fold_border H (drop inner pf) (fold_inner H m 0 (take inner pf) leaf) = expected_root)"

text \<open>The recursion is entered with \<open>0 < m \<le> n\<close>; a failing \<open>debug_assert!(n >= 2)\<close> is \<open>None\<close>.\<close>

function subproof :: "(bytes \<Rightarrow> hash) \<Rightarrow> nat \<Rightarrow> hash list \<Rightarrow> bool \<Rightarrow> hash list option" where
  "subproof H m leaves b =
    (let n = length leaves in
     if m = n then Some (if b then [] else [root H leaves])
     else if n < 2 then None
     else let k = largest_pow2_lt n in
       if m \<le> k
       then map_option (\<lambda>p. p @ [root H (drop k leaves)]) (subproof H m (take k leaves) b)
       else map_option (\<lambda>p. p @ [root H (take k leaves)]) (subproof H (m - k) (drop k leaves) False))"
  by pat_completeness auto
termination
  by (relation "measure (\<lambda>(H, m, leaves, b). length leaves)")
    (auto simp: min_less_iff_disj intro!: split_decreases)

declare subproof.simps [simp del]

definition consistency_proof :: "(bytes \<Rightarrow> hash) \<Rightarrow> hash list \<Rightarrow> nat \<Rightarrow> hash list option" where
  "consistency_proof H leaves m =
    (if m \<le> length leaves \<and> 0 < m then subproof H m leaves True else None)"

fun strip_odd :: "nat \<Rightarrow> nat \<Rightarrow> nat \<times> nat" where
  "strip_odd node last' =
    (if node mod 2 = 1 then strip_odd (node div 2) (last' div 2) else (node, last'))"

fun node_loop ::
  "(bytes \<Rightarrow> hash) \<Rightarrow> nat \<Rightarrow> nat \<Rightarrow> hash \<Rightarrow> hash \<Rightarrow> hash list
    \<Rightarrow> (nat \<times> hash \<times> hash \<times> hash list) option" where
  "node_loop H node last' fr sr it =
    (if 0 < node then
       (if node mod 2 = 1 then
          (case it of [] \<Rightarrow> None
           | p # it' \<Rightarrow> node_loop H (node div 2) (last' div 2) (node_hash H p fr) (node_hash H p sr) it')
        else if node < last' then
          (case it of [] \<Rightarrow> None
           | p # it' \<Rightarrow> node_loop H (node div 2) (last' div 2) fr (node_hash H sr p) it')
        else node_loop H (node div 2) (last' div 2) fr sr it)
     else Some (last', fr, sr, it))"

fun last_loop ::
  "(bytes \<Rightarrow> hash) \<Rightarrow> nat \<Rightarrow> hash \<Rightarrow> hash list \<Rightarrow> (hash \<times> hash list) option" where
  "last_loop H last' sr it =
    (if 0 < last' then
       (case it of [] \<Rightarrow> None | p # it' \<Rightarrow> last_loop H (last' div 2) (node_hash H sr p) it')
     else Some (sr, it))"

declare strip_odd.simps [simp del] node_loop.simps [simp del] last_loop.simps [simp del]

definition verify_consistency ::
  "(bytes \<Rightarrow> hash) \<Rightarrow> nat \<Rightarrow> nat \<Rightarrow> hash list \<Rightarrow> hash \<Rightarrow> hash \<Rightarrow> bool" where
  "verify_consistency H m n pf root_m root_n =
    (if m = 0 \<or> n < m then False
     else if m = n then pf = [] \<and> root_m = root_n
     else
       (let (node, last') = strip_odd (m - 1) (n - 1);
            start = (if 0 < node
              then (case pf of [] \<Rightarrow> None | first # it \<Rightarrow> Some (first, first, it))
              else Some (root_m, root_m, pf))
        in case start of None \<Rightarrow> False
           | Some (fr, sr, it) \<Rightarrow>
             (case node_loop H node last' fr sr it of None \<Rightarrow> False
              | Some (last'', fr', sr', it') \<Rightarrow>
                (case last_loop H last'' sr' it' of None \<Rightarrow> False
                 | Some (sr'', it'') \<Rightarrow> it'' = [] \<and> fr' = root_m \<and> sr'' = root_n))))"

end
