(* ===== verification/Merkle_Inclusion.thy ===== *)
theory Merkle_Inclusion
  imports Merkle
begin

text \<open>
  Inclusion proofs of \<open>merkle.rs\<close>: the bit arithmetic of \<open>inner_proof_size\<close>, the equality of the
  iterative verifier with the recursive \<open>path_root\<close>, completeness of the prover and soundness of the
  verifier. \<open>leaves_induct\<close> is the induction over a tree as the code splits it.
\<close>

section \<open>Bits of an index\<close>

lemma xor_step: "(a::nat) XOR b = of_bool (odd a \<noteq> odd b) + 2 * ((a div 2) XOR (b div 2))"
  by (rule xor_rec)

lemma pow2_split: "(a::nat) < 2 * 2 ^ j \<Longrightarrow> a div 2 < 2 ^ j"
  by simp

lemma xor_lt: "(a::nat) < 2 ^ j \<Longrightarrow> b < 2 ^ j \<Longrightarrow> a XOR b < 2 ^ j"
proof (induction j arbitrary: a b)
  case (Suc j)
  then have "(a div 2) XOR (b div 2) < 2 ^ j" by (intro Suc.IH) auto
  then show ?case by (subst xor_step) auto
qed simp

lemma div2_top: "0 < j \<Longrightarrow> ((2::nat) ^ j + a) div 2 = 2 ^ (j - 1) + a div 2"
  by (cases j) simp_all

lemma xor_top_left:
  "(a::nat) < 2 ^ j \<Longrightarrow> b < 2 ^ j \<Longrightarrow> a XOR (2 ^ j + b) = 2 ^ j + (a XOR b)"
proof (induction j arbitrary: a b)
  case (Suc j)
  then have "(a div 2) XOR (2 ^ j + b div 2) = 2 ^ j + ((a div 2) XOR (b div 2))"
    by (intro Suc.IH) auto
  then show ?case by (subst (1 2) xor_step) (simp add: div2_top)
qed simp

lemma xor_top_both:
  "(a::nat) < 2 ^ j \<Longrightarrow> b < 2 ^ j \<Longrightarrow> (2 ^ j + a) XOR (2 ^ j + b) = a XOR b"
proof (induction j arbitrary: a b)
  case (Suc j)
  then have "(2 ^ j + a div 2) XOR (2 ^ j + b div 2) = (a div 2) XOR (b div 2)"
    by (intro Suc.IH) auto
  then show ?case by (subst (1 2) xor_step) (simp add: div2_top)
qed simp

lemma bit_len_le: "x < 2 ^ j \<Longrightarrow> bit_len x \<le> j"
proof (induction j arbitrary: x)
  case (Suc j)
  then have "bit_len (x div 2) \<le> j" by (intro Suc.IH) auto
  then show ?case by (subst bit_len.simps) auto
qed (simp add: bit_len.simps)

lemma bit_len_top: "x < 2 ^ j \<Longrightarrow> bit_len (2 ^ j + x) = Suc j"
proof (induction j arbitrary: x)
  case (Suc j)
  then have "bit_len (2 ^ j + x div 2) = Suc j" by (intro Suc.IH) auto
  then show ?case by (subst bit_len.simps) (simp add: div2_top)
qed (simp add: bit_len.simps)

lemma count_ones_top: "a < 2 ^ j \<Longrightarrow> count_ones (2 ^ j + a) = Suc (count_ones a)"
proof (induction j arbitrary: a)
  case (Suc j)
  then have "count_ones (2 ^ j + a div 2) = Suc (count_ones (a div 2))" by (intro Suc.IH) auto
  then show ?case
    by (subst (1 2) count_ones.simps) (auto simp: div2_top mod2_eq_if count_ones.simps)
qed (simp add: count_ones.simps)

lemma drop_bit_top: "i \<le> j \<Longrightarrow> drop_bit i (2 ^ j + a) = 2 ^ (j - i) + drop_bit i (a::nat)"
proof (induction i arbitrary: j a)
  case (Suc i)
  then obtain j' where j: "j = Suc j'" by (cases j) auto
  with Suc show ?case by (simp add: drop_bit_Suc div2_top)
qed simp

lemma drop_bit_lt: "(a::nat) < 2 ^ j \<Longrightarrow> i \<le> j \<Longrightarrow> drop_bit i a < 2 ^ (j - i)"
  by (simp add: drop_bit_eq_div less_mult_imp_div_less flip: power_add)

lemma count_ones_drop_top:
  "a < 2 ^ j \<Longrightarrow> i \<le> j \<Longrightarrow> count_ones (drop_bit i (2 ^ j + a)) = Suc (count_ones (drop_bit i a))"
  by (simp add: drop_bit_top count_ones_top drop_bit_lt)

lemma odd_drop_top:
  assumes "i < j"
  shows "drop_bit i (2 ^ j + a) mod 2 = drop_bit i (a::nat) mod 2"
proof -
  obtain r where "j - i = Suc r" using assms by (metis Suc_diff_Suc)
  then show ?thesis using assms by (simp add: drop_bit_top)
qed

lemma pred_split:
  assumes "2 ^ j < n" "n \<le> 2 * 2 ^ j"
  obtains c where "n = Suc (2 ^ j + c)" "c < 2 ^ j"
  using assms that [of "n - Suc (2 ^ j)"] by simp

lemma inner_left:
  assumes "m < 2 ^ j" "2 ^ j < n" "n \<le> 2 * 2 ^ j"
  shows "inner_proof_size m n = Suc j"
proof -
  obtain c where "n = Suc (2 ^ j + c)" "c < 2 ^ j" using assms(2,3) by (rule pred_split)
  with assms(1) show ?thesis
    by (simp add: inner_proof_size_def xor_top_left xor_lt bit_len_top)
qed

lemma inner_right:
  assumes "m < 2 ^ j" "2 ^ j < n" "n \<le> 2 * 2 ^ j"
  shows "inner_proof_size (2 ^ j + m) n = inner_proof_size m (n - 2 ^ j)"
    "inner_proof_size m (n - 2 ^ j) \<le> j"
proof -
  obtain c where "n = Suc (2 ^ j + c)" "c < 2 ^ j" using assms(2,3) by (rule pred_split)
  with assms(1) show "inner_proof_size (2 ^ j + m) n = inner_proof_size m (n - 2 ^ j)"
    "inner_proof_size m (n - 2 ^ j) \<le> j"
    by (simp_all add: inner_proof_size_def xor_top_both bit_len_le xor_lt)
qed

section \<open>The inclusion verifier\<close>

lemma fold_inner_append:
  "fold_inner H m i (ps @ qs) acc = fold_inner H m (i + length ps) qs (fold_inner H m i ps acc)"
  by (induction ps arbitrary: i acc) simp_all

lemma fold_border_append: "fold_border H (ps @ qs) acc = fold_border H qs (fold_border H ps acc)"
  by (induction ps arbitrary: acc) simp_all

lemma fold_inner_top:
  "i + length ps \<le> j \<Longrightarrow> fold_inner H (2 ^ j + m) i ps acc = fold_inner H m i ps acc"
  by (induction ps arbitrary: i acc) (simp_all add: odd_drop_top)

text \<open>The value the verifier compares with the expected root, when the proof has the right length.\<close>

definition incl_acc :: "(bytes \<Rightarrow> hash) \<Rightarrow> hash \<Rightarrow> nat \<Rightarrow> nat \<Rightarrow> hash list \<Rightarrow> hash option" where
  "incl_acc H leaf m n pf =
    (let inner = inner_proof_size m n in
     if length pf = inner + count_ones (drop_bit inner m)
     then Some (fold_border H (drop inner pf) (fold_inner H m 0 (take inner pf) leaf))
     else None)"

lemma verify_inclusion_acc:
  "verify_inclusion H leaf m n pf r \<longleftrightarrow> m < n \<and> incl_acc H leaf m n pf = Some r"
  by (auto simp: verify_inclusion_def incl_acc_def Let_def)

lemma incl_acc_left:
  assumes "m < 2 ^ j" "2 ^ j < n" "n \<le> 2 * 2 ^ j"
  shows "incl_acc H leaf m n pf =
    (if length pf = Suc j then Some (fold_inner H m 0 pf leaf) else None)"
proof -
  have "drop_bit (Suc j) m = 0" using assms(1) by (simp add: drop_bit_eq_div)
  then show ?thesis
    by (simp add: incl_acc_def inner_left [OF assms] count_ones.simps)
qed

lemma incl_acc_right:
  assumes "m < 2 ^ j" "2 ^ j < n" "n \<le> 2 * 2 ^ j"
  shows "incl_acc H leaf (2 ^ j + m) n (pf @ [p]) =
    map_option (node_hash H p) (incl_acc H leaf m (n - 2 ^ j) pf)"
  using inner_right [OF assms] assms(1)
  by (simp add: incl_acc_def Let_def count_ones_drop_top fold_inner_top fold_border_append)

lemma incl_acc_right_Nil:
  assumes "m < 2 ^ j" "2 ^ j < n" "n \<le> 2 * 2 ^ j"
  shows "incl_acc H leaf (2 ^ j + m) n [] = None"
  using inner_right [OF assms] assms(1) by (simp add: incl_acc_def Let_def count_ones_drop_top)

text \<open>In a perfect tree every sibling is folded by the bits of the index alone.\<close>

lemma incl_acc_perfect:
  "m < 2 ^ j \<Longrightarrow> incl_acc H leaf m (2 ^ j) pf =
    (if length pf = j then Some (fold_inner H m 0 pf leaf) else None)"
proof (induction j arbitrary: m pf)
  case 0
  then show ?case by (simp add: incl_acc_def inner_proof_size_def bit_len.simps count_ones.simps)
next
  case (Suc j)
  show ?case
  proof (cases "m < 2 ^ j")
    case True
    then show ?thesis using incl_acc_left [of m j "2 ^ Suc j"] by simp
  next
    case False
    then obtain m' where m: "m = 2 ^ j + m'" "m' < 2 ^ j"
      using Suc.prems by (metis add_less_cancel_left le_Suc_ex mult_2 not_less power_Suc)
    have IH: "incl_acc H leaf m' (2 ^ j) ps =
        (if length ps = j then Some (fold_inner H m' 0 ps leaf) else None)" for ps
      using Suc.IH m(2) by simp
    have "drop_bit j m' = 0" using m(2) by (simp add: drop_bit_eq_div)
    then have top: "drop_bit j m mod 2 = 1" by (simp add: m(1) drop_bit_top)
    show ?thesis
    proof (cases pf rule: rev_cases)
      case Nil
      then show ?thesis using incl_acc_right_Nil [of m' j "2 ^ Suc j" H leaf] m by simp
    next
      case (snoc ps p)
      then show ?thesis
        using incl_acc_right [of m' j "2 ^ Suc j" H leaf ps p] m top
        by (simp add: IH fold_inner_append fold_inner_top)
    qed
  qed
qed

function path_root :: "(bytes \<Rightarrow> hash) \<Rightarrow> hash \<Rightarrow> nat \<Rightarrow> nat \<Rightarrow> hash list \<Rightarrow> hash option" where
  "path_root H leaf m n pf =
    (if n < 2 then (if pf = [] then Some leaf else None)
     else if pf = [] then None
     else let k = largest_pow2_lt n; p = last pf; ps = butlast pf in
       if m < k then map_option (\<lambda>x. node_hash H x p) (path_root H leaf m k ps)
       else map_option (\<lambda>x. node_hash H p x) (path_root H leaf (m - k) (n - k) ps))"
  by pat_completeness auto
termination
  by (relation "measure (\<lambda>(H, leaf, m, n, pf). n)") (auto simp: largest_pow2_lt_bounds)

declare path_root.simps [simp del]

lemma path_root_split:
  assumes "2 ^ j < n" "n \<le> 2 * 2 ^ j"
  shows "path_root H leaf m n (ps @ [p]) =
      (if m < 2 ^ j then map_option (\<lambda>x. node_hash H x p) (path_root H leaf m (2 ^ j) ps)
       else map_option (\<lambda>x. node_hash H p x) (path_root H leaf (m - 2 ^ j) (n - 2 ^ j) ps))"
    "path_root H leaf m n [] = None"
proof -
  have "1 \<le> (2::nat) ^ j" by simp
  with assms(1) have "\<not> n < 2" by linarith
  then show "path_root H leaf m n [] = None" by (simp add: path_root.simps)
  show "path_root H leaf m n (ps @ [p]) =
      (if m < 2 ^ j then map_option (\<lambda>x. node_hash H x p) (path_root H leaf m (2 ^ j) ps)
       else map_option (\<lambda>x. node_hash H p x) (path_root H leaf (m - 2 ^ j) (n - 2 ^ j) ps))"
    using \<open>\<not> n < 2\<close>
    by (subst path_root.simps) (simp add: Let_def largest_pow2_lt_unique [OF assms])
qed

text \<open>A tree of two or more leaves splits below its largest power of two.\<close>

lemma tree_split_induct [consumes 1, case_names Leaf Node]:
  assumes "0 < (n::nat)"
    and "P 1"
    and "\<And>n j. 2 ^ j < n \<Longrightarrow> n \<le> 2 * 2 ^ j \<Longrightarrow> P (2 ^ j) \<Longrightarrow> P (n - 2 ^ j) \<Longrightarrow> P n"
  shows "P n"
  using assms(1)
proof (induction n rule: less_induct)
  case (less n)
  show ?case
  proof (cases "n = 1")
    case False
    with less.prems have "2 \<le> n" by simp
    then obtain j where j: "2 ^ j < n" "n \<le> 2 * 2 ^ j" by (rule largest_pow2_ltE)
    show ?thesis by (rule assms(3) [OF j]) (use j in \<open>auto intro: less.IH\<close>)
  qed (use assms(2) in simp)
qed

lemma incl_acc_path_root:
  "0 < n \<Longrightarrow> m < n \<Longrightarrow> incl_acc H leaf m n pf = path_root H leaf m n pf"
proof (induction n arbitrary: m pf rule: tree_split_induct)
  case Leaf
  then show ?case
    by (simp add: incl_acc_def inner_proof_size_def bit_len.simps count_ones.simps
        path_root.simps)
next
  case (Node n j)
  note split = path_root_split [OF Node.hyps(1,2)]
  have IH: "path_root H leaf i (2 ^ j) ps = incl_acc H leaf i (2 ^ j) ps" if "i < 2 ^ j" for i ps
    using Node.IH(1) that by simp
  show ?case
  proof (cases "m < 2 ^ j")
    case True
    have "drop_bit j m = 0" using True by (simp add: drop_bit_eq_div)
    then show ?thesis using True Node.hyps(1,2)
      by (cases pf rule: rev_cases)
        (simp_all add: split IH incl_acc_left incl_acc_perfect fold_inner_append)
  next
    case False
    then obtain i where i: "m = 2 ^ j + i" by (metis le_Suc_ex not_less)
    then have lt: "i < n - 2 ^ j" "i < 2 ^ j" using Node.hyps Node.prems by auto
    show ?thesis
      using incl_acc_right [OF lt(2) Node.hyps(1,2)] incl_acc_right_Nil [OF lt(2) Node.hyps(1,2)]
        Node.IH(2) [OF lt(1)]
      by (cases pf rule: rev_cases) (simp_all add: split i)
  qed
qed

lemma verify_inclusion_path_root:
  "verify_inclusion H leaf m n pf r \<longleftrightarrow> m < n \<and> path_root H leaf m n pf = Some r"
  by (cases "0 < n") (auto simp: verify_inclusion_acc incl_acc_path_root)

lemma root_split:
  assumes "2 ^ j < length ls" "length ls \<le> 2 * 2 ^ j"
  shows "root H ls = node_hash H (root H (take (2 ^ j) ls)) (root H (drop (2 ^ j) ls))"
proof -
  have "1 \<le> (2::nat) ^ j" by simp
  with assms(1) have "length ls \<noteq> 0" "length ls \<noteq> 1" by linarith+
  then show ?thesis
    by (subst root.simps) (simp add: Let_def largest_pow2_lt_unique [OF assms])
qed

lemma root_single [simp]: "root H [x] = x"
  by (simp add: root.simps)

lemma inclusion_proof_single [simp]:
  "inclusion_proof H [x] m = (if m = 0 then Some [] else None)"
  by (subst inclusion_proof.simps) simp

lemma path_root_single [simp]: "path_root H leaf m (Suc 0) pf = (if pf = [] then Some leaf else None)"
  by (subst path_root.simps) simp

lemma inclusion_proof_split:
  assumes "2 ^ j < length ls" "length ls \<le> 2 * 2 ^ j" "m < length ls"
  shows "inclusion_proof H ls m =
    (if m < 2 ^ j
     then map_option (\<lambda>p. p @ [root H (drop (2 ^ j) ls)]) (inclusion_proof H (take (2 ^ j) ls) m)
     else map_option (\<lambda>p. p @ [root H (take (2 ^ j) ls)])
       (inclusion_proof H (drop (2 ^ j) ls) (m - 2 ^ j)))"
proof -
  have "1 \<le> (2::nat) ^ j" by simp
  with assms(1) have "length ls \<noteq> 1" by linarith
  then show ?thesis using assms(3)
    by (subst inclusion_proof.simps) (simp add: Let_def largest_pow2_lt_unique [OF assms(1,2)])
qed

text \<open>Induction over the leaves of a tree, split as the code splits them.\<close>

lemma leaves_induct [consumes 1, case_names Leaf Node]:
  assumes "ls \<noteq> []"
    and "\<And>x. P [x]"
    and "\<And>ls j. 2 ^ j < length ls \<Longrightarrow> length ls \<le> 2 * 2 ^ j \<Longrightarrow>
      P (take (2 ^ j) ls) \<Longrightarrow> P (drop (2 ^ j) ls) \<Longrightarrow> P ls"
  shows "P ls"
proof -
  have "0 < n \<Longrightarrow> \<forall>ls. length ls = n \<longrightarrow> P ls" for n
  proof (induction n rule: tree_split_induct)
    case Leaf
    then show ?case using assms(2) by (auto simp: length_Suc_conv)
  next
    case (Node n j)
    show ?case
    proof (intro allI impI)
      fix ls :: "'a list" assume "length ls = n"
      with Node show "P ls" by (intro assms(3) [of j ls]) auto
    qed
  qed
  then show ?thesis using assms(1) by (metis length_greater_0_conv)
qed

lemma inclusion_proof_total:
  "ls \<noteq> [] \<Longrightarrow> m < length ls \<Longrightarrow> \<exists>pf. inclusion_proof H ls m = Some pf"
proof (induction ls arbitrary: m rule: leaves_induct)
  case (Node ls j)
  have "\<exists>pf. inclusion_proof H (take (2 ^ j) ls) m = Some pf" if "m < 2 ^ j"
    using Node that by auto
  moreover have "\<exists>pf. inclusion_proof H (drop (2 ^ j) ls) (m - 2 ^ j) = Some pf" if "\<not> m < 2 ^ j"
    using Node that by auto
  ultimately show ?case by (auto simp: inclusion_proof_split [OF Node.hyps(1,2) Node.prems])
qed simp

lemma inclusion_proof_bound: "inclusion_proof H ls m = Some pf \<Longrightarrow> m < length ls"
  by (subst (asm) inclusion_proof.simps) (auto simp: Let_def split: if_splits)

lemma inclusion_proof_path_root:
  "ls \<noteq> [] \<Longrightarrow> inclusion_proof H ls m = Some pf \<Longrightarrow>
    path_root H (ls ! m) m (length ls) pf = Some (root H ls)"
proof (induction ls arbitrary: m pf rule: leaves_induct)
  case (Leaf x)
  then show ?case by (auto split: if_splits)
next
  case (Node ls j)
  note m = inclusion_proof_bound [OF Node.prems]
  note split = path_root_split [OF Node.hyps(1,2)] root_split [OF Node.hyps(1,2)]
    inclusion_proof_split [OF Node.hyps(1,2) m]
  have l: "path_root H (ls ! m) m (2 ^ j) ps = Some (root H (take (2 ^ j) ls))"
    if "m < 2 ^ j" "inclusion_proof H (take (2 ^ j) ls) m = Some ps" for ps
    using Node.IH(1) [OF that(2)] Node.hyps(1) that(1) by simp
  have r: "path_root H (ls ! m) (m - 2 ^ j) (length ls - 2 ^ j) ps = Some (root H (drop (2 ^ j) ls))"
    if "\<not> m < 2 ^ j" "inclusion_proof H (drop (2 ^ j) ls) (m - 2 ^ j) = Some ps" for ps
    using Node.IH(2) [OF that(2)] Node.hyps(1) that(1) by simp
  from Node.prems show ?case
    by (auto simp: split l r split: if_splits)
qed

section \<open>Soundness of inclusion proofs\<close>

definition collision_free :: "(bytes \<Rightarrow> hash) \<Rightarrow> bytes list \<Rightarrow> bytes list \<Rightarrow> bool" where
  "collision_free H xs ys \<longleftrightarrow> list_all (\<lambda>x. list_all (\<lambda>y. H x = H y \<longrightarrow> x = y) ys) xs"

lemma collision_freeD:
  "collision_free H xs ys \<Longrightarrow> x \<in> set xs \<Longrightarrow> y \<in> set ys \<Longrightarrow> H x = H y \<Longrightarrow> x = y"
  by (auto simp: collision_free_def list_all_iff)

lemma collision_free_mono:
  "collision_free H xs ys \<Longrightarrow> set xs' \<subseteq> set xs \<Longrightarrow> set ys' \<subseteq> set ys \<Longrightarrow> collision_free H xs' ys'"
  by (auto simp: collision_free_def list_all_iff)

definition hash32 :: "hash \<Rightarrow> bool" where
  "hash32 h \<longleftrightarrow> length h = 32"

function root_msgs :: "(bytes \<Rightarrow> hash) \<Rightarrow> hash list \<Rightarrow> bytes list" where
  "root_msgs H ls =
    (if length ls < 2 then []
     else let k = largest_pow2_lt (length ls); l = take k ls; r = drop k ls in
       (1 # root H l @ root H r) # root_msgs H l @ root_msgs H r)"
  by pat_completeness auto
termination
  by (relation "measure (\<lambda>(H, ls). length ls)")
    (auto simp: min_less_iff_disj intro!: split_decreases)

function path_msgs :: "(bytes \<Rightarrow> hash) \<Rightarrow> hash \<Rightarrow> nat \<Rightarrow> nat \<Rightarrow> hash list \<Rightarrow> bytes list" where
  "path_msgs H leaf m n pf =
    (if n < 2 \<or> pf = [] then []
     else let k = largest_pow2_lt n; p = last pf; ps = butlast pf in
       if m < k then
         (case path_root H leaf m k ps of None \<Rightarrow> []
          | Some x \<Rightarrow> (1 # x @ p) # path_msgs H leaf m k ps)
       else
         (case path_root H leaf (m - k) (n - k) ps of None \<Rightarrow> []
          | Some x \<Rightarrow> (1 # p @ x) # path_msgs H leaf (m - k) (n - k) ps))"
  by pat_completeness auto
termination
  by (relation "measure (\<lambda>(H, leaf, m, n, pf). n)") (auto simp: largest_pow2_lt_bounds)

declare root_msgs.simps [simp del] path_msgs.simps [simp del]

lemma node_hash_inj:
  assumes "node_hash H a b = node_hash H c d"
    and "collision_free H xs ys" "1 # c @ d \<in> set xs" "1 # a @ b \<in> set ys"
    and "hash32 a" "hash32 c"
  shows "a = c" "b = d"
proof -
  have "1 # c @ d = (1 # a @ b :: bytes)"
    by (rule collision_freeD [OF assms(2-4)]) (use assms(1) in \<open>simp add: node_hash_def\<close>)
  then show "a = c" "b = d" using assms(5,6) by (auto simp: hash32_def)
qed

lemma hash32_node [simp]: "(\<And>x. hash32 (H x)) \<Longrightarrow> hash32 (node_hash H a b)"
  by (simp add: node_hash_def)

lemma pow2_less_2: "(2::nat) ^ j < n \<Longrightarrow> \<not> n < 2"
  using one_le_power [of "2::nat" j] by linarith

lemma hash32_root:
  "ls \<noteq> [] \<Longrightarrow> (\<And>x. hash32 (H x)) \<Longrightarrow> list_all hash32 ls \<Longrightarrow> hash32 (root H ls)"
  by (induction ls rule: leaves_induct) (simp_all add: root_split)

lemma hash32_path_root:
  "(\<And>x. hash32 (H x)) \<Longrightarrow> hash32 leaf \<Longrightarrow> path_root H leaf m n pf = Some r \<Longrightarrow> hash32 r"
  by (subst (asm) path_root.simps) (auto simp: Let_def split: if_splits)

lemma root_msgs_split:
  assumes "2 ^ j < length ls" "length ls \<le> 2 * 2 ^ j"
  shows "root_msgs H ls = (1 # root H (take (2 ^ j) ls) @ root H (drop (2 ^ j) ls))
    # root_msgs H (take (2 ^ j) ls) @ root_msgs H (drop (2 ^ j) ls)"
  using pow2_less_2 [OF assms(1)]
  by (subst root_msgs.simps) (simp add: Let_def largest_pow2_lt_unique [OF assms])

lemma path_msgs_split:
  assumes "2 ^ j < n" "n \<le> 2 * 2 ^ j"
  shows "path_msgs H leaf m n (ps @ [p]) =
    (if m < 2 ^ j then
       (case path_root H leaf m (2 ^ j) ps of None \<Rightarrow> []
        | Some x \<Rightarrow> (1 # x @ p) # path_msgs H leaf m (2 ^ j) ps)
     else
       (case path_root H leaf (m - 2 ^ j) (n - 2 ^ j) ps of None \<Rightarrow> []
        | Some x \<Rightarrow> (1 # p @ x) # path_msgs H leaf (m - 2 ^ j) (n - 2 ^ j) ps))"
  using pow2_less_2 [OF assms(1)]
  by (subst path_msgs.simps) (simp add: Let_def largest_pow2_lt_unique [OF assms])

lemma list_all_take_drop [simp]:
  "list_all P xs \<Longrightarrow> list_all P (take n xs)" "list_all P xs \<Longrightarrow> list_all P (drop n xs)"
  by (auto simp: list_all_iff dest: in_set_takeD in_set_dropD)

lemma path_root_sound:
  assumes H: "\<And>x. hash32 (H x)" and leaf: "hash32 leaf"
  shows "ls \<noteq> [] \<Longrightarrow> m < length ls \<Longrightarrow> path_root H leaf m (length ls) pf = Some (root H ls) \<Longrightarrow>
    list_all hash32 ls \<Longrightarrow> list_all hash32 pf \<Longrightarrow>
    collision_free H (root_msgs H ls) (path_msgs H leaf m (length ls) pf) \<Longrightarrow>
    leaf = ls ! m \<and> inclusion_proof H ls m = Some pf"
proof (induction ls arbitrary: m pf rule: leaves_induct)
  case (Leaf x)
  then show ?case by (auto split: if_splits)
next
  case (Node ls j)
  let ?l = "take (2 ^ j) ls" and ?r = "drop (2 ^ j) ls"
  note split = path_root_split [OF Node.hyps(1,2)] root_split [OF Node.hyps(1,2)]
    inclusion_proof_split [OF Node.hyps(1,2)] root_msgs_split [OF Node.hyps(1,2)]
    path_msgs_split [OF Node.hyps(1,2)]
  obtain ps p where pf: "pf = ps @ [p]"
    using Node.prems(2) by (cases pf rule: rev_cases) (auto simp: split)
  have len: "length ?l = 2 ^ j" "length ?r = length ls - 2 ^ j" "?l \<noteq> []" "?r \<noteq> []"
    and mn: "min (length ls) (2 ^ j) = 2 ^ j"
    using Node.hyps(1) by auto
  have h: "hash32 (root H ?l)" "hash32 (root H ?r)" "hash32 p" "list_all hash32 ps"
    using Node.prems(3,4) len H pf by (auto intro!: hash32_root)
  show ?case
  proof (cases "m < 2 ^ j")
    case True
    with Node.prems(2) pf obtain x where x: "path_root H leaf m (2 ^ j) ps = Some x"
      "node_hash H x p = node_hash H (root H ?l) (root H ?r)" by (auto simp: split)
    have "x = root H ?l" "p = root H ?r"
      using node_hash_inj [OF x(2) Node.prems(5)] x(1) h hash32_path_root [OF H leaf x(1)]
      by (simp_all add: split pf True)
    moreover have "collision_free H (root_msgs H ?l) (path_msgs H leaf m (length ?l) ps)"
      using Node.prems(5) by (rule collision_free_mono) (auto simp: split pf True x mn)
    ultimately show ?thesis
      using Node.IH(1) [of m ps] True x(1) h Node.prems(1,3) len pf by (simp add: split)
  next
    case False
    with Node.prems(2) pf obtain x where
      x: "path_root H leaf (m - 2 ^ j) (length ls - 2 ^ j) ps = Some x"
      "node_hash H p x = node_hash H (root H ?l) (root H ?r)" by (auto simp: split)
    have "p = root H ?l" "x = root H ?r"
      using node_hash_inj [OF x(2) Node.prems(5)] x(1) h
      by (simp_all add: split pf False)
    moreover have "collision_free H (root_msgs H ?r) (path_msgs H leaf (m - 2 ^ j) (length ?r) ps)"
      using Node.prems(5) by (rule collision_free_mono) (auto simp: split pf False x len)
    ultimately show ?thesis
      using Node.IH(2) [of "m - 2 ^ j" ps] False x(1) h Node.prems(1,3) len pf by (simp add: split)
  qed
qed

end
