(* ===== verification/Merkle_Consistency.thy ===== *)
theory Merkle_Consistency
  imports Merkle_Inclusion
begin

text \<open>
  Consistency proofs of \<open>merkle.rs\<close>: the two loops of the verifier as one fold along a list of
  directions, the equality of the verifier with the recursive \<open>cons_roots\<close>, completeness of
  \<open>consistency_proof\<close> and soundness of \<open>verify_consistency\<close>.
\<close>

section \<open>The consistency verifier\<close>

function cons_roots ::
  "(bytes \<Rightarrow> hash) \<Rightarrow> nat \<Rightarrow> nat \<Rightarrow> bool \<Rightarrow> hash list \<Rightarrow> hash \<Rightarrow> (hash \<times> hash) option" where
  "cons_roots H m n b pf rm =
    (if m = n then
       (if b then (if pf = [] then Some (rm, rm) else None)
        else if length pf = 1 then Some (hd pf, hd pf) else None)
     else if n < 2 \<or> pf = [] then None
     else let k = largest_pow2_lt n; p = last pf; ps = butlast pf in
       if m \<le> k
       then map_option (\<lambda>(fr, sr). (fr, node_hash H sr p)) (cons_roots H m k b ps rm)
       else map_option (\<lambda>(fr, sr). (node_hash H p fr, node_hash H p sr))
         (cons_roots H (m - k) (n - k) False ps rm))"
  by pat_completeness auto
termination
  by (relation "measure (\<lambda>(H, m, n, b, pf, rm). n)") (auto simp: largest_pow2_lt_bounds)

declare cons_roots.simps [simp del]

lemma cons_roots_full [simp]:
  "cons_roots H n n b pf rm =
    (if b then (if pf = [] then Some (rm, rm) else None)
     else if length pf = 1 then Some (hd pf, hd pf) else None)"
  by (subst cons_roots.simps) simp

text \<open>The two loops fold the proof along a list of directions that depends on the sizes only:
  \<open>True\<close> hashes the sibling into both roots, \<open>False\<close> into the new root only.\<close>

fun dirs :: "nat \<Rightarrow> nat \<Rightarrow> bool list" where
  "dirs node last' =
    (if node = 0 \<and> last' = 0 then []
     else if node mod 2 = 1 then True # dirs (node div 2) (last' div 2)
     else if node < last' then False # dirs (node div 2) (last' div 2)
     else dirs (node div 2) (last' div 2))"

declare dirs.simps [simp del]

fun fold_pair :: "(bytes \<Rightarrow> hash) \<Rightarrow> bool list \<Rightarrow> hash list \<Rightarrow> hash \<times> hash \<Rightarrow> hash \<times> hash" where
  "fold_pair H (True # ds) (p # ps) (fr, sr) = fold_pair H ds ps (node_hash H p fr, node_hash H p sr)"
| "fold_pair H (False # ds) (p # ps) (fr, sr) = fold_pair H ds ps (fr, node_hash H sr p)"
| "fold_pair H _ _ a = a"

lemma fold_pair_append:
  "length ds = length ps \<Longrightarrow> fold_pair H (ds @ [d]) (ps @ [p]) a =
    (case fold_pair H ds ps a of (fr, sr) \<Rightarrow>
      (if d then node_hash H p fr else fr, if d then node_hash H p sr else node_hash H sr p))"
  by (induction H ds ps a rule: fold_pair.induct) (auto split: prod.splits)

lemma last_loop_dirs:
  "last_loop H last' sr it =
    (if length it < length (dirs 0 last') then None
     else Some (snd (fold_pair H (dirs 0 last') it (fr, sr)), drop (length (dirs 0 last')) it))"
proof (induction H last' sr it arbitrary: fr rule: last_loop.induct)
  case (1 H last' sr it)
  show ?case
  proof (cases "0 < last'")
    case True
    then have d: "dirs 0 last' = False # dirs 0 (last' div 2)" by (subst dirs.simps) simp
    from True show ?thesis
      by (cases it) (simp_all add: last_loop.simps [of H last'] d "1.IH" [of _ _ fr])
  next
    case False
    then show ?thesis by (simp add: last_loop.simps dirs.simps)
  qed
qed

definition climb ::
  "(bytes \<Rightarrow> hash) \<Rightarrow> nat \<Rightarrow> nat \<Rightarrow> hash \<Rightarrow> hash \<Rightarrow> hash list \<Rightarrow> (hash \<times> hash \<times> hash list) option" where
  "climb H node last' fr sr it =
    (case node_loop H node last' fr sr it of None \<Rightarrow> None
     | Some (last'', fr', sr', it') \<Rightarrow>
       map_option (\<lambda>(sr'', it''). (fr', sr'', it'')) (last_loop H last'' sr' it'))"

lemma fold_pair_zero: "fst (fold_pair H (dirs 0 last') it (fr, sr)) = fr"
proof (induction last' arbitrary: it sr rule: less_induct)
  case (less last')
  show ?case
  proof (cases "last' = 0")
    case False
    then have "dirs 0 last' = False # dirs 0 (last' div 2)" by (subst dirs.simps) simp
    then show ?thesis using less False by (cases it) simp_all
  qed (simp add: dirs.simps)
qed

lemma climb_dirs:
  "climb H node last' fr sr it =
    (if length it < length (dirs node last') then None
     else Some (case fold_pair H (dirs node last') it (fr, sr) of (fr', sr') \<Rightarrow>
       (fr', sr', drop (length (dirs node last')) it)))"
proof (induction H node last' fr sr it rule: node_loop.induct)
  case (1 H node last' fr sr it)
  consider "node = 0" | "0 < node" "node mod 2 = 1" | "0 < node" "node mod 2 = 0" "node < last'"
    | "0 < node" "node mod 2 = 0" "\<not> node < last'" by fastforce
  then show ?case
  proof cases
    case 1
    then show ?thesis
      using last_loop_dirs [of H last' sr it fr] fold_pair_zero [of H last' it fr sr]
      by (auto simp: climb_def node_loop.simps split: prod.splits)
  next
    case 2
    then have "dirs node last' = True # dirs (node div 2) (last' div 2)" by (subst dirs.simps) simp
    then show ?thesis using 2 "1.IH"(1)
      by (cases it) (simp_all add: climb_def node_loop.simps [of H node])
  next
    case 3
    then have "dirs node last' = False # dirs (node div 2) (last' div 2)" by (subst dirs.simps) simp
    then show ?thesis using 3 "1.IH"(2)
      by (cases it) (simp_all add: climb_def node_loop.simps [of H node])
  next
    case 4
    then have "dirs node last' = dirs (node div 2) (last' div 2)" by (subst dirs.simps) simp
    then show ?thesis using 4 "1.IH"(3)
      by (simp add: climb_def node_loop.simps [of H node])
  qed
qed

text \<open>The directions of a tree are those of the subtree that holds leaf \<open>m\<close>, then the top step.\<close>

lemma dirs_left:
  "a < 2 ^ j \<Longrightarrow> c < 2 ^ j \<Longrightarrow> dirs a (2 ^ j + c) = dirs a (2 ^ j - 1) @ [False]"
proof (induction j arbitrary: a c)
  case 0
  then show ?case by (simp add: dirs.simps)
next
  case (Suc j)
  have IH: "dirs (a div 2) (2 ^ j + c div 2) = dirs (a div 2) (2 ^ j - 1) @ [False]"
    using Suc by auto
  have d: "(2 ^ Suc j - 1) div 2 = (2::nat) ^ j - 1" by simp
  have "odd ((2::nat) ^ Suc j - 1)" by simp
  then have lt: "a < 2 ^ Suc j - 1" if "even a"
    using that Suc.prems(1) by (metis One_nat_def Suc_pred less_Suc_eq zero_less_numeral zero_less_power)
  show ?case
  proof (cases "odd a")
    case True
    then show ?thesis using IH d odd_pos [OF True]
      by (subst (1 2) dirs.simps) (simp add: div2_top odd_iff_mod_2_eq_one)
  next
    case False
    moreover have "Suc 0 < 2 * (2::nat) ^ j" using one_le_power [of "2::nat" j] by linarith
    ultimately show ?thesis using IH d lt Suc.prems(1)
      by (subst (1 2) dirs.simps) (simp add: div2_top even_iff_mod_2_eq_zero)
  qed
qed

lemma dirs_right:
  "a \<le> c \<Longrightarrow> c < 2 ^ j \<Longrightarrow> dirs (2 ^ j + a) (2 ^ j + c) = dirs a c @ [True]"
proof (induction j arbitrary: a c)
  case 0
  then show ?case by (simp add: dirs.simps)
next
  case (Suc j)
  have IH: "dirs (2 ^ j + a div 2) (2 ^ j + c div 2) = dirs (a div 2) (c div 2) @ [True]"
    using Suc by (auto simp: div_le_mono)
  show ?case
  proof (cases "c = 0")
    case True
    with Suc.prems have "a = 0" by simp
    with True IH show ?thesis by (subst dirs.simps) (simp add: div2_top dirs.simps [of 0 0])
  next
    case False
    then show ?thesis using IH Suc.prems(1)
      by (subst (1 2) dirs.simps) (auto simp: div2_top)
  qed
qed

text \<open>Stripping the low one bits first.\<close>

definition stripped :: "nat \<Rightarrow> nat \<Rightarrow> bool \<times> bool list" where
  "stripped a c = (case strip_odd a c of (node, last') \<Rightarrow> (node = 0, dirs node last'))"

lemma stripped_odd: "odd a \<Longrightarrow> stripped a c = stripped (a div 2) (c div 2)"
  by (simp add: stripped_def strip_odd.simps [of a] odd_iff_mod_2_eq_one)

lemma stripped_even: "even a \<Longrightarrow> stripped a c = (a = 0, dirs a c)"
  by (simp add: stripped_def strip_odd.simps [of a] even_iff_mod_2_eq_zero)

lemma stripped_left:
  "a < 2 ^ j \<Longrightarrow> c < 2 ^ j \<Longrightarrow>
    stripped a (2 ^ j + c) = apsnd (\<lambda>ds. ds @ [False]) (stripped a (2 ^ j - 1))"
proof (induction j arbitrary: a c)
  case 0
  then show ?case by (simp add: stripped_even dirs.simps)
next
  case (Suc j)
  show ?case
  proof (cases "even a")
    case True
    then show ?thesis using dirs_left [OF Suc.prems] by (simp add: stripped_even)
  next
    case False
    moreover have "(2 ^ Suc j - 1) div 2 = (2::nat) ^ j - 1" by simp
    moreover have "stripped (a div 2) (2 ^ j + c div 2) =
        apsnd (\<lambda>ds. ds @ [False]) (stripped (a div 2) (2 ^ j - 1))"
      using Suc by auto
    ultimately show ?thesis by (simp add: stripped_odd div2_top)
  qed
qed

lemma stripped_right:
  "a < c \<Longrightarrow> c < 2 ^ j \<Longrightarrow>
    stripped (2 ^ j + a) (2 ^ j + c) = (False, snd (stripped a c) @ [True])"
proof (induction j arbitrary: a c)
  case (Suc j)
  show ?case
  proof (cases "even a")
    case True
    then show ?thesis using dirs_right [of a c "Suc j"] Suc.prems by (simp add: stripped_even)
  next
    case False
    then have "a div 2 < c div 2" using Suc.prems(1) by presburger
    then have "stripped (2 ^ j + a div 2) (2 ^ j + c div 2) =
        (False, snd (stripped (a div 2) (c div 2)) @ [True])"
      using Suc by auto
    with False show ?thesis by (simp add: stripped_odd div2_top)
  qed
qed simp

text \<open>The pair of roots the verifier compares, from a proof of the right length.\<close>

definition cons_acc ::
  "(bytes \<Rightarrow> hash) \<Rightarrow> nat \<Rightarrow> nat \<Rightarrow> bool \<Rightarrow> hash list \<Rightarrow> hash \<Rightarrow> (hash \<times> hash) option" where
  "cons_acc H m n b pf rm =
    (case stripped (m - 1) (n - 1) of (z, ds) \<Rightarrow>
      if b \<and> z then (if length pf = length ds then Some (fold_pair H ds pf (rm, rm)) else None)
      else (case pf of [] \<Rightarrow> None
        | p # ps \<Rightarrow> if length ps = length ds then Some (fold_pair H ds ps (p, p)) else None))"

lemma verify_consistency_acc:
  assumes "0 < m" "m < n"
  shows "verify_consistency H m n pf root_m root_n \<longleftrightarrow>
    cons_acc H m n True pf root_m = Some (root_m, root_n)"
proof -
  have run: "(case node_loop H node last' fr sr it of None \<Rightarrow> False
      | Some (last'', fr', sr', it') \<Rightarrow>
        (case last_loop H last'' sr' it' of None \<Rightarrow> False
         | Some (sr'', it'') \<Rightarrow> it'' = [] \<and> fr' = root_m \<and> sr'' = root_n)) \<longleftrightarrow>
    length it = length (dirs node last') \<and> fold_pair H (dirs node last') it (fr, sr) = (root_m, root_n)"
    for node last' fr sr it
  proof -
    have "(case node_loop H node last' fr sr it of None \<Rightarrow> False
      | Some (last'', fr', sr', it') \<Rightarrow>
        (case last_loop H last'' sr' it' of None \<Rightarrow> False
         | Some (sr'', it'') \<Rightarrow> it'' = [] \<and> fr' = root_m \<and> sr'' = root_n)) \<longleftrightarrow>
      climb H node last' fr sr it = Some (root_m, root_n, [])"
      by (auto simp: climb_def split: option.splits prod.splits)
    then show ?thesis by (auto simp: climb_dirs split: prod.splits)
  qed
  show ?thesis using assms
    by (auto simp: verify_consistency_def cons_acc_def stripped_def Let_def run
        split: prod.splits list.splits if_splits)
qed

lemma cons_roots_split:
  assumes "2 ^ j < n" "n \<le> 2 * 2 ^ j" "m \<noteq> n"
  shows "cons_roots H m n b (ps @ [p]) rm =
      (if m \<le> 2 ^ j
       then map_option (\<lambda>(fr, sr). (fr, node_hash H sr p)) (cons_roots H m (2 ^ j) b ps rm)
       else map_option (\<lambda>(fr, sr). (node_hash H p fr, node_hash H p sr))
         (cons_roots H (m - 2 ^ j) (n - 2 ^ j) False ps rm))"
    "cons_roots H m n b [] rm = None"
  using pow2_less_2 [OF assms(1)] assms(3)
  by (subst cons_roots.simps; simp add: Let_def largest_pow2_lt_unique [OF assms(1,2)])+

lemma cons_acc_snoc:
  assumes "stripped (m - 1) (n - 1) = (z, ds @ [d])" "stripped (m' - 1) (n' - 1) = (z', ds)"
    and "b \<and> z \<longleftrightarrow> b' \<and> z'"
  shows "cons_acc H m n b (ps @ [p]) rm =
      map_option (\<lambda>(fr, sr). (if d then node_hash H p fr else fr,
          if d then node_hash H p sr else node_hash H sr p)) (cons_acc H m' n' b' ps rm)"
    "cons_acc H m n b [] rm = None"
proof -
  show "cons_acc H m n b (ps @ [p]) rm =
      map_option (\<lambda>(fr, sr). (if d then node_hash H p fr else fr,
          if d then node_hash H p sr else node_hash H sr p)) (cons_acc H m' n' b' ps rm)"
  proof (cases "b \<and> z")
    case True
    then show ?thesis using assms(3)
      by (simp add: cons_acc_def assms(1,2) fold_pair_append del: One_nat_def)
  next
    case False
    then have "\<not> (b' \<and> z')" using assms(3) by simp
    with False show ?thesis
      by (cases ps) (auto simp: cons_acc_def assms(1,2) fold_pair_append simp del: One_nat_def)
  qed
  show "cons_acc H m n b [] rm = None" by (simp add: cons_acc_def assms(1) del: One_nat_def)
qed

lemma cons_acc_left:
  assumes "2 ^ j < n" "n \<le> 2 * 2 ^ j" "0 < m" "m \<le> 2 ^ j"
  shows "cons_acc H m n b (ps @ [p]) rm =
      map_option (\<lambda>(fr, sr). (fr, node_hash H sr p)) (cons_acc H m (2 ^ j) b ps rm)"
    "cons_acc H m n b [] rm = None"
proof -
  obtain c where c: "n = Suc (2 ^ j + c)" "c < 2 ^ j" using assms(1,2) by (rule pred_split)
  obtain z ds where s: "stripped (m - 1) (2 ^ j - 1) = (z, ds)" by force
  have "m - 1 < 2 ^ j" using assms(3,4) by simp
  then have "stripped (m - 1) (n - 1) = (z, ds @ [False])"
    using stripped_left [of "m - 1" j c] s c by simp
  from cons_acc_snoc [OF this s, of b b H]
  show "cons_acc H m n b (ps @ [p]) rm =
      map_option (\<lambda>(fr, sr). (fr, node_hash H sr p)) (cons_acc H m (2 ^ j) b ps rm)"
    "cons_acc H m n b [] rm = None" by simp_all
qed

lemma cons_acc_right:
  assumes "2 ^ j < n" "n \<le> 2 * 2 ^ j" "m < n" "2 ^ j < m"
  shows "cons_acc H m n b (ps @ [p]) rm =
      map_option (\<lambda>(fr, sr). (node_hash H p fr, node_hash H p sr))
        (cons_acc H (m - 2 ^ j) (n - 2 ^ j) False ps rm)"
    "cons_acc H m n b [] rm = None"
proof -
  obtain c where c: "n = Suc (2 ^ j + c)" "c < 2 ^ j" using assms(1,2) by (rule pred_split)
  obtain a where a: "m = Suc (2 ^ j + a)" using assms(4) by (metis less_imp_Suc_add)
  obtain z ds where s: "stripped a c = (z, ds)" by force
  then have s': "stripped (m - 2 ^ j - 1) (n - 2 ^ j - 1) = (z, ds)" using a c by simp
  have "stripped (m - 1) (n - 1) = (False, ds @ [True])"
    using stripped_right [of a c j] assms(3) c a s by simp
  from cons_acc_snoc [OF this s', of b False H]
  show "cons_acc H m n b (ps @ [p]) rm =
      map_option (\<lambda>(fr, sr). (node_hash H p fr, node_hash H p sr))
        (cons_acc H (m - 2 ^ j) (n - 2 ^ j) False ps rm)"
    "cons_acc H m n b [] rm = None" by simp_all
qed

lemma stripped_ones: "stripped (2 ^ j - 1) (2 ^ j - 1) = (True, [])"
proof (induction j)
  case 0
  then show ?case by (simp add: stripped_even dirs.simps)
next
  case (Suc j)
  have "odd ((2::nat) ^ Suc j - 1)" "(2 ^ Suc j - 1) div 2 = (2::nat) ^ j - 1" by simp_all
  then show ?case using Suc stripped_odd [of "2 ^ Suc j - 1" "2 ^ Suc j - 1"] by argo
qed

lemma cons_acc_full:
  "cons_acc H (2 ^ j) (2 ^ j) b pf rm = cons_roots H (2 ^ j) (2 ^ j) b pf rm"
  by (cases pf) (auto simp: cons_acc_def stripped_ones [simplified])

lemma cons_acc_cons_roots:
  "0 < n \<Longrightarrow> 0 < m \<Longrightarrow> m < n \<or> m = n \<and> (\<exists>j. n = 2 ^ j) \<Longrightarrow>
    cons_acc H m n b pf rm = cons_roots H m n b pf rm"
proof (induction n arbitrary: m b pf rule: tree_split_induct)
  case Leaf
  then show ?case using cons_acc_full [of H 0] by auto
next
  case (Node n j)
  show ?case
  proof (cases "m = n")
    case True
    then show ?thesis using Node.prems cons_acc_full by auto
  next
    case False
    then have "m < n" using Node.prems by simp
    note split = cons_roots_split [OF Node.hyps(1,2) False]
    show ?thesis
    proof (cases "m \<le> 2 ^ j")
      case True
      note left = cons_acc_left [OF Node.hyps(1,2) Node.prems(1) True]
      have "cons_acc H m (2 ^ j) b ps rm = cons_roots H m (2 ^ j) b ps rm" for ps
        using True Node.prems(1) by (intro Node.IH(1)) auto
      then show ?thesis using True
        by (cases pf rule: rev_cases) (simp_all add: split left)
    next
      case right: False
      then have "2 ^ j < m" by simp
      note r = cons_acc_right [OF Node.hyps(1,2) \<open>m < n\<close> this]
      have "cons_acc H (m - 2 ^ j) (n - 2 ^ j) False ps rm =
          cons_roots H (m - 2 ^ j) (n - 2 ^ j) False ps rm" for ps
        using right \<open>m < n\<close> by (intro Node.IH(2)) auto
      then show ?thesis using right
        by (cases pf rule: rev_cases) (simp_all add: split r)
    qed
  qed
qed

lemma verify_consistency_cons_roots:
  assumes "0 < m" "m < n"
  shows "verify_consistency H m n pf root_m root_n \<longleftrightarrow>
    cons_roots H m n True pf root_m = Some (root_m, root_n)"
  using assms by (simp add: verify_consistency_acc cons_acc_cons_roots)

lemma subproof_full [simp]: "subproof H (length ls) ls b = Some (if b then [] else [root H ls])"
  by (subst subproof.simps) simp

lemma subproof_split:
  assumes "2 ^ j < length ls" "length ls \<le> 2 * 2 ^ j" "m \<noteq> length ls"
  shows "subproof H m ls b =
    (if m \<le> 2 ^ j
     then map_option (\<lambda>p. p @ [root H (drop (2 ^ j) ls)]) (subproof H m (take (2 ^ j) ls) b)
     else map_option (\<lambda>p. p @ [root H (take (2 ^ j) ls)])
       (subproof H (m - 2 ^ j) (drop (2 ^ j) ls) False))"
  using pow2_less_2 [OF assms(1)] assms(3)
  by (subst subproof.simps) (simp add: Let_def largest_pow2_lt_unique [OF assms(1,2)])

lemma cons_roots_False: "cons_roots H m n False pf rm = cons_roots H m n False pf rm'"
proof (induction H m n "False" pf rm rule: cons_roots.induct)
  case (1 H m n pf rm)
  show ?case
    by (subst (1 2) cons_roots.simps) (use 1 in \<open>simp add: Let_def\<close>)
qed

lemma root_take_right:
  assumes "2 ^ j < m" "m \<le> length ls" "length ls \<le> 2 * 2 ^ j"
  shows "root H (take m ls) =
    node_hash H (root H (take (2 ^ j) ls)) (root H (take (m - 2 ^ j) (drop (2 ^ j) ls)))"
  using root_split [of j "take m ls" H] assms by (simp add: min_absorb1 min_absorb2 drop_take)

lemma subproof_complete:
  "ls \<noteq> [] \<Longrightarrow> 0 < m \<Longrightarrow> m \<le> length ls \<Longrightarrow>
    \<exists>pf. subproof H m ls b = Some pf \<and>
      cons_roots H m (length ls) b pf (root H (take m ls)) = Some (root H (take m ls), root H ls)"
proof (induction ls arbitrary: m b rule: leaves_induct)
  case (Leaf x)
  then have "m = length [x]" by simp
  then show ?case by (simp only: subproof_full cons_roots_full) simp
next
  case (Node ls j)
  let ?l = "take (2 ^ j) ls" and ?r = "drop (2 ^ j) ls"
  have mn: "min (length ls) (2 ^ j) = 2 ^ j" using Node.hyps(1) by simp
  show ?case
  proof (cases "m = length ls")
    case True
    then show ?thesis by simp
  next
    case False
    note split = subproof_split [OF Node.hyps(1,2) False] cons_roots_split [OF Node.hyps(1,2) False]
      root_split [OF Node.hyps(1,2)]
    show ?thesis
    proof (cases "m \<le> 2 ^ j")
      case True
      then obtain pf where "subproof H m ?l b = Some pf"
        "cons_roots H m (2 ^ j) b pf (root H (take m ls)) = Some (root H (take m ls), root H ?l)"
        using Node.IH(1) [of m b] Node.prems mn by (auto simp: min_absorb1)
      with True show ?thesis by (simp add: split)
    next
      case right: False
      then have m: "0 < m - 2 ^ j" "m - 2 ^ j \<le> length ?r" using Node.prems by auto
      from Node.IH(2) [OF this, of False] obtain pf where
        "subproof H (m - 2 ^ j) ?r False = Some pf"
        "cons_roots H (m - 2 ^ j) (length ls - 2 ^ j) False pf (root H (take (m - 2 ^ j) ?r)) =
          Some (root H (take (m - 2 ^ j) ?r), root H ?r)" by auto
      moreover have "root H (take m ls) = node_hash H (root H ?l) (root H (take (m - 2 ^ j) ?r))"
        using right Node.prems Node.hyps(2) by (intro root_take_right) auto
      ultimately show ?thesis using right
          cons_roots_False [of H "m - 2 ^ j" "length ls - 2 ^ j" pf "root H (take m ls)"
            "root H (take (m - 2 ^ j) ?r)"]
        by (simp add: split)
    qed
  qed
qed

text \<open>The messages hashed into the new root along a consistency proof.\<close>

function cons_msgs ::
  "(bytes \<Rightarrow> hash) \<Rightarrow> nat \<Rightarrow> nat \<Rightarrow> bool \<Rightarrow> hash list \<Rightarrow> hash \<Rightarrow> bytes list" where
  "cons_msgs H m n b pf rm =
    (if m = n \<or> n < 2 \<or> pf = [] then []
     else let k = largest_pow2_lt n; p = last pf; ps = butlast pf in
       if m \<le> k then
         (case cons_roots H m k b ps rm of None \<Rightarrow> []
          | Some (fr, sr) \<Rightarrow> (1 # sr @ p) # cons_msgs H m k b ps rm)
       else
         (case cons_roots H (m - k) (n - k) False ps rm of None \<Rightarrow> []
          | Some (fr, sr) \<Rightarrow> (1 # p @ sr) # cons_msgs H (m - k) (n - k) False ps rm))"
  by pat_completeness auto
termination
  by (relation "measure (\<lambda>(H, m, n, b, pf, rm). n)") (auto simp: largest_pow2_lt_bounds)

declare cons_msgs.simps [simp del]

lemma cons_msgs_split:
  assumes "2 ^ j < n" "n \<le> 2 * 2 ^ j" "m \<noteq> n"
  shows "cons_msgs H m n b (ps @ [p]) rm =
      (if m \<le> 2 ^ j then
         (case cons_roots H m (2 ^ j) b ps rm of None \<Rightarrow> []
          | Some (fr, sr) \<Rightarrow> (1 # sr @ p) # cons_msgs H m (2 ^ j) b ps rm)
       else
         (case cons_roots H (m - 2 ^ j) (n - 2 ^ j) False ps rm of None \<Rightarrow> []
          | Some (fr, sr) \<Rightarrow>
            (1 # p @ sr) # cons_msgs H (m - 2 ^ j) (n - 2 ^ j) False ps rm))"
  using pow2_less_2 [OF assms(1)] assms(3)
  by (subst cons_msgs.simps) (simp add: Let_def largest_pow2_lt_unique [OF assms(1,2)])

lemma hash32_cons_roots:
  assumes H: "\<And>x. hash32 (H x)" and rm: "hash32 rm"
  shows "list_all hash32 pf \<Longrightarrow> cons_roots H m n b pf rm = Some (fr, sr) \<Longrightarrow> hash32 sr"
  using rm H
  by (subst (asm) cons_roots.simps)
    (auto simp: Let_def length_Suc_conv split: if_splits)

lemma cons_roots_sound:
  assumes H: "\<And>x. hash32 (H x)" and rm: "hash32 rm"
  shows "ls \<noteq> [] \<Longrightarrow> 0 < m \<Longrightarrow> m \<le> length ls \<Longrightarrow>
    cons_roots H m (length ls) b pf rm = Some (fr, root H ls) \<Longrightarrow>
    list_all hash32 ls \<Longrightarrow> list_all hash32 pf \<Longrightarrow>
    collision_free H (root_msgs H ls) (cons_msgs H m (length ls) b pf rm) \<Longrightarrow>
    fr = root H (take m ls)"
proof (induction ls arbitrary: m b pf fr rule: leaves_induct)
  case (Leaf x)
  then have "m = length [x]" by simp
  with Leaf(3) show ?case by (auto simp: length_Suc_conv split: if_splits)
next
  case (Node ls j)
  let ?l = "take (2 ^ j) ls" and ?r = "drop (2 ^ j) ls"
  show ?case
  proof (cases "m = length ls")
    case True
    then show ?thesis using Node.prems(3) by (auto simp: length_Suc_conv split: if_splits)
  next
    case False
    note split = cons_roots_split [OF Node.hyps(1,2) False] root_split [OF Node.hyps(1,2)]
      root_msgs_split [OF Node.hyps(1,2)] cons_msgs_split [OF Node.hyps(1,2) False]
    obtain ps p where pf: "pf = ps @ [p]"
      using Node.prems(3) by (cases pf rule: rev_cases) (auto simp: split)
    have len: "?l \<noteq> []" "?r \<noteq> []" and mn: "min (length ls) (2 ^ j) = 2 ^ j"
      using Node.hyps(1) by auto
    have h: "hash32 (root H ?l)" "hash32 (root H ?r)" "hash32 p" "list_all hash32 ps"
      using Node.prems(4,5) len H pf by (auto intro!: hash32_root)
    show ?thesis
    proof (cases "m \<le> 2 ^ j")
      case True
      with Node.prems(3) pf obtain sr where sr: "cons_roots H m (2 ^ j) b ps rm = Some (fr, sr)"
        "node_hash H sr p = node_hash H (root H ?l) (root H ?r)" by (auto simp: split)
      have "sr = root H ?l"
        using node_hash_inj [OF sr(2) Node.prems(6)] sr(1) h hash32_cons_roots [OF H rm h(4) sr(1)]
        by (simp add: split pf True)
      moreover have "collision_free H (root_msgs H ?l) (cons_msgs H m (length ?l) b ps rm)"
        using Node.prems(6) by (rule collision_free_mono) (auto simp: split pf True sr mn)
      ultimately have "fr = root H (take m ?l)"
        using Node.IH(1) [of m b ps fr] True sr(1) h Node.prems(1,4) mn by simp
      with True show ?thesis by (simp add: min_absorb1)
    next
      case right: False
      with Node.prems(3) pf obtain fr' sr where
        sr: "cons_roots H (m - 2 ^ j) (length ls - 2 ^ j) False ps rm = Some (fr', sr)"
        "node_hash H p sr = node_hash H (root H ?l) (root H ?r)" "fr = node_hash H p fr'"
        by (auto simp: split)
      have p: "p = root H ?l" "sr = root H ?r"
        using node_hash_inj [OF sr(2) Node.prems(6)] sr(1) h by (simp_all add: split pf right)
      moreover have
        "collision_free H (root_msgs H ?r) (cons_msgs H (m - 2 ^ j) (length ?r) False ps rm)"
        using Node.prems(6) by (rule collision_free_mono) (auto simp: split pf right sr)
      ultimately have "fr' = root H (take (m - 2 ^ j) ?r)"
        using Node.IH(2) [of "m - 2 ^ j" False ps fr'] right sr(1) h Node.prems(1,2,4) by simp
      then show ?thesis
        using sr(3) p root_take_right [of j m ls H] right Node.prems(2) Node.hyps(2) by simp
    qed
  qed
qed

section \<open>The tree as a commitment to a growing list\<close>

text \<open>What a client of the tree relies on: every element has a proof that checks against the commitment,
  and every non-empty prefix has a proof that its commitment is extended by the commitment to the whole.\<close>

locale commitment =
  fixes commit :: "'h list \<Rightarrow> 'c"
    and prove :: "'h list \<Rightarrow> nat \<Rightarrow> 'p option"
    and check :: "'h \<Rightarrow> nat \<Rightarrow> nat \<Rightarrow> 'p \<Rightarrow> 'c \<Rightarrow> bool"
    and extend :: "'h list \<Rightarrow> nat \<Rightarrow> 'q option"
    and check_extend :: "nat \<Rightarrow> nat \<Rightarrow> 'q \<Rightarrow> 'c \<Rightarrow> 'c \<Rightarrow> bool"
  assumes prove_check:
      "m < length ls \<Longrightarrow> \<exists>p. prove ls m = Some p \<and> check (ls ! m) m (length ls) p (commit ls)"
    and extend_check:
      "0 < m \<Longrightarrow> m \<le> length ls \<Longrightarrow>
        \<exists>q. extend ls m = Some q \<and> check_extend m (length ls) q (commit (take m ls)) (commit ls)"
begin

lemma old_element_provable:
  assumes "m < length xs"
  shows "\<exists>p. prove (xs @ ys) m = Some p \<and> check (xs ! m) m (length xs + length ys) p (commit (xs @ ys))"
  using prove_check [of m "xs @ ys"] assms by (simp add: nth_append)

lemma history_extends:
  assumes "xs \<noteq> []"
  shows "\<exists>q. extend (xs @ ys) (length xs) = Some q \<and>
    check_extend (length xs) (length xs + length ys) q (commit xs) (commit (xs @ ys))"
  using extend_check [of "length xs" "xs @ ys"] assms by simp

end

lemma inclusion_complete_lib:
  assumes "m < length ls"
  shows "\<exists>pf. inclusion_proof H ls m = Some pf \<and>
    verify_inclusion H (ls ! m) m (length ls) pf (root H ls)"
proof -
  have "ls \<noteq> []" using assms by auto
  then obtain pf where "inclusion_proof H ls m = Some pf" using inclusion_proof_total assms by blast
  with \<open>ls \<noteq> []\<close> assms show ?thesis
    by (simp add: verify_inclusion_path_root inclusion_proof_path_root)
qed

lemma consistency_complete_lib:
  assumes "0 < m" "m \<le> length ls"
  shows "\<exists>pf. consistency_proof H ls m = Some pf \<and>
    verify_consistency H m (length ls) pf (root H (take m ls)) (root H ls)"
proof -
  have "ls \<noteq> []" using assms by auto
  then obtain pf where pf: "subproof H m ls True = Some pf"
    "cons_roots H m (length ls) True pf (root H (take m ls)) = Some (root H (take m ls), root H ls)"
    using subproof_complete [of ls m H True] assms by blast
  show ?thesis
  proof (cases "m = length ls")
    case True
    then show ?thesis using assms by (simp add: consistency_proof_def verify_consistency_def)
  next
    case False
    then show ?thesis using assms pf by (simp add: consistency_proof_def verify_consistency_cons_roots)
  qed
qed

interpretation mt: commitment "root H" "inclusion_proof H" "verify_inclusion H"
  "consistency_proof H" "verify_consistency H" for H
  by unfold_locales (simp_all add: inclusion_complete_lib consistency_complete_lib)

section \<open>Properties\<close>

definition demo_hash :: "bytes \<Rightarrow> hash" where
  "demo_hash x = take 32 (take 16 (drop 1 x) @ take 16 (drop 33 x) @ replicate 32 0)"

lemma demo_hash32: "hash32 (demo_hash x)"
  by (simp add: hash32_def demo_hash_def)

definition demo_leaves :: "hash list" where
  "demo_leaves = map (\<lambda>i. replicate 32 i) [1, 2, 3, 4, 5]"

lemma length_demo_leaves: "length demo_leaves = 5"
  by (simp add: demo_leaves_def)

text \<open>C6: soundness of inclusion proofs. If the verifier accepts a leaf hash at index \<open>m\<close> against the root
  of a tree, then that leaf is the tree's leaf \<open>m\<close> and the proof is the one the prover makes, unless a
  message hashed on the verifier's path collides under SHA-256 with one hashed in the tree.\<close>

theorem verify_inclusion_sound:
  assumes "\<And>x. hash32 (H x)" "hash32 leaf" "list_all hash32 leaves" "list_all hash32 pf"
    and "verify_inclusion H leaf m (length leaves) pf (root H leaves)"
    and "collision_free H (root_msgs H leaves) (path_msgs H leaf m (length leaves) pf)"
  shows "leaf = leaves ! m \<and> inclusion_proof H leaves m = Some pf"
proof -
  have m: "m < length leaves" "path_root H leaf m (length leaves) pf = Some (root H leaves)"
    using assms(5) by (simp_all add: verify_inclusion_path_root)
  then have "leaves \<noteq> []" by auto
  from path_root_sound [OF assms(1,2) this m assms(3,4,6)] show ?thesis by simp
qed

definition demo_proof :: "hash list" where
  "demo_proof = the (inclusion_proof demo_hash demo_leaves 2)"

theorem verify_inclusion_sound_witness:
  "replicate 32 3 = demo_leaves ! 2 \<and> inclusion_proof demo_hash demo_leaves 2 = Some demo_proof"
proof -
  have "verify_inclusion demo_hash (replicate 32 3) 2 (length demo_leaves) demo_proof
      (root demo_hash demo_leaves)" by code_simp
  moreover have "collision_free demo_hash (root_msgs demo_hash demo_leaves)
      (path_msgs demo_hash (replicate 32 3) 2 (length demo_leaves) demo_proof)" by code_simp
  moreover have "list_all hash32 demo_leaves" "list_all hash32 demo_proof" by code_simp+
  ultimately show ?thesis
    using verify_inclusion_sound [where H = demo_hash and leaf = "replicate 32 3"
        and leaves = demo_leaves and pf = demo_proof and m = 2, OF demo_hash32]
    by (simp add: hash32_def)
qed

text \<open>C26: completeness of the proofs. For every tree and every index in it the prover returns an inclusion proof (its
  assertion never fails), and the verifier accepts it for the leaf at the index against the root. For every non-empty
  prefix of a tree the prover returns a consistency proof, and the verifier accepts it for the prefix's root and the
  tree's root.\<close>

theorem proofs_complete:
  "(m < length leaves \<longrightarrow> (\<exists>pf. inclusion_proof H leaves m = Some pf \<and>
      verify_inclusion H (leaves ! m) m (length leaves) pf (root H leaves)))
   \<and> (0 < k \<and> k \<le> length leaves \<longrightarrow> (\<exists>pf. consistency_proof H leaves k = Some pf \<and>
      verify_consistency H k (length leaves) pf (root H (take k leaves)) (root H leaves)))"
  by (simp add: inclusion_complete_lib consistency_complete_lib)

theorem proofs_complete_witness:
  "(\<exists>pf. inclusion_proof demo_hash demo_leaves 4 = Some pf \<and>
      verify_inclusion demo_hash (demo_leaves ! 4) 4 5 pf (root demo_hash demo_leaves))
   \<and> (\<exists>pf. consistency_proof demo_hash demo_leaves 3 = Some pf \<and>
      verify_consistency demo_hash 3 5 pf (root demo_hash (take 3 demo_leaves)) (root demo_hash demo_leaves))"
  using proofs_complete [of 4 demo_leaves demo_hash 3] by (simp add: length_demo_leaves)

text \<open>C2: soundness of consistency proofs. If the verifier accepts \<open>(m, root_m)\<close> as a prefix of a tree whose
  root it holds, then \<open>root_m\<close> is the root of the tree's first \<open>m\<close> leaves, unless a message hashed into
  the new root by the verifier collides under SHA-256 with one hashed in the tree.\<close>

theorem verify_consistency_sound:
  assumes "\<And>x. hash32 (H x)" "hash32 root_m" "list_all hash32 leaves" "list_all hash32 pf"
    and "verify_consistency H m (length leaves) pf root_m (root H leaves)"
    and "collision_free H (root_msgs H leaves) (cons_msgs H m (length leaves) True pf root_m)"
  shows "root_m = root H (take m leaves)"
proof -
  have m: "0 < m" "m \<le> length leaves"
    using assms(5) by (auto simp: verify_consistency_def split: if_splits)
  show ?thesis
  proof (cases "m = length leaves")
    case True
    then show ?thesis using assms(5) m by (simp add: verify_consistency_def)
  next
    case False
    then have "cons_roots H m (length leaves) True pf root_m = Some (root_m, root H leaves)"
      using assms(5) m by (simp add: verify_consistency_cons_roots)
    moreover have "leaves \<noteq> []" using m by auto
    ultimately show ?thesis using cons_roots_sound [OF assms(1,2) _ m _ assms(3,4,6)] by blast
  qed
qed

theorem verify_consistency_sound_witness:
  "replicate 16 1 @ replicate 16 3 = root demo_hash (take 3 demo_leaves)"
proof -
  let ?pf = "the (consistency_proof demo_hash demo_leaves 3)" and ?r = "replicate 16 1 @ replicate 16 3"
  have "verify_consistency demo_hash 3 (length demo_leaves) ?pf ?r (root demo_hash demo_leaves)"
    by code_simp
  moreover have "collision_free demo_hash (root_msgs demo_hash demo_leaves)
      (cons_msgs demo_hash 3 (length demo_leaves) True ?pf ?r)" by code_simp
  moreover have "list_all hash32 demo_leaves" "list_all hash32 ?pf" "hash32 ?r" by code_simp+
  ultimately show ?thesis
    using verify_consistency_sound [where H = demo_hash and root_m = ?r and leaves = demo_leaves
        and pf = ?pf and m = 3, OF demo_hash32] by blast
qed

text \<open>The iterative inclusion verifier, which folds the proof by the bits of the index and then along
  the right edge, computes the root that the recursive definition of the tree gives.\<close>

theorem verify_inclusion_reference:
  "verify_inclusion H leaf m n pf r \<longleftrightarrow> m < n \<and> path_root H leaf m n pf = Some r"
  by (rule verify_inclusion_path_root)

end
