(* ===== verification/Envelope.thy ===== *)
theory Envelope
  imports SecGit_Prelude
begin

text \<open>
  The crypto-agility layer of \<open>crates/secgit-crypto/src\<close>: the error type (\<open>error.rs\<close>), the algorithm
  identifiers (\<open>ids.rs\<close>), the binary envelope with its reader and writer (\<open>envelope.rs\<close>) and
  \<open>inspect\<close> (\<open>lib.rs\<close>). A \<open>Reader\<close> is a record of the buffer and the position and its methods are
  computations on it; \<open>remaining\<close> is its abstraction, the bytes not read yet.
\<close>

section \<open>Errors and identifiers\<close>

datatype CryptoError =
    UnknownScheme u16
  | UnknownVersion byte
  | Malformed string
  | AuthFailed
  | BadSignature
  | KeyErr string
  | Backend

datatype Kind = Aead | WrappedKey | Signature

fun kind_u8 :: "Kind \<Rightarrow> byte" where
  "kind_u8 Aead = 1"
| "kind_u8 WrappedKey = 2"
| "kind_u8 Signature = 3"

definition kind_from_u8 :: "byte \<Rightarrow> (CryptoError, Kind) result" where
  "kind_from_u8 v =
    (if v = 1 then Ok Aead else if v = 2 then Ok WrappedKey else if v = 3 then Ok Signature
     else Err (Malformed ''unknown artifact kind''))"

datatype AeadScheme = Aes256Gcm | ChaCha20Poly1305
datatype KemScheme = X25519MlKem768
datatype SigScheme = Ed25519MlDsa65 | Ed25519MlDsa87

fun aead_as_u16 :: "AeadScheme \<Rightarrow> u16" where
  "aead_as_u16 Aes256Gcm = 1"
| "aead_as_u16 ChaCha20Poly1305 = 2"

definition aead_from_u16 :: "u16 \<Rightarrow> (CryptoError, AeadScheme) result" where
  "aead_from_u16 v =
    (if v = 1 then Ok Aes256Gcm else if v = 2 then Ok ChaCha20Poly1305 else Err (UnknownScheme v))"

fun kem_as_u16 :: "KemScheme \<Rightarrow> u16" where
  "kem_as_u16 X25519MlKem768 = 1"

definition kem_from_u16 :: "u16 \<Rightarrow> (CryptoError, KemScheme) result" where
  "kem_from_u16 v = (if v = 1 then Ok X25519MlKem768 else Err (UnknownScheme v))"

fun sig_as_u16 :: "SigScheme \<Rightarrow> u16" where
  "sig_as_u16 Ed25519MlDsa65 = 1"
| "sig_as_u16 Ed25519MlDsa87 = 2"

definition sig_from_u16 :: "u16 \<Rightarrow> (CryptoError, SigScheme) result" where
  "sig_from_u16 v =
    (if v = 1 then Ok Ed25519MlDsa65 else if v = 2 then Ok Ed25519MlDsa87
     else Err (UnknownScheme v))"

definition DEFAULT_AEAD :: AeadScheme where "DEFAULT_AEAD = Aes256Gcm"
definition LONG_LIVED_SIG :: SigScheme where "LONG_LIVED_SIG = Ed25519MlDsa87"

lemma kind_roundtrip [simp]: "kind_from_u8 (kind_u8 k) = Ok k"
  by (cases k) (simp_all add: kind_from_u8_def)

lemma kind_from_u8_Ok: "kind_from_u8 v = Ok k \<Longrightarrow> v = kind_u8 k"
  by (auto simp: kind_from_u8_def split: if_splits)

lemma scheme_roundtrips [simp]:
  "aead_from_u16 (aead_as_u16 a) = Ok a" "kem_from_u16 (kem_as_u16 m) = Ok m"
  "sig_from_u16 (sig_as_u16 s) = Ok s"
  by (cases a; cases m; cases s; simp add: aead_from_u16_def kem_from_u16_def sig_from_u16_def)+

section \<open>The envelope\<close>

record Envelope =
  env_kind :: Kind
  env_scheme :: u16
  env_version :: byte
  env_body :: bytes

definition MAGIC :: bytes where "MAGIC = as_bytes ''SGX1''"
definition HEADER_LEN :: nat where "HEADER_LEN = 4 + 1 + 2 + 1"

definition envelope_new :: "Kind \<Rightarrow> u16 \<Rightarrow> byte \<Rightarrow> bytes \<Rightarrow> Envelope" where
  "envelope_new k s v b = \<lparr>env_kind = k, env_scheme = s, env_version = v, env_body = b\<rparr>"

definition encode :: "Envelope \<Rightarrow> bytes" where
  "encode e = MAGIC @ [kind_u8 (env_kind e)] @ le_bytes 2 (env_scheme e) @ [env_version e]
    @ env_body e"

definition decode :: "bytes \<Rightarrow> (CryptoError, Envelope) result" where
  "decode bs =
    (if length bs < HEADER_LEN then Err (Malformed ''short envelope'')
     else if take 4 bs \<noteq> MAGIC then Err (Malformed ''bad magic'')
     else rbind (kind_from_u8 (bs ! 4)) (\<lambda>k.
       Ok \<lparr>env_kind = k, env_scheme = le_word [bs ! 5, bs ! 6], env_version = bs ! 7,
           env_body = drop HEADER_LEN bs\<rparr>))"

lemma length_MAGIC [simp]: "length MAGIC = 4"
  by (simp add: MAGIC_def)

lemma le_bytes_2: "le_bytes 2 w = [ucast w, ucast (drop_bit 8 w)]"
  by (simp add: numeral_2_eq_2)

lemma encode_layout:
  "encode e = MAGIC @ [kind_u8 (env_kind e), ucast (env_scheme e),
    ucast (drop_bit 8 (env_scheme e)), env_version e] @ env_body e"
  by (simp add: encode_def le_bytes_2)

lemma decode_encode_lib: "decode (encode e) = Ok e"
proof -
  have "le_word [ucast s, ucast (drop_bit 8 s)] = s" for s :: u16
    using le_word_le_bytes [of 2 s] by (simp add: le_bytes_2)
  then show ?thesis
    by (simp add: decode_def encode_layout HEADER_LEN_def nth_append)
qed

lemma decode_Ok_encode:
  assumes "decode bs = Ok e"
  shows "encode e = bs"
proof -
  have len: "HEADER_LEN \<le> length bs" and magic: "take 4 bs = MAGIC"
    using assms by (auto simp: decode_def not_less split: if_splits)
  have "drop 4 bs = bs ! 4 # bs ! 5 # bs ! 6 # bs ! 7 # drop 8 bs"
    using len by (simp add: HEADER_LEN_def Cons_nth_drop_Suc [symmetric] eval_nat_numeral)
  then have "bs = take 4 bs @ [bs ! 4, bs ! 5, bs ! 6, bs ! 7] @ drop 8 bs"
    by (metis append_take_drop_id append_Cons append_Nil)
  moreover have "le_bytes 2 (le_word [bs ! 5, bs ! 6] :: u16) = [bs ! 5, bs ! 6]"
    using le_bytes_le_word [of "[bs ! 5, bs ! 6]", where 'a = 16] by (simp add: numeral_2_eq_2)
  ultimately show ?thesis
    using assms len magic
    by (auto simp: decode_def encode_def HEADER_LEN_def not_less dest!: kind_from_u8_Ok
        split: if_splits)
qed

record ArtifactInfo =
  info_kind :: Kind
  info_scheme :: u16
  info_version :: byte

definition inspect :: "bytes \<Rightarrow> (CryptoError, ArtifactInfo) result" where
  "inspect artifact = rbind (decode artifact) (\<lambda>env.
    Ok \<lparr>info_kind = env_kind env, info_scheme = env_scheme env, info_version = env_version env\<rparr>)"

section \<open>The body writer and reader\<close>

text \<open>A \<open>Writer\<close> is its buffer. \<open>b.len() as u32\<close> truncates, as \<open>word_of_nat\<close> does.\<close>

definition w_bytes :: "bytes \<Rightarrow> bytes \<Rightarrow> bytes" where
  "w_bytes b buf = buf @ b"

definition w_lp32 :: "bytes \<Rightarrow> bytes \<Rightarrow> bytes" where
  "w_lp32 b buf = buf @ le_bytes 4 (word_of_nat (length b) :: u32) @ b"

record Reader =
  r_buf :: bytes
  r_pos :: nat

definition reader_new :: "bytes \<Rightarrow> Reader" where
  "reader_new b = \<lparr>r_buf = b, r_pos = 0\<rparr>"

definition r_take :: "nat \<Rightarrow> (Reader, CryptoError, bytes) st" where
  "r_take n r =
    (if length (r_buf r) < r_pos r + n then (Err (Malformed ''truncated body''), r)
     else (Ok (take n (drop (r_pos r) (r_buf r))), r\<lparr>r_pos := r_pos r + n\<rparr>))"

definition r_u8 :: "(Reader, CryptoError, byte) st" where
  "r_u8 = sbind (r_take 1) (\<lambda>b. sret (b ! 0))"

definition r_lp32 :: "(Reader, CryptoError, bytes) st" where
  "r_lp32 = sbind (r_take 4) (\<lambda>lb. r_take (unat (le_word lb :: u32)))"

definition r_rest :: "(Reader, CryptoError, bytes) st" where
  "r_rest r = (Ok (drop (r_pos r) (r_buf r)), r\<lparr>r_pos := length (r_buf r)\<rparr>)"

definition remaining :: "Reader \<Rightarrow> bytes" where
  "remaining r = drop (r_pos r) (r_buf r)"

definition r_ok :: "Reader \<Rightarrow> bool" where
  "r_ok r \<longleftrightarrow> r_pos r \<le> length (r_buf r)"

lemma reader_new_simps [simp]: "remaining (reader_new b) = b" "r_ok (reader_new b)"
  by (simp_all add: reader_new_def remaining_def r_ok_def)

text \<open>Reading what a writer put at the front of the remaining bytes.\<close>

lemma r_take_append:
  assumes "r_ok r" "remaining r = x @ rest" "length x = n"
  obtains r' where "r_take n r = (Ok x, r')" "r_ok r'" "remaining r' = rest"
proof -
  have len: "length (r_buf r) = r_pos r + n + length rest"
    using arg_cong [OF assms(2), of length] assms(1,3) by (simp add: remaining_def r_ok_def)
  have "drop (r_pos r + n) (r_buf r) = drop n (remaining r)"
    by (simp add: remaining_def add.commute)
  then show thesis
    using that [of "r\<lparr>r_pos := r_pos r + n\<rparr>"] assms len
    by (simp add: r_take_def remaining_def [symmetric] r_ok_def) (simp add: remaining_def)
qed

lemma r_lp32_append:
  assumes "r_ok r" "remaining r = le_bytes 4 (word_of_nat (length x) :: u32) @ x @ rest"
    "length x < 2 ^ 32"
  obtains r' where "r_lp32 r = (Ok x, r')" "r_ok r'" "remaining r' = rest"
proof -
  obtain r1 where r1: "r_take 4 r = (Ok (le_bytes 4 (word_of_nat (length x) :: u32)), r1)"
    "r_ok r1" "remaining r1 = x @ rest"
    using r_take_append [OF assms(1,2)] by auto
  obtain r2 where r2: "r_take (length x) r1 = (Ok x, r2)" "r_ok r2" "remaining r2 = rest"
    using r_take_append [OF r1(2,3)] by auto
  have "unat (le_word (le_bytes 4 (word_of_nat (length x) :: u32)) :: u32) = length x"
    using assms(3) by (simp add: le_simps unat_of_nat)
  then show thesis using that r1 r2 by (simp add: r_lp32_def st_simps)
qed

lemma r_rest_all: "r_rest r = (Ok (remaining r), r\<lparr>r_pos := length (r_buf r)\<rparr>)"
  by (simp add: r_rest_def remaining_def)

end
