(* ===== verification/Crypto.thy ===== *)
theory Crypto
  imports Envelope
begin

text \<open>
  The operations of \<open>crates/secgit-crypto/src\<close>: \<open>primitives.rs\<close>, \<open>aead.rs\<close>, \<open>mldsa.rs\<close>, \<open>sig.rs\<close> and
  \<open>kem.rs\<close>. The cryptographic algorithms themselves are third-party code (aws-lc-rs, x25519-dalek) and
  so is the \<open>hex\<close> crate: they are the fields of the record \<open>backend\<close>, an argument \<open>B\<close> of every
  definition that calls them, and the laws the code relies on are the named predicates
  \<open>aead_law\<close>, \<open>aead_binding\<close>, \<open>sig_law\<close>, \<open>kem_law\<close>, \<open>hkdf_law\<close> and \<open>hex_law\<close>.

  An operation that draws randomness is a computation on \<open>rng\<close>, the list of the fills the system
  generator will deliver. A fill of the wrong length, or none, is a failed fill.
\<close>

section \<open>Third-party algorithms\<close>

datatype Param = MlDsa65 | MlDsa87

text \<open>An Ed25519 key pair is represented by its PKCS#8 document, an ML-DSA pair by its seed and an
  ML-KEM decapsulation key by its bytes. \<open>None\<close> is the backend's error.\<close>

record backend =
  sha256 :: "bytes \<Rightarrow> bytes"
  sha384 :: "bytes \<Rightarrow> bytes"
  hmac256 :: "bytes \<Rightarrow> bytes \<Rightarrow> bytes"
  hmac384 :: "bytes \<Rightarrow> bytes \<Rightarrow> bytes"
  aead_key_ok :: "AeadScheme \<Rightarrow> bytes \<Rightarrow> bool"
  aead_enc :: "AeadScheme \<Rightarrow> bytes \<Rightarrow> bytes \<Rightarrow> bytes \<Rightarrow> bytes \<Rightarrow> bytes option"
  aead_dec :: "AeadScheme \<Rightarrow> bytes \<Rightarrow> bytes \<Rightarrow> bytes \<Rightarrow> bytes \<Rightarrow> bytes option"
  ed_generate :: "bytes \<Rightarrow> bytes option"
  ed_public :: "bytes \<Rightarrow> bytes option"
  ed_sign :: "bytes \<Rightarrow> bytes \<Rightarrow> bytes"
  ed_verify :: "bytes \<Rightarrow> bytes \<Rightarrow> bytes \<Rightarrow> bool"
  mldsa_public :: "Param \<Rightarrow> bytes \<Rightarrow> bytes option"
  mldsa_raw_sign :: "Param \<Rightarrow> bytes \<Rightarrow> bytes \<Rightarrow> bytes option"
  mldsa_raw_verify :: "Param \<Rightarrow> bytes \<Rightarrow> bytes \<Rightarrow> bytes \<Rightarrow> bool"
  x25519_public :: "bytes \<Rightarrow> bytes"
  x25519_dh :: "bytes \<Rightarrow> bytes \<Rightarrow> bytes"
  mlkem_generate :: "bytes \<Rightarrow> bytes option"
  mlkem_ek_bytes :: "bytes \<Rightarrow> bytes option"
  mlkem_ek_ok :: "bytes \<Rightarrow> bool"
  mlkem_encap :: "bytes \<Rightarrow> bytes \<Rightarrow> (bytes \<times> bytes) option"
  mlkem_decap :: "bytes \<Rightarrow> bytes \<Rightarrow> bytes option"
  hex_encode :: "bytes \<Rightarrow> string"
  hex_decode :: "string \<Rightarrow> bytes option"

definition hex_law :: "backend \<Rightarrow> bool" where
  "hex_law B \<longleftrightarrow> (\<forall>b. hex_decode B (hex_encode B b) = Some b
     \<and> set (hex_encode B b) \<subseteq> set ''0123456789abcdef''
     \<and> length (hex_encode B b) = 2 * length b)"

text \<open>Decryption inverts encryption under the same key, nonce and associated data.\<close>

definition aead_law :: "backend \<Rightarrow> bool" where
  "aead_law B \<longleftrightarrow> (\<forall>s k n a p. length k = 32 \<longrightarrow> length n = 12 \<longrightarrow>
     aead_key_ok B s k
     \<and> (\<forall>c. aead_enc B s k n a p = Some c \<longrightarrow> aead_dec B s k n a c = Some p))"

text \<open>Authenticity: a ciphertext opens only under the key and the associated data it was made with.\<close>

definition aead_binding :: "backend \<Rightarrow> bool" where
  "aead_binding B \<longleftrightarrow> (\<forall>s k n a p c k' a' p'. aead_enc B s k n a p = Some c \<longrightarrow>
     aead_dec B s k' n a' c = Some p' \<longrightarrow> k' = k \<and> a' = a \<and> p' = p)"

definition sig_law :: "backend \<Rightarrow> bool" where
  "sig_law B \<longleftrightarrow>
     (\<forall>k pub m. ed_public B k = Some pub \<longrightarrow> ed_verify B pub m (ed_sign B k m)
        \<and> length (ed_sign B k m) = 64)
   \<and> (\<forall>q seed pub m sig. mldsa_public B q seed = Some pub \<longrightarrow> mldsa_raw_sign B q seed m = Some sig \<longrightarrow>
        mldsa_raw_verify B q pub m sig \<and> length sig < 2 ^ 32)"

definition kem_law :: "backend \<Rightarrow> bool" where
  "kem_law B \<longleftrightarrow>
     (\<forall>s t. length s = 32 \<longrightarrow> length t = 32 \<longrightarrow> x25519_dh B s (x25519_public B t) = x25519_dh B t (x25519_public B s))
   \<and> (\<forall>s. length (x25519_public B s) = 32)
   \<and> (\<forall>dk ek coins ct ss. mlkem_ek_bytes B dk = Some ek \<longrightarrow> mlkem_encap B ek coins = Some (ct, ss) \<longrightarrow>
        mlkem_decap B dk ct = Some ss \<and> length ct < 2 ^ 32)"

definition hkdf_law :: "backend \<Rightarrow> bool" where
  "hkdf_law B \<longleftrightarrow> (\<forall>k d. length (hmac384 B k d) = 48)"

section \<open>primitives.rs\<close>

type_synonym rng = "bytes list"

definition random_bytes :: "nat \<Rightarrow> (rng, CryptoError, bytes) st" where
  "random_bytes n rs =
    (case rs of [] \<Rightarrow> (Err Backend, [])
     | b # rs' \<Rightarrow> (if length b = n then Ok b else Err Backend, rs'))"

text \<open>The randomness a backend call draws for itself.\<close>

definition draw_coins :: "(rng, CryptoError, bytes) st" where
  "draw_coins rs = (case rs of [] \<Rightarrow> (Err Backend, []) | b # rs' \<Rightarrow> (Ok b, rs'))"

lemma random_bytes_Ok:
  "random_bytes n rs = (Ok b, rs') \<longleftrightarrow> rs = b # rs' \<and> length b = n"
  by (auto simp: random_bytes_def split: list.splits if_splits)

lemma random_bytes_Cons [simp]:
  "length b = n \<Longrightarrow> random_bytes n (b # rs) = (Ok b, rs)"
  by (simp add: random_bytes_def)

lemma draw_coins_simps [simp]: "draw_coins (b # rs) = (Ok b, rs)"
  "draw_coins rs = (Ok b, rs') \<longleftrightarrow> rs = b # rs'"
  by (auto simp: draw_coins_def split: list.splits)

function hkdf_loop :: "(bytes \<Rightarrow> bytes) \<Rightarrow> bytes \<Rightarrow> nat \<Rightarrow> bytes \<Rightarrow> bytes \<Rightarrow> byte
    \<Rightarrow> (CryptoError, bytes) result" where
  "hkdf_loop sign info out_len out prev counter =
    (if length out < out_len then
       let prev' = sign (prev @ info @ [counter]); out' = out @ prev' in
       if counter = 255 then Err Backend
       else hkdf_loop sign info out_len out' prev' (counter + 1)
     else Ok out)"
  by pat_completeness auto
termination
proof (relation "measure (\<lambda>(sign, info, out_len, out, prev, counter). 256 - unat counter)")
  fix sign :: "bytes \<Rightarrow> bytes" and info out prev x xa :: bytes and out_len :: nat and counter :: byte
  assume "counter \<noteq> 255"
  then have "unat (counter + 1) = Suc (unat counter)" by (rule unat_byte_Suc)
  moreover have "unat counter < 2 ^ LENGTH(8)" by (rule unsigned_less)
  ultimately show "((sign, info, out_len, xa, x, counter + 1), sign, info, out_len, out, prev, counter)
      \<in> measure (\<lambda>(sign, info, out_len, out, prev, counter). 256 - unat counter)"
    by simp
qed simp

declare hkdf_loop.simps [simp del]

definition hkdf_sha384 ::
  "backend \<Rightarrow> bytes \<Rightarrow> bytes \<Rightarrow> bytes \<Rightarrow> nat \<Rightarrow> (CryptoError, bytes) result" where
  "hkdf_sha384 B ikm salt info out_len =
    (let prk = hmac384 B salt ikm in
     rbind (hkdf_loop (hmac384 B prk) info out_len [] [] 1) (\<lambda>out. Ok (take out_len out)))"

primrec ct_diff :: "bytes \<Rightarrow> bytes \<Rightarrow> byte \<Rightarrow> byte" where
  "ct_diff [] b diff = diff"
| "ct_diff (x # a) b diff = (case b of [] \<Rightarrow> diff | y # b' \<Rightarrow> ct_diff a b' (diff OR (x XOR y)))"

definition ct_eq :: "bytes \<Rightarrow> bytes \<Rightarrow> bool" where
  "ct_eq a b = (if length a \<noteq> length b then False else ct_diff a b 0 = 0)"

text \<open>RFC 5869: the blocks \<open>T(1), T(2), ...\<close> of HKDF-Expand.\<close>

primrec hkdf_T :: "(bytes \<Rightarrow> bytes) \<Rightarrow> bytes \<Rightarrow> nat \<Rightarrow> bytes" where
  "hkdf_T sign info 0 = []"
| "hkdf_T sign info (Suc i) = sign (hkdf_T sign info i @ info @ [word_of_nat (Suc i)])"

definition hkdf_blocks :: "(bytes \<Rightarrow> bytes) \<Rightarrow> bytes \<Rightarrow> nat \<Rightarrow> bytes" where
  "hkdf_blocks sign info n = concat (map (\<lambda>i. hkdf_T sign info (Suc i)) [0..<n])"

lemma hkdf_blocks_Suc: "hkdf_blocks sign info (Suc n) = hkdf_blocks sign info n @ hkdf_T sign info (Suc n)"
  by (simp add: hkdf_blocks_def)

lemma length_hkdf_blocks:
  "(\<And>d. length (sign d) = 48) \<Longrightarrow> length (hkdf_blocks sign info n) = 48 * n"
  by (induction n) (simp_all add: hkdf_blocks_Suc, simp add: hkdf_blocks_def)

lemma hkdf_loop_blocks:
  assumes sign: "\<And>d. length (sign d) = 48"
  shows "i \<le> 254 \<Longrightarrow>
    hkdf_loop sign info out_len (hkdf_blocks sign info i) (hkdf_T sign info i) (word_of_nat (Suc i)) =
      (if out_len \<le> 48 * 254 then Ok (hkdf_blocks sign info (max i ((out_len + 47) div 48)))
       else Err Backend)"
proof (induction "254 - i" arbitrary: i)
  case 0
  then have i: "i = 254" by simp
  have "(out_len + 47) div 48 \<le> 254" if "out_len \<le> 12192" using that by linarith
  then show ?case
    by (subst hkdf_loop.simps)
      (simp add: i length_hkdf_blocks [OF sign] max_absorb1 Let_def)
next
  case (Suc k)
  then have i: "i < 254" by simp
  have IH: "hkdf_loop sign info out_len (hkdf_blocks sign info (Suc i)) (hkdf_T sign info (Suc i))
      (word_of_nat (Suc (Suc i))) =
      (if out_len \<le> 48 * 254 then Ok (hkdf_blocks sign info (max (Suc i) ((out_len + 47) div 48)))
       else Err Backend)"
    using Suc i by (intro Suc.hyps(1)) auto
  have ne: "(word_of_nat (Suc i) :: byte) \<noteq> 255"
  proof
    assume "(word_of_nat (Suc i) :: byte) = 255"
    then have "unat (word_of_nat (Suc i) :: byte) = 255" by simp
    then show False using i by (simp only: unat_of_nat) simp
  qed
  have len: "length (hkdf_blocks sign info i) = 48 * i" by (rule length_hkdf_blocks [OF sign])
  show ?case
  proof (cases "48 * i < out_len")
    case True
    have m: "max i ((out_len + 47) div 48) = max (Suc i) ((out_len + 47) div 48)"
      using True by (simp add: max_def) linarith
    have "hkdf_loop sign info out_len (hkdf_blocks sign info i) (hkdf_T sign info i) (word_of_nat (Suc i))
        = hkdf_loop sign info out_len (hkdf_blocks sign info (Suc i)) (hkdf_T sign info (Suc i))
          (word_of_nat (Suc (Suc i)))"
      using True ne len
      by (subst hkdf_loop.simps) (simp add: Let_def hkdf_blocks_Suc add.commute)
    then show ?thesis using IH m by simp
  next
    case False
    then have "(out_len + 47) div 48 \<le> i" by linarith
    with False show ?thesis using i len by (subst hkdf_loop.simps) (simp add: max_def)
  qed
qed

lemma hkdf_sha384_spec:
  assumes "hkdf_law B"
  shows "hkdf_sha384 B ikm salt info out_len =
    (if out_len \<le> 48 * 254
     then Ok (take out_len (hkdf_blocks (hmac384 B (hmac384 B salt ikm)) info ((out_len + 47) div 48)))
     else Err Backend)"
proof -
  have "\<And>d. length (hmac384 B (hmac384 B salt ikm) d) = 48" using assms by (simp add: hkdf_law_def)
  from hkdf_loop_blocks [OF this, where i = 0 and info = info and out_len = out_len] show ?thesis
    by (simp add: hkdf_sha384_def hkdf_blocks_def Let_def)
qed

lemma length_hkdf_sha384:
  assumes "hkdf_law B" "hkdf_sha384 B ikm salt info out_len = Ok out"
  shows "length out = out_len"
proof -
  have "\<And>d. length (hmac384 B (hmac384 B salt ikm) d) = 48" using assms by (simp add: hkdf_law_def)
  from length_hkdf_blocks [OF this] show ?thesis
    using assms by (auto simp: hkdf_sha384_spec min_def split: if_splits)
qed

lemma xor_eq_0: "(a :: byte) XOR b = 0 \<longleftrightarrow> a = b"
proof
  assume "a XOR b = 0"
  then have "(a XOR b) XOR b = b" by simp
  then show "a = b" by (simp only: xor.assoc xor_self_eq xor.right_neutral)
qed simp

lemma ct_diff_0: "length a = length b \<Longrightarrow> ct_diff a b d = 0 \<longleftrightarrow> d = 0 \<and> a = b"
  by (induction a b arbitrary: d rule: list_induct2) (simp_all add: or_eq_0_iff xor_eq_0)

section \<open>aead.rs\<close>

type_synonym SymKey = bytes

definition VERSION :: byte where "VERSION = 1"
definition NONCE_LEN :: nat where "NONCE_LEN = 12"

definition symkey_generate :: "(rng, CryptoError, SymKey) st" where
  "symkey_generate = random_bytes 32"

definition unbound :: "backend \<Rightarrow> AeadScheme \<Rightarrow> SymKey \<Rightarrow> (CryptoError, SymKey) result" where
  "unbound B sch key =
    (if aead_key_ok B sch key then Ok key else Err (KeyErr ''bad aead key length''))"

definition aead_seal ::
  "backend \<Rightarrow> AeadScheme \<Rightarrow> SymKey \<Rightarrow> bytes \<Rightarrow> bytes \<Rightarrow> (rng, CryptoError, bytes) st" where
  "aead_seal B sch key aad plaintext =
    sbind (slift (unbound B sch key)) (\<lambda>k.
    sbind (random_bytes NONCE_LEN) (\<lambda>nonce.
    sbind (slift (ok_or Backend (aead_enc B sch k nonce aad plaintext))) (\<lambda>in_out.
    sret (encode (envelope_new Aead (aead_as_u16 sch) VERSION (w_bytes in_out (w_bytes nonce [])))))))"

definition aead_open :: "backend \<Rightarrow> SymKey \<Rightarrow> bytes \<Rightarrow> bytes \<Rightarrow> (CryptoError, bytes) result" where
  "aead_open B key aad envelope_bytes =
    rbind (decode envelope_bytes) (\<lambda>env.
    if env_kind env \<noteq> Aead then Err (Malformed ''not an aead envelope'')
    else if env_version env \<noteq> VERSION then Err (UnknownVersion (env_version env))
    else rbind (aead_from_u16 (env_scheme env)) (\<lambda>sch.
    rbind (unbound B sch key) (\<lambda>k.
    fst (sbind (r_take NONCE_LEN) (\<lambda>nonce.
         sbind r_rest (\<lambda>in_out.
         slift (ok_or AuthFailed (aead_dec B sch k nonce aad in_out))))
      (reader_new (env_body env))))))"

definition DEK_WRAP_AAD :: bytes where "DEK_WRAP_AAD = as_bytes ''secgit/dek-wrap/v1''"

definition wrap_key :: "backend \<Rightarrow> AeadScheme \<Rightarrow> SymKey \<Rightarrow> SymKey \<Rightarrow> (rng, CryptoError, bytes) st" where
  "wrap_key B sch kek dek = aead_seal B sch kek DEK_WRAP_AAD dek"

definition unwrap_key :: "backend \<Rightarrow> SymKey \<Rightarrow> bytes \<Rightarrow> (CryptoError, SymKey) result" where
  "unwrap_key B kek wrapped =
    rbind (aead_open B kek DEK_WRAP_AAD wrapped) (\<lambda>pt.
    if length pt \<noteq> 32 then Err (KeyErr ''unwrapped key wrong length'') else Ok pt)"

text \<open>A successful \<open>aead_seal\<close> drew a nonce and framed the backend's ciphertext; \<open>aead_open\<close> reads the
  frame back.\<close>

lemma aead_seal_Ok:
  assumes "aead_seal B sch key aad pt rs = (Ok ct, rs')"
  obtains nonce c where "rs = nonce # rs'" "length nonce = 12" "aead_key_ok B sch key"
    "aead_enc B sch key nonce aad pt = Some c"
    "ct = encode (envelope_new Aead (aead_as_u16 sch) VERSION (nonce @ c))"
  using assms
  by (auto simp: aead_seal_def unbound_def random_bytes_Ok NONCE_LEN_def w_bytes_def sbind_eq_Ok
      split: if_splits)

lemma aead_open_frame:
  assumes "length nonce = 12"
  shows "aead_open B key aad (encode (envelope_new Aead (aead_as_u16 sch) VERSION (nonce @ c))) =
    (if aead_key_ok B sch key then ok_or AuthFailed (aead_dec B sch key nonce aad c)
     else Err (KeyErr ''bad aead key length''))"
proof -
  obtain r' where r: "r_take NONCE_LEN (reader_new (nonce @ c)) = (Ok nonce, r')"
    "remaining r' = c"
    using r_take_append [of "reader_new (nonce @ c)" nonce c NONCE_LEN] assms
    by (auto simp: NONCE_LEN_def)
  show ?thesis
    by (simp add: aead_open_def decode_encode_lib envelope_new_def unbound_def sbind_def r
        r_rest_all)
qed

lemma aead_open_seal:
  assumes "aead_law B" "length key = 32" "aead_seal B sch key aad pt rs = (Ok ct, rs')"
  shows "aead_open B key aad ct = Ok pt"
  using assms(3)
proof (rule aead_seal_Ok)
  fix nonce c
  assume a: "length nonce = 12" "aead_key_ok B sch key" "aead_enc B sch key nonce aad pt = Some c"
    "ct = encode (envelope_new Aead (aead_as_u16 sch) VERSION (nonce @ c))"
  then have "aead_dec B sch key nonce aad c = Some pt" using assms(1,2) unfolding aead_law_def by blast
  with a show ?thesis by (simp add: aead_open_frame)
qed

lemma aead_open_seal_binds:
  assumes "aead_binding B" "aead_seal B sch key aad pt rs = (Ok ct, rs')"
    and "aead_open B key' aad' ct = Ok pt'"
  shows "key' = key \<and> aad' = aad \<and> pt' = pt"
  using assms(2)
proof (rule aead_seal_Ok)
  fix nonce c
  assume a: "length nonce = 12" "aead_enc B sch key nonce aad pt = Some c"
    "ct = encode (envelope_new Aead (aead_as_u16 sch) VERSION (nonce @ c))"
  then have "aead_dec B sch key' nonce aad' c = Some pt'"
    using assms(3) by (auto simp: aead_open_frame split: if_splits)
  with a(2) show ?thesis using assms(1) unfolding aead_binding_def by blast
qed

lemma unwrap_wrap_key:
  assumes "aead_law B" "length kek = 32" "length dek = 32"
    and "wrap_key B sch kek dek rs = (Ok w, rs')"
  shows "unwrap_key B kek w = Ok dek"
  using aead_open_seal [OF assms(1,2) assms(4) [unfolded wrap_key_def]] assms(3)
  by (simp add: unwrap_key_def)

lemma unwrap_key_len: "unwrap_key B kek w = Ok dek \<Longrightarrow> length dek = 32"
  by (auto simp: unwrap_key_def split: if_splits)

section \<open>mldsa.rs and sig.rs\<close>

record MlDsaKey =
  ml_param :: Param
  ml_seed :: bytes
  ml_public :: bytes

definition mldsa_from_seed :: "backend \<Rightarrow> Param \<Rightarrow> bytes \<Rightarrow> (CryptoError, MlDsaKey) result" where
  "mldsa_from_seed B param seed =
    rbind (ok_or Backend (mldsa_public B param seed)) (\<lambda>public.
    Ok \<lparr>ml_param = param, ml_seed = seed, ml_public = public\<rparr>)"

definition mldsa_generate :: "backend \<Rightarrow> Param \<Rightarrow> (rng, CryptoError, MlDsaKey) st" where
  "mldsa_generate B param =
    sbind (random_bytes 32) (\<lambda>seed. slift (mldsa_from_seed B param seed))"

definition mldsa_sign :: "backend \<Rightarrow> MlDsaKey \<Rightarrow> bytes \<Rightarrow> (CryptoError, bytes) result" where
  "mldsa_sign B k msg = ok_or Backend (mldsa_raw_sign B (ml_param k) (ml_seed k) msg)"

definition mldsa_verify :: "backend \<Rightarrow> Param \<Rightarrow> bytes \<Rightarrow> bytes \<Rightarrow> bytes \<Rightarrow> bool" where
  "mldsa_verify B param public msg sig = mldsa_raw_verify B param public msg sig"

fun param_for :: "SigScheme \<Rightarrow> Param" where
  "param_for Ed25519MlDsa65 = MlDsa65"
| "param_for Ed25519MlDsa87 = MlDsa87"

record SigningKey =
  sk_scheme :: SigScheme
  sk_ed :: bytes
  sk_ed_pub :: bytes
  sk_mldsa :: MlDsaKey

record SigningKeyBundle =
  bun_scheme :: u16
  bun_ed25519_pkcs8_hex :: string
  bun_mldsa_seed_hex :: string

record VerifyingKey =
  vk_scheme :: u16
  vk_ed25519_pub :: bytes
  vk_mldsa_pub :: bytes

definition generate_with_bundle ::
  "backend \<Rightarrow> SigScheme \<Rightarrow> (rng, CryptoError, SigningKey \<times> SigningKeyBundle) st" where
  "generate_with_bundle B sch =
    sbind draw_coins (\<lambda>coins.
    sbind (slift (ok_or Backend (ed_generate B coins))) (\<lambda>pkcs8.
    sbind (slift (ok_or Backend (ed_public B pkcs8))) (\<lambda>ed_pub.
    sbind (mldsa_generate B (param_for sch)) (\<lambda>mldsa.
    sret (\<lparr>sk_scheme = sch, sk_ed = pkcs8, sk_ed_pub = ed_pub, sk_mldsa = mldsa\<rparr>,
      \<lparr>bun_scheme = sig_as_u16 sch, bun_ed25519_pkcs8_hex = hex_encode B pkcs8,
       bun_mldsa_seed_hex = hex_encode B (ml_seed mldsa)\<rparr>)))))"

definition from_bundle :: "backend \<Rightarrow> SigningKeyBundle \<Rightarrow> (CryptoError, SigningKey) result" where
  "from_bundle B bundle =
    rbind (sig_from_u16 (bun_scheme bundle)) (\<lambda>sch.
    rbind (ok_or (KeyErr ''bad pkcs8 hex'') (hex_decode B (bun_ed25519_pkcs8_hex bundle))) (\<lambda>pkcs8.
    rbind (ok_or Backend (ed_public B pkcs8)) (\<lambda>ed_pub.
    rbind (ok_or (KeyErr ''bad mldsa seed hex'') (hex_decode B (bun_mldsa_seed_hex bundle))) (\<lambda>seed.
    rbind (mldsa_from_seed B (param_for sch) seed) (\<lambda>mldsa.
    Ok \<lparr>sk_scheme = sch, sk_ed = pkcs8, sk_ed_pub = ed_pub, sk_mldsa = mldsa\<rparr>)))))"

definition verifying_key :: "SigningKey \<Rightarrow> VerifyingKey" where
  "verifying_key sk = \<lparr>vk_scheme = sig_as_u16 (sk_scheme sk), vk_ed25519_pub = sk_ed_pub sk,
    vk_mldsa_pub = ml_public (sk_mldsa sk)\<rparr>"

definition sig_sign :: "backend \<Rightarrow> SigningKey \<Rightarrow> bytes \<Rightarrow> (CryptoError, bytes) result" where
  "sig_sign B sk msg =
    (let ed_sig = ed_sign B (sk_ed sk) msg in
     rbind (mldsa_sign B (sk_mldsa sk) msg) (\<lambda>mldsa_sig.
     Ok (encode (envelope_new Signature (sig_as_u16 (sk_scheme sk)) VERSION
       (w_lp32 mldsa_sig (w_lp32 ed_sig []))))))"

definition sig_verify :: "backend \<Rightarrow> VerifyingKey \<Rightarrow> bytes \<Rightarrow> bytes \<Rightarrow> (CryptoError, unit) result" where
  "sig_verify B vk msg envelope_bytes =
    rbind (decode envelope_bytes) (\<lambda>env.
    if env_kind env \<noteq> Signature then Err (Malformed ''not a signature envelope'')
    else if env_version env \<noteq> VERSION then Err (UnknownVersion (env_version env))
    else if env_scheme env \<noteq> vk_scheme vk then Err (Malformed ''scheme mismatch with verifying key'')
    else rbind (sig_from_u16 (env_scheme env)) (\<lambda>sch.
    fst (sbind r_lp32 (\<lambda>ed_sig.
         sbind r_lp32 (\<lambda>mldsa_sig.
         if \<not> ed_verify B (vk_ed25519_pub vk) msg ed_sig then sfail BadSignature
         else if \<not> mldsa_verify B (param_for sch) (vk_mldsa_pub vk) msg mldsa_sig then sfail BadSignature
         else sret ()))
      (reader_new (env_body env)))))"

text \<open>The invariant of a signing key: its public halves belong to its private halves and its ML-DSA
  half has the parameter set of its scheme. Both constructors establish it.\<close>

definition sk_ok :: "backend \<Rightarrow> SigningKey \<Rightarrow> bool" where
  "sk_ok B sk \<longleftrightarrow> ed_public B (sk_ed sk) = Some (sk_ed_pub sk)
    \<and> ml_param (sk_mldsa sk) = param_for (sk_scheme sk)
    \<and> mldsa_public B (ml_param (sk_mldsa sk)) (ml_seed (sk_mldsa sk)) = Some (ml_public (sk_mldsa sk))"

lemma from_bundle_ok: "from_bundle B b = Ok sk \<Longrightarrow> sk_ok B sk"
  by (auto simp: from_bundle_def mldsa_from_seed_def sk_ok_def)

lemma generate_with_bundle_ok:
  "generate_with_bundle B sch rs = (Ok (sk, b), rs') \<Longrightarrow> sk_ok B sk \<and> sk_scheme sk = sch"
  by (auto simp: generate_with_bundle_def mldsa_generate_def mldsa_from_seed_def sk_ok_def sbind_eq_Ok)

lemma sig_verify_frame:
  assumes "length ed_sig < 2 ^ 32" "length mldsa_sig < 2 ^ 32"
  shows "sig_verify B vk msg (encode (envelope_new Signature (sig_as_u16 sch) VERSION
      (w_lp32 mldsa_sig (w_lp32 ed_sig [])))) =
    (if sig_as_u16 sch \<noteq> vk_scheme vk then Err (Malformed ''scheme mismatch with verifying key'')
     else if ed_verify B (vk_ed25519_pub vk) msg ed_sig
       \<and> mldsa_raw_verify B (param_for sch) (vk_mldsa_pub vk) msg mldsa_sig then Ok ()
     else Err BadSignature)"
proof -
  let ?b = "w_lp32 mldsa_sig (w_lp32 ed_sig [])"
  obtain r1 where r1: "r_lp32 (reader_new ?b) = (Ok ed_sig, r1)" "r_ok r1"
    "remaining r1 = le_bytes 4 (word_of_nat (length mldsa_sig) :: u32) @ mldsa_sig @ []"
    using r_lp32_append [of "reader_new ?b" ed_sig, OF _ _ assms(1)]
    by (simp add: w_lp32_def) blast
  obtain r2 where r2: "r_lp32 r1 = (Ok mldsa_sig, r2)"
    using r_lp32_append [OF r1(2,3) assms(2)] by blast
  note run = sig_verify_def decode_encode_lib envelope_new_def mldsa_verify_def sbind_def r1(1) r2
  show ?thesis
  proof (cases "sig_as_u16 sch = vk_scheme vk")
    case True
    then show ?thesis by (simp add: run flip: True)
  qed (simp add: run)
qed

lemma sig_verify_sign:
  assumes "sig_law B" "sk_ok B sk" "sig_sign B sk msg = Ok sig"
  shows "sig_verify B (verifying_key sk) msg sig = Ok ()"
proof -
  obtain ms where ms: "mldsa_raw_sign B (ml_param (sk_mldsa sk)) (ml_seed (sk_mldsa sk)) msg = Some ms"
    and sig: "sig = encode (envelope_new Signature (sig_as_u16 (sk_scheme sk)) VERSION
      (w_lp32 ms (w_lp32 (ed_sign B (sk_ed sk) msg) [])))"
    using assms(3) by (auto simp: sig_sign_def mldsa_sign_def Let_def)
  have "ed_verify B (sk_ed_pub sk) msg (ed_sign B (sk_ed sk) msg)"
    "length (ed_sign B (sk_ed sk) msg) < 2 ^ 32"
    using assms(1,2) by (auto simp: sig_law_def sk_ok_def)
  moreover have "mldsa_raw_verify B (param_for (sk_scheme sk)) (ml_public (sk_mldsa sk)) msg ms"
    "length ms < 2 ^ 32"
    using assms(1,2) ms by (auto simp: sig_law_def sk_ok_def)
  ultimately show ?thesis by (simp add: sig sig_verify_frame verifying_key_def)
qed

text \<open>An accepted signature decodes to an envelope of the verifying key's scheme whose body starts
  with two frames, and both halves verify.\<close>

lemma sig_verify_both:
  assumes "sig_verify B vk msg env = Ok ()"
  obtains e sch ed_sig mldsa_sig where "decode env = Ok e" "env_kind e = Signature"
    "env_scheme e = vk_scheme vk" "sig_from_u16 (vk_scheme vk) = Ok sch"
    "fst (r_lp32 (reader_new (env_body e))) = Ok ed_sig"
    "ed_verify B (vk_ed25519_pub vk) msg ed_sig"
    "mldsa_raw_verify B (param_for sch) (vk_mldsa_pub vk) msg mldsa_sig"
  using assms
  by (auto simp: sig_verify_def mldsa_verify_def fst_eq_Ok sbind_eq_Ok split: if_splits)

section \<open>kem.rs\<close>

record RecipientPublic =
  rp_x25519 :: bytes
  rp_mlkem_ek :: bytes

definition rp_to_bytes :: "RecipientPublic \<Rightarrow> bytes" where
  "rp_to_bytes rp = w_lp32 (rp_mlkem_ek rp) (w_bytes (rp_x25519 rp) [])"

definition rp_from_bytes :: "bytes \<Rightarrow> (CryptoError, RecipientPublic) result" where
  "rp_from_bytes b =
    fst (sbind (r_take 32) (\<lambda>x. sbind r_lp32 (\<lambda>ek.
      sret \<lparr>rp_x25519 = x, rp_mlkem_ek = ek\<rparr>)) (reader_new b))"

record RecipientKeypair =
  rk_x_secret :: bytes
  rk_x_public :: bytes
  rk_mlkem_dk :: bytes
  rk_mlkem_ek :: bytes

definition HKDF_INFO :: bytes where
  "HKDF_INFO = as_bytes ''secgit/hybrid-kem/x25519+mlkem768/v1''"

definition kem_generate :: "backend \<Rightarrow> (rng, CryptoError, RecipientKeypair) st" where
  "kem_generate B =
    sbind (random_bytes 32) (\<lambda>seed.
    sbind draw_coins (\<lambda>coins.
    sbind (slift (ok_or Backend (mlkem_generate B coins))) (\<lambda>dk.
    sbind (slift (ok_or Backend (mlkem_ek_bytes B dk))) (\<lambda>ek.
    sret \<lparr>rk_x_secret = seed, rk_x_public = x25519_public B seed, rk_mlkem_dk = dk,
          rk_mlkem_ek = ek\<rparr>))))"

definition kem_public :: "RecipientKeypair \<Rightarrow> RecipientPublic" where
  "kem_public rk = \<lparr>rp_x25519 = rk_x_public rk, rp_mlkem_ek = rk_mlkem_ek rk\<rparr>"

definition combine :: "backend \<Rightarrow> bytes \<Rightarrow> bytes \<Rightarrow> (CryptoError, bytes) result" where
  "combine B x_ss mlkem_ss =
    hkdf_sha384 B (x_ss @ mlkem_ss) (as_bytes ''secgit-hybrid-kem-salt'') HKDF_INFO 32"

definition kem_aead_key :: "backend \<Rightarrow> bytes \<Rightarrow> (CryptoError, bytes) result" where
  "kem_aead_key B key = (if aead_key_ok B Aes256Gcm key then Ok key else Err (KeyErr ''aead''))"

definition kem_open :: "backend \<Rightarrow> RecipientKeypair \<Rightarrow> bytes \<Rightarrow> (CryptoError, bytes) result" where
  "kem_open B rk envelope_bytes =
    rbind (decode envelope_bytes) (\<lambda>env.
    if env_kind env \<noteq> WrappedKey then Err (Malformed ''not a wrapped-key envelope'')
    else if env_version env \<noteq> VERSION then Err (UnknownVersion (env_version env))
    else rbind (kem_from_u16 (env_scheme env)) (\<lambda>_.
    fst (sbind (r_take 32) (\<lambda>eph_pub.
         sbind r_lp32 (\<lambda>mlkem_ct.
         sbind (r_take NONCE_LEN) (\<lambda>nonce.
         sbind r_rest (\<lambda>in_out.
         sbind (slift (ok_or Backend (mlkem_decap B (rk_mlkem_dk rk) mlkem_ct))) (\<lambda>mlkem_ss.
         sbind (slift (combine B (x25519_dh B (rk_x_secret rk) eph_pub) mlkem_ss)) (\<lambda>aead_key.
         sbind (slift (kem_aead_key B aead_key)) (\<lambda>k.
         slift (ok_or AuthFailed (aead_dec B Aes256Gcm k nonce [] in_out)))))))))
      (reader_new (env_body env)))))"

definition seal_to :: "backend \<Rightarrow> RecipientPublic \<Rightarrow> bytes \<Rightarrow> (rng, CryptoError, bytes) st" where
  "seal_to B recipient secret =
    sbind (random_bytes 32) (\<lambda>seed.
    let eph_public = x25519_public B seed; x_ss = x25519_dh B seed (rp_x25519 recipient) in
    sbind (slift (if mlkem_ek_ok B (rp_mlkem_ek recipient) then Ok ()
                  else Err (KeyErr ''bad ml-kem ek''))) (\<lambda>_.
    sbind draw_coins (\<lambda>coins.
    sbind (slift (ok_or Backend (mlkem_encap B (rp_mlkem_ek recipient) coins))) (\<lambda>(mlkem_ct, mlkem_ss).
    sbind (slift (combine B x_ss mlkem_ss)) (\<lambda>aead_key.
    sbind (slift (kem_aead_key B aead_key)) (\<lambda>k.
    sbind (random_bytes NONCE_LEN) (\<lambda>nonce.
    sbind (slift (ok_or Backend (aead_enc B Aes256Gcm k nonce [] secret))) (\<lambda>in_out.
    sret (encode (envelope_new WrappedKey (kem_as_u16 X25519MlKem768) VERSION
      (w_bytes in_out (w_bytes nonce (w_lp32 mlkem_ct (w_bytes eph_public []))))))))))))))"

text \<open>The invariant of a recipient key pair, established by \<open>kem_generate\<close>.\<close>

definition rk_ok :: "backend \<Rightarrow> RecipientKeypair \<Rightarrow> bool" where
  "rk_ok B rk \<longleftrightarrow> length (rk_x_secret rk) = 32
    \<and> rk_x_public rk = x25519_public B (rk_x_secret rk)
    \<and> mlkem_ek_bytes B (rk_mlkem_dk rk) = Some (rk_mlkem_ek rk)"

lemma kem_generate_ok: "kem_generate B rs = (Ok rk, rs') \<Longrightarrow> rk_ok B rk"
  by (auto simp: kem_generate_def rk_ok_def sbind_eq_Ok random_bytes_Ok)

lemma rp_roundtrip_lib:
  assumes "length (rp_x25519 rp) = 32" "length (rp_mlkem_ek rp) < 2 ^ 32"
  shows "rp_from_bytes (rp_to_bytes rp) = Ok rp"
proof -
  let ?b = "rp_to_bytes rp"
  obtain r1 where r1: "r_take 32 (reader_new ?b) = (Ok (rp_x25519 rp), r1)" "r_ok r1"
    "remaining r1 = le_bytes 4 (word_of_nat (length (rp_mlkem_ek rp)) :: u32) @ rp_mlkem_ek rp @ []"
    using r_take_append [of "reader_new ?b" "rp_x25519 rp", OF _ _ assms(1)]
    by (simp add: rp_to_bytes_def w_lp32_def w_bytes_def) blast
  obtain r2 where r2: "r_lp32 r1 = (Ok (rp_mlkem_ek rp), r2)"
    using r_lp32_append [OF r1(2,3) assms(2)] by blast
  show ?thesis by (simp add: rp_from_bytes_def sbind_def r1(1) r2)
qed

lemma seal_to_Ok:
  assumes "seal_to B rp secret rs = (Ok env, rs')"
  obtains seed coins nonce ct ss key c where
    "rs = seed # coins # nonce # rs'" "length seed = 32" "length nonce = 12"
    "mlkem_encap B (rp_mlkem_ek rp) coins = Some (ct, ss)"
    "combine B (x25519_dh B seed (rp_x25519 rp)) ss = Ok key" "aead_key_ok B Aes256Gcm key"
    "aead_enc B Aes256Gcm key nonce [] secret = Some c"
    "env = encode (envelope_new WrappedKey 1 VERSION
       (x25519_public B seed @ le_bytes 4 (word_of_nat (length ct) :: u32) @ ct @ nonce @ c))"
  using assms
  by (auto simp: seal_to_def Let_def sbind_eq_Ok random_bytes_Ok kem_aead_key_def NONCE_LEN_def
      w_bytes_def w_lp32_def split: if_splits prod.splits)

lemma kem_open_frame:
  assumes "length eph = 32" "length ct < 2 ^ 32" "length nonce = 12"
  shows "kem_open B rk (encode (envelope_new WrappedKey 1 VERSION
      (eph @ le_bytes 4 (word_of_nat (length ct) :: u32) @ ct @ nonce @ c))) =
    rbind (ok_or Backend (mlkem_decap B (rk_mlkem_dk rk) ct)) (\<lambda>ss.
    rbind (combine B (x25519_dh B (rk_x_secret rk) eph) ss) (\<lambda>key.
    rbind (kem_aead_key B key) (\<lambda>k. ok_or AuthFailed (aead_dec B Aes256Gcm k nonce [] c))))"
proof -
  let ?b = "eph @ le_bytes 4 (word_of_nat (length ct) :: u32) @ ct @ nonce @ c"
  obtain r1 where r1: "r_take 32 (reader_new ?b) = (Ok eph, r1)" "r_ok r1"
    "remaining r1 = le_bytes 4 (word_of_nat (length ct) :: u32) @ ct @ nonce @ c"
    using r_take_append [of "reader_new ?b" eph, OF _ _ assms(1)] by auto
  obtain r2 where r2: "r_lp32 r1 = (Ok ct, r2)" "r_ok r2" "remaining r2 = nonce @ c"
    using r_lp32_append [OF r1(2,3) assms(2)] by blast
  obtain r3 where r3: "r_take NONCE_LEN r2 = (Ok nonce, r3)" "remaining r3 = c"
    using r_take_append [OF r2(2,3)] assms(3) unfolding NONCE_LEN_def by blast
  show ?thesis
    by (simp add: kem_open_def decode_encode_lib envelope_new_def kem_from_u16_def sbind_def
        r1(1) r2(1) r3 r_rest_all rbind_def split: sum.splits)
qed

lemma kem_open_seal_to:
  assumes "kem_law B" "aead_law B" "hkdf_law B" "rk_ok B rk"
    and "seal_to B (kem_public rk) secret rs = (Ok env, rs')"
  shows "kem_open B rk env = Ok secret"
  using assms(5)
proof (rule seal_to_Ok)
  fix seed coins nonce ct ss key c
  assume a: "length seed = 32" "length nonce = 12"
    "mlkem_encap B (rp_mlkem_ek (kem_public rk)) coins = Some (ct, ss)"
    "combine B (x25519_dh B seed (rp_x25519 (kem_public rk))) ss = Ok key"
    "aead_enc B Aes256Gcm key nonce [] secret = Some c"
    "env = encode (envelope_new WrappedKey 1 VERSION
       (x25519_public B seed @ le_bytes 4 (word_of_nat (length ct) :: u32) @ ct @ nonce @ c))"
  have kem: "mlkem_decap B (rk_mlkem_dk rk) ct = Some ss" "length ct < 2 ^ 32"
    "length (x25519_public B seed) = 32"
    "x25519_dh B (rk_x_secret rk) (x25519_public B seed) = x25519_dh B seed (rp_x25519 (kem_public rk))"
    using assms(1,4) a(1,3) unfolding kem_law_def rk_ok_def kem_public_def by auto
  have "length key = 32" using length_hkdf_sha384 [OF assms(3)] a(4) by (simp add: combine_def)
  then have "aead_key_ok B Aes256Gcm key" "aead_dec B Aes256Gcm key nonce [] c = Some secret"
    using assms(2) a(2,5) unfolding aead_law_def by blast+
  then show ?thesis using a kem by (simp add: kem_open_frame kem_aead_key_def)
qed

end
