(* ===== verification/Reference_Backend.thy ===== *)
theory Reference_Backend
  imports Crypto
begin

text \<open>
  A concrete backend that satisfies every law the development assumes of the third-party algorithms.
  It has no cryptographic strength; it shows that the laws hold together and makes the definitions
  run, so that a theorem with such a hypothesis can be applied to a concrete input.
\<close>

definition pad :: "nat \<Rightarrow> bytes \<Rightarrow> bytes" where
  "pad n x = take n (x @ replicate n 0)"

lemma length_pad [simp]: "length (pad n x) = n"
  by (simp add: pad_def)

lemma pad_id [simp]: "length x = n \<Longrightarrow> pad n x = x"
  by (simp add: pad_def)

definition mix :: "bytes \<Rightarrow> bytes" where
  "mix x = take 32 (rev x)"

lemma length_mix: "length (mix x) < 4294967296"
  by (rule le_less_trans [of _ 32]) (simp_all add: mix_def)

text \<open>A string behind its length in unary: such frames compose without ambiguity.\<close>

definition framed :: "bytes \<Rightarrow> bytes" where
  "framed x = replicate (length x) 1 @ [0] @ x"

lemma framed_inj: "framed x @ r = framed y @ s \<longleftrightarrow> x = y \<and> r = s"
proof
  assume "framed x @ r = framed y @ s"
  then have "replicate (length x) (1::byte) @ 0 # (x @ r) = replicate (length y) 1 @ 0 # (y @ s)"
    by (simp add: framed_def)
  then have e: "replicate (length x) (1::byte) = replicate (length y) 1" "x @ r = y @ s"
    by (subst (asm) sep_inj; auto)+
  then have "length x = length y" by (metis length_replicate)
  with e(2) show "x = y \<and> r = s" by simp
qed simp

definition frame_open :: "bytes \<Rightarrow> bytes \<Rightarrow> bytes option" where
  "frame_open pre c = (if take (length pre) c = pre then Some (drop (length pre) c) else None)"

lemma frame_open_append [simp]: "frame_open pre (pre @ p) = Some p"
  by (simp add: frame_open_def)

lemma frame_open_append2 [simp]: "frame_open (f @ g) (f @ g @ p) = Some p"
  using frame_open_append [of "f @ g" p] by simp

lemma frame_open_Some: "frame_open pre c = Some p \<Longrightarrow> c = pre @ p"
  by (auto simp: frame_open_def split: if_splits) (metis append_take_drop_id)

definition hex_digits :: string where "hex_digits = ''0123456789abcdef''"

definition hex_of :: "bytes \<Rightarrow> string" where
  "hex_of bs = concat (map (\<lambda>b. [hex_digits ! (unat b div 16), hex_digits ! (unat b mod 16)]) bs)"

definition nibble :: "char \<Rightarrow> nat option" where
  "nibble c = (let i = length (takeWhile (\<lambda>d. d \<noteq> c) hex_digits) in if i < 16 then Some i else None)"

fun unhex :: "string \<Rightarrow> bytes option" where
  "unhex [] = Some []"
| "unhex [c] = None"
| "unhex (c # d # s) =
    (case (nibble c, nibble d, unhex s) of
       (Some h, Some l, Some bs) \<Rightarrow> Some (word_of_nat (16 * h + l) # bs)
     | _ \<Rightarrow> None)"

lemma nibble_digit: "i < 16 \<Longrightarrow> nibble (hex_digits ! i) = Some i"
proof -
  have "list_all (\<lambda>i. nibble (hex_digits ! i) = Some i) [0..<16]" by code_simp
  then show "i < 16 \<Longrightarrow> nibble (hex_digits ! i) = Some i" by (simp add: list_all_iff)
qed

lemma unhex_hex_of: "unhex (hex_of bs) = Some bs"
proof (induction bs)
  case (Cons b bs)
  have "unat b < 2 ^ LENGTH(8)" by (rule unsigned_less)
  then have "nibble (hex_digits ! (unat b div 16)) = Some (unat b div 16)"
    "nibble (hex_digits ! (unat b mod 16)) = Some (unat b mod 16)"
    by (auto intro!: nibble_digit)
  moreover have "hex_of (b # bs) =
      hex_digits ! (unat b div 16) # hex_digits ! (unat b mod 16) # hex_of bs" by (simp add: hex_of_def)
  ultimately show ?case using Cons by simp
qed (simp add: hex_of_def)

lemma hex_of_digits: "set (hex_of bs) \<subseteq> set hex_digits" "length (hex_of bs) = 2 * length bs"
proof -
  have "hex_digits ! i \<in> set hex_digits" if "i < 16" for i
    using that by (intro nth_mem) (simp add: hex_digits_def)
  moreover have "unat b div 16 < 16" "unat b mod 16 < 16" for b :: byte
    using unsigned_less [of b, where ?'a = nat] by auto
  ultimately show "set (hex_of bs) \<subseteq> set hex_digits" by (induction bs) (auto simp: hex_of_def)
  show "length (hex_of bs) = 2 * length bs" by (induction bs) (auto simp: hex_of_def)
qed

definition ref_ek_bytes :: "bytes \<Rightarrow> bytes option" where
  "ref_ek_bytes dk = (if length dk < 2 ^ 32 then Some dk else None)"

definition ref_backend :: backend where
  "ref_backend = \<lparr>
     sha256 = (\<lambda>x. pad 32 (mix x)), sha384 = (\<lambda>x. pad 48 (mix x)),
     hmac256 = (\<lambda>k d. pad 32 (mix (k @ d))), hmac384 = (\<lambda>k d. pad 48 (mix (k @ d))),
     aead_key_ok = (\<lambda>s k. length k = 32),
     aead_enc = (\<lambda>s k n a p. Some ((framed k @ framed a) @ p)),
     aead_dec = (\<lambda>s k n a c. frame_open (framed k @ framed a) c),
     ed_generate = (\<lambda>coins. Some coins), ed_public = (\<lambda>k. Some k),
     ed_sign = (\<lambda>k m. pad 64 (mix (k @ m))), ed_verify = (\<lambda>k m s. s = pad 64 (mix (k @ m))),
     mldsa_public = (\<lambda>q k. Some k), mldsa_raw_sign = (\<lambda>q k m. Some (mix (k @ m))),
     mldsa_raw_verify = (\<lambda>q k m s. s = mix (k @ m)),
     x25519_public = (\<lambda>s. pad 32 s), x25519_dh = (\<lambda>s p. map2 (XOR) (pad 32 s) (pad 32 p)),
     mlkem_generate = (\<lambda>coins. Some coins), mlkem_ek_bytes = ref_ek_bytes, mlkem_ek_ok = (\<lambda>ek. True),
     mlkem_encap = (\<lambda>ek coins. Some (pad 32 coins, ek @ pad 32 coins)),
     mlkem_decap = (\<lambda>dk ct. Some (dk @ ct)),
     hex_encode = hex_of, hex_decode = unhex\<rparr>"

lemma ref_selectors:
  "aead_key_ok ref_backend sch k \<longleftrightarrow> length k = 32"
  "aead_enc ref_backend sch k n a p = Some ((framed k @ framed a) @ p)"
  "mlkem_ek_ok ref_backend ek"
  "mlkem_encap ref_backend ek coins = Some (pad 32 coins, ek @ pad 32 coins)"
  "mldsa_raw_sign ref_backend q k m = Some (mix (k @ m))"
  "sha256 ref_backend x = pad 32 (mix x)"
  by (simp_all add: ref_backend_def)

lemma ref_hex_law: "hex_law ref_backend"
  using hex_of_digits by (simp add: hex_law_def ref_backend_def unhex_hex_of hex_digits_def)

lemma ref_aead_law: "aead_law ref_backend"
  by (simp add: aead_law_def ref_backend_def)

lemma ref_aead_binding: "aead_binding ref_backend"
  unfolding aead_binding_def ref_backend_def
  by (auto dest!: frame_open_Some simp: framed_inj)

lemma ref_sig_law: "sig_law ref_backend"
  by (simp add: sig_law_def ref_backend_def length_mix)

lemma ref_kem_law: "kem_law ref_backend"
proof -
  have "map2 (XOR) xs ys = map2 (XOR) ys (xs :: bytes)" for xs ys
    by (induction xs ys rule: list_induct2') (auto simp: xor.commute)
  then show ?thesis by (simp add: kem_law_def ref_backend_def ref_ek_bytes_def)
qed

lemma ref_hkdf_law: "hkdf_law ref_backend"
  by (simp add: hkdf_law_def ref_backend_def)

lemma ref_sha256_len: "length (sha256 ref_backend x) = 32"
  by (simp add: ref_backend_def)

lemmas ref_laws = ref_hex_law ref_aead_law ref_aead_binding ref_sig_law ref_kem_law ref_hkdf_law

end
