(* ===== verification/Audit_Log.thy ===== *)
theory Audit_Log
  imports Merkle_Consistency Reference_Backend
begin

text \<open>
  The transparency log of \<open>crates/secgit-audit/src/lib.rs\<close>: entries chained by their hashes, a Merkle
  tree over the entry hashes, sealed or plain records in a file of lines, and signed checkpoints.

  The log's file is a string (\<open>None\<close> when there is no file), passed to and returned by the operations that
  read and extend it, as are the clock, the system generator and the outcome of the file system's calls.
  serde_json is a
  parameter: \<open>ev_json\<close> serialises an event, \<open>en_json\<close> an entry and \<open>en_parse\<close> reads an entry back.
  The codec of the \<open>hex32\<close> fields is inside \<open>en_json\<close>/\<open>en_parse\<close>.
\<close>

section \<open>Data\<close>

datatype AuditError = Io | Serde | Crypto CryptoError | Integrity string

datatype AuditEvent =
    RepoCreated string string
  | RefUpdated string string string string string
  | KeyReleased string string
  | KeyRotated string
  | AccessDenied string string string
  | Admin string string

record LogEntry =
  le_seq :: u64
  le_timestamp :: u64
  le_prev_hash :: hash
  le_event :: AuditEvent
  le_entry_hash :: hash

record audit_json =
  ev_json :: "AuditEvent \<Rightarrow> bytes option"
  en_json :: "LogEntry \<Rightarrow> bytes option"
  en_parse :: "bytes \<Rightarrow> LogEntry option"

text \<open>serde_json reads back what it wrote, and its compact output is one line of text that starts with
  a brace.\<close>

definition audit_json_law :: "audit_json \<Rightarrow> bool" where
  "audit_json_law J \<longleftrightarrow>
     (\<forall>e b. en_json J e = Some b \<longrightarrow> en_parse J b = Some e \<and> is_line (of_bytes b)
        \<and> (\<exists>t. of_bytes b = CHR ''{'' # t))"

record Checkpoint =
  cp_log_id :: string
  cp_tree_size :: u64
  cp_root_hash :: hash
  cp_timestamp :: u64
  cp_signature_hex :: string

record TransparencyLog =
  tl_log_id :: string
  tl_entries :: "LogEntry list"
  tl_leaves :: "hash list"
  tl_signer :: SigningKey
  tl_at_rest :: "SymKey option"

text \<open>How the next append to the file goes: it may fail to open, after some bytes, or at the sync.\<close>

datatype append_io = OpenFails | WriteFails nat | SyncFails | AppendOk

section \<open>Entry hashes and checkpoints\<close>

definition zero_hash :: hash where "zero_hash = replicate 32 0"

definition compute_entry_hash :: "backend \<Rightarrow> u64 \<Rightarrow> u64 \<Rightarrow> hash \<Rightarrow> bytes \<Rightarrow> hash" where
  "compute_entry_hash B seq ts prev event_json =
    sha256 B (as_bytes ''secgit/audit/entry/v1'' @ [0] @ le_bytes 8 seq @ le_bytes 8 ts @ prev
      @ event_json)"

definition signed_bytes :: "string \<Rightarrow> u64 \<Rightarrow> hash \<Rightarrow> u64 \<Rightarrow> bytes" where
  "signed_bytes log_id tree_size root_h ts =
    as_bytes ''secgit/audit/checkpoint/v1'' @ [0] @ as_bytes log_id @ [0] @ le_bytes 8 tree_size
      @ root_h @ le_bytes 8 ts"

definition checkpoint_verify :: "backend \<Rightarrow> Checkpoint \<Rightarrow> VerifyingKey \<Rightarrow> (AuditError, unit) result" where
  "checkpoint_verify B cp vk =
    (let bs = signed_bytes (cp_log_id cp) (cp_tree_size cp) (cp_root_hash cp) (cp_timestamp cp) in
     rbind (ok_or (Integrity ''bad checkpoint signature hex'') (hex_decode B (cp_signature_hex cp))) (\<lambda>sig.
     map_err Crypto (sig_verify B vk bs sig)))"

section \<open>The log\<close>

definition record_aad :: "TransparencyLog \<Rightarrow> u64 \<Rightarrow> bytes" where
  "record_aad lg seq =
    as_bytes ''secgit/audit-record/v1'' @ [0] @ as_bytes (tl_log_id lg) @ [0] @ le_bytes 8 seq"

definition decode_record ::
  "backend \<Rightarrow> TransparencyLog \<Rightarrow> u64 \<Rightarrow> string \<Rightarrow> (AuditError, bytes) result" where
  "decode_record B lg seq line =
    (case tl_at_rest lg of
       None \<Rightarrow> Ok (as_bytes line)
     | Some key \<Rightarrow>
       rbind (ok_or (Integrity ''audit record not valid hex'') (hex_decode B (trim line))) (\<lambda>ct.
       map_err Crypto (aead_open B key (record_aad lg seq) ct)))"

text \<open>\<open>from_utf8_lossy\<close> is the identity on the valid UTF-8 that serde_json writes.\<close>

definition encode_record ::
  "backend \<Rightarrow> TransparencyLog \<Rightarrow> u64 \<Rightarrow> bytes \<Rightarrow> (rng, AuditError, string) st" where
  "encode_record B lg seq json =
    (case tl_at_rest lg of
       None \<Rightarrow> sret (of_bytes json)
     | Some key \<Rightarrow>
       sbind (smap_err Crypto (aead_seal B DEFAULT_AEAD key (record_aad lg seq) json)) (\<lambda>ct.
       sret (hex_encode B ct)))"

text \<open>One iteration of the loop of \<open>load\<close> at line index \<open>i\<close>, and the loop. The state of the loop is
  the log and the hash of the previous entry.\<close>

definition load_line ::
  "backend \<Rightarrow> audit_json \<Rightarrow> nat \<Rightarrow> string \<Rightarrow> TransparencyLog \<times> hash
    \<Rightarrow> (AuditError, TransparencyLog \<times> hash) result" where
  "load_line B J i line = (\<lambda>(lg, prev).
    if trim line = [] then Ok (lg, prev)
    else rbind (decode_record B lg (word_of_nat i) line) (\<lambda>json.
    rbind (ok_or Serde (en_parse J json)) (\<lambda>entry.
    if le_seq entry \<noteq> word_of_nat i then Err (Integrity ''sequence gap'')
    else if le_prev_hash entry \<noteq> prev then Err (Integrity ''broken hash chain'')
    else rbind (ok_or Serde (ev_json J (le_event entry))) (\<lambda>event_json.
    if compute_entry_hash B (le_seq entry) (le_timestamp entry) (le_prev_hash entry) event_json
         \<noteq> le_entry_hash entry
    then Err (Integrity ''entry hash mismatch'')
    else Ok (lg\<lparr>tl_leaves := tl_leaves lg @ [leaf_hash (sha256 B) (le_entry_hash entry)],
                tl_entries := tl_entries lg @ [entry]\<rparr>, le_entry_hash entry)))))"

primrec load_loop ::
  "backend \<Rightarrow> audit_json \<Rightarrow> nat \<Rightarrow> string list \<Rightarrow> TransparencyLog \<times> hash
    \<Rightarrow> (AuditError, TransparencyLog \<times> hash) result" where
  "load_loop B J i [] s = Ok s"
| "load_loop B J i (line # ls) s = rbind (load_line B J i line s) (load_loop B J (Suc i) ls)"

text \<open>\<open>open_inner\<close>: the file is \<open>None\<close> when it does not exist; \<open>mkdir_ok\<close> is the outcome of creating
  its directory and \<open>readable\<close> that of reading the file.\<close>

definition open_inner ::
  "backend \<Rightarrow> audit_json \<Rightarrow> bool \<Rightarrow> bool \<Rightarrow> string option \<Rightarrow> string \<Rightarrow> SigningKey \<Rightarrow> SymKey option
    \<Rightarrow> (AuditError, TransparencyLog) result" where
  "open_inner B J mkdir_ok readable file log_id signer at_rest =
    (let lg = \<lparr>tl_log_id = log_id, tl_entries = [], tl_leaves = [], tl_signer = signer,
               tl_at_rest = at_rest\<rparr> in
     case file of
       Some content \<Rightarrow>
         (if \<not> readable then Err Io
          else rbind (load_loop B J 0 (str_lines content) (lg, zero_hash)) (\<lambda>(lg', _). Ok lg'))
     | None \<Rightarrow> if mkdir_ok then Ok lg else Err Io)"

abbreviation log_open where
  "log_open B J mkdir_ok readable file log_id signer \<equiv>
    open_inner B J mkdir_ok readable file log_id signer None"

abbreviation log_open_encrypted where
  "log_open_encrypted B J mkdir_ok readable file log_id signer key \<equiv>
    open_inner B J mkdir_ok readable file log_id signer (Some key)"

text \<open>\<open>append\<close>: the log, the file and the generator before and after. A write that fails leaves the
  first \<open>n\<close> characters of the line; a failing sync leaves the whole line. Opening creates the file.\<close>

definition append_entry :: "backend \<Rightarrow> TransparencyLog \<Rightarrow> u64 \<Rightarrow> AuditEvent \<Rightarrow> bytes \<Rightarrow> LogEntry" where
  "append_entry B lg ts event event_json =
    (let seq = word_of_nat (length (tl_entries lg));
         prev = (if tl_entries lg = [] then zero_hash else le_entry_hash (last (tl_entries lg))) in
     \<lparr>le_seq = seq, le_timestamp = ts, le_prev_hash = prev, le_event = event,
      le_entry_hash = compute_entry_hash B seq ts prev event_json\<rparr>)"

definition push_entry :: "backend \<Rightarrow> LogEntry \<Rightarrow> TransparencyLog \<Rightarrow> TransparencyLog" where
  "push_entry B entry lg =
    lg\<lparr>tl_leaves := tl_leaves lg @ [leaf_hash (sha256 B) (le_entry_hash entry)],
       tl_entries := tl_entries lg @ [entry]\<rparr>"

definition content_of :: "string option \<Rightarrow> string" where
  "content_of file = (case file of None \<Rightarrow> [] | Some c \<Rightarrow> c)"

definition log_append ::
  "backend \<Rightarrow> audit_json \<Rightarrow> append_io \<Rightarrow> u64 \<Rightarrow> AuditEvent \<Rightarrow> TransparencyLog \<times> string option \<Rightarrow> rng
    \<Rightarrow> (AuditError, LogEntry) result \<times> (TransparencyLog \<times> string option) \<times> rng" where
  "log_append B J io ts event = (\<lambda>(lg, file) rs.
    case ev_json J event of
      None \<Rightarrow> (Err Serde, (lg, file), rs)
    | Some event_json \<Rightarrow>
      (let entry = append_entry B lg ts event event_json in
       case en_json J entry of
         None \<Rightarrow> (Err Serde, (lg, file), rs)
       | Some json \<Rightarrow>
         (case encode_record B lg (le_seq entry) json rs of
            (Err e, rs') \<Rightarrow> (Err e, (lg, file), rs')
          | (Ok line, rs') \<Rightarrow>
            (case io of
               OpenFails \<Rightarrow> (Err Io, (lg, file), rs')
             | WriteFails n \<Rightarrow> (Err Io, (lg, Some (content_of file @ take n (line @ [NL]))), rs')
             | SyncFails \<Rightarrow> (Err Io, (lg, Some (content_of file @ line @ [NL])), rs')
             | AppendOk \<Rightarrow> (Ok entry, (push_entry B entry lg, Some (content_of file @ line @ [NL])), rs')))))"

definition log_len :: "TransparencyLog \<Rightarrow> nat" where
  "log_len lg = length (tl_entries lg)"

definition log_root :: "backend \<Rightarrow> TransparencyLog \<Rightarrow> hash" where
  "log_root B lg = root (sha256 B) (tl_leaves lg)"

definition checkpoint :: "backend \<Rightarrow> u64 \<Rightarrow> TransparencyLog \<Rightarrow> (AuditError, Checkpoint) result" where
  "checkpoint B ts lg =
    (let tree_size = word_of_nat (length (tl_entries lg)); root_h = log_root B lg;
         bs = signed_bytes (tl_log_id lg) tree_size root_h ts in
     rbind (map_err Crypto (sig_sign B (tl_signer lg) bs)) (\<lambda>sig.
     Ok \<lparr>cp_log_id = tl_log_id lg, cp_tree_size = tree_size, cp_root_hash = root_h,
         cp_timestamp = ts, cp_signature_hex = hex_encode B sig\<rparr>))"

definition log_verifying_key :: "TransparencyLog \<Rightarrow> VerifyingKey" where
  "log_verifying_key lg = verifying_key (tl_signer lg)"

definition log_inclusion_proof :: "backend \<Rightarrow> TransparencyLog \<Rightarrow> nat \<Rightarrow> (hash \<times> hash list) option" where
  "log_inclusion_proof B lg seq =
    (if length (tl_leaves lg) \<le> seq then None
     else map_option (Pair (tl_leaves lg ! seq)) (inclusion_proof (sha256 B) (tl_leaves lg) seq))"

definition log_consistency_proof :: "backend \<Rightarrow> TransparencyLog \<Rightarrow> nat \<Rightarrow> hash list option" where
  "log_consistency_proof B lg old_size =
    (if old_size = 0 \<or> length (tl_leaves lg) < old_size then None
     else consistency_proof (sha256 B) (tl_leaves lg) old_size)"

section \<open>The chain a log holds\<close>

text \<open>\<open>hash_linked prev es\<close>: each entry commits to the one before it and carries its own hash.\<close>

primrec hash_linked :: "backend \<Rightarrow> audit_json \<Rightarrow> hash \<Rightarrow> LogEntry list \<Rightarrow> bool" where
  "hash_linked B J prev [] = True"
| "hash_linked B J prev (e # es) =
    (le_prev_hash e = prev
     \<and> map_option (compute_entry_hash B (le_seq e) (le_timestamp e) (le_prev_hash e)) (ev_json J (le_event e))
         = Some (le_entry_hash e)
     \<and> hash_linked B J (le_entry_hash e) es)"

definition last_hash :: "hash \<Rightarrow> LogEntry list \<Rightarrow> hash" where
  "last_hash prev es = (if es = [] then prev else le_entry_hash (last es))"

lemma last_hash_simps [simp]: "last_hash p [] = p" "last_hash p (es @ [e]) = le_entry_hash e"
  "last_hash p (e # es) = last_hash (le_entry_hash e) es"
  by (simp_all add: last_hash_def)

lemma hash_linked_append:
  "hash_linked B J prev (es @ fs) \<longleftrightarrow> hash_linked B J prev es \<and> hash_linked B J (last_hash prev es) fs"
  by (induction es arbitrary: prev) auto

definition leaves_of :: "backend \<Rightarrow> LogEntry list \<Rightarrow> hash list" where
  "leaves_of B es = map (\<lambda>e. leaf_hash (sha256 B) (le_entry_hash e)) es"

lemma leaves_of_simps [simp]: "leaves_of B [] = []" "leaves_of B (es @ fs) = leaves_of B es @ leaves_of B fs"
  "leaves_of B (e # es) = leaf_hash (sha256 B) (le_entry_hash e) # leaves_of B es"
  "length (leaves_of B es) = length es"
  by (simp_all add: leaves_of_def)

definition log_ok :: "backend \<Rightarrow> audit_json \<Rightarrow> TransparencyLog \<Rightarrow> bool" where
  "log_ok B J lg \<longleftrightarrow> hash_linked B J zero_hash (tl_entries lg) \<and> tl_leaves lg = leaves_of B (tl_entries lg)"

lemma load_line_Ok:
  assumes "load_line B J i line (lg, prev) = Ok (lg', prev')"
  shows "trim line = [] \<and> lg' = lg \<and> prev' = prev \<or>
    (\<exists>e. lg' = push_entry B e lg \<and> prev' = le_entry_hash e \<and> le_seq e = word_of_nat i
      \<and> hash_linked B J prev [e] \<and> trim line \<noteq> [])"
  using assms by (auto simp: load_line_def push_entry_def split: if_splits)

lemma load_loop_linked:
  assumes "load_loop B J i ls (lg, prev) = Ok (lg', prev')"
    and "hash_linked B J p0 (tl_entries lg)" "prev = last_hash p0 (tl_entries lg)"
    and "tl_leaves lg = leaves_of B (tl_entries lg)"
  shows "hash_linked B J p0 (tl_entries lg') \<and> prev' = last_hash p0 (tl_entries lg')
    \<and> tl_leaves lg' = leaves_of B (tl_entries lg')"
  using assms
proof (induction ls arbitrary: i lg prev)
  case (Cons line ls)
  then obtain lg1 prev1 where l: "load_line B J i line (lg, prev) = Ok (lg1, prev1)"
    and r: "load_loop B J (Suc i) ls (lg1, prev1) = Ok (lg', prev')" by auto
  have "hash_linked B J p0 (tl_entries lg1) \<and> prev1 = last_hash p0 (tl_entries lg1)
      \<and> tl_leaves lg1 = leaves_of B (tl_entries lg1)"
    using load_line_Ok [OF l] Cons.prems(2-4) by (auto simp: push_entry_def hash_linked_append)
  then show ?case using Cons.IH [OF r] by blast
qed auto

lemma open_inner_ok:
  assumes "open_inner B J md rd file log_id signer at_rest = Ok lg"
  shows "log_ok B J lg \<and> tl_log_id lg = log_id \<and> tl_signer lg = signer \<and> tl_at_rest lg = at_rest"
proof -
  have keep: "load_loop B J i ls (l, p) = Ok (l', p') \<Longrightarrow>
      tl_log_id l' = tl_log_id l \<and> tl_signer l' = tl_signer l \<and> tl_at_rest l' = tl_at_rest l" for i ls l p l' p'
  proof (induction ls arbitrary: i l p)
    case (Cons line ls)
    then show ?case by (fastforce simp: push_entry_def dest: load_line_Ok)
  qed simp
  let ?e = "\<lparr>tl_log_id = log_id, tl_entries = [], tl_leaves = [], tl_signer = signer, tl_at_rest = at_rest\<rparr>"
  show ?thesis
  proof (cases "file")
    case None
    then show ?thesis using assms by (auto simp: open_inner_def log_ok_def split: if_splits)
  next
    case (Some c)
    then obtain h where h: "load_loop B J 0 (str_lines c) (?e, zero_hash) = Ok (lg, h)"
      using assms by (auto simp: open_inner_def split: if_splits prod.splits)
    from load_loop_linked [OF h, of zero_hash] keep [OF h] show ?thesis by (simp add: log_ok_def)
  qed
qed

section \<open>Appending and reopening\<close>

lemma load_loop_append:
  "load_loop B J i (ls @ ks) s = rbind (load_loop B J i ls s) (load_loop B J (i + length ls) ks)"
  by (induction ls arbitrary: i s) (auto simp: rbind_def split: sum.splits)

lemma append_entry_linked:
  "ev_json J ev = Some j \<Longrightarrow>
    hash_linked B J (last_hash zero_hash (tl_entries lg)) [append_entry B lg ts ev j]"
  "le_seq (append_entry B lg ts ev j) = word_of_nat (length (tl_entries lg))"
  by (simp_all add: append_entry_def Let_def last_hash_def)

text \<open>The line written for an entry is read back as that entry.\<close>

lemma encode_record_line:
  assumes J: "audit_json_law J" and B: "hex_law B" "aead_law B"
    and key: "\<forall>k. tl_at_rest lg = Some k \<longrightarrow> length k = 32"
    and json: "en_json J e = Some json"
    and line: "encode_record B lg seq json rs = (Ok line, rs')"
  shows "is_line line \<and> trim line \<noteq> [] \<and> decode_record B lg seq line = Ok json"
proof (cases "tl_at_rest lg")
  case None
  then have l: "line = of_bytes json" using line by (simp add: encode_record_def)
  obtain t where t: "is_line line" "line = CHR ''{'' # t"
    using J json l unfolding audit_json_law_def by blast
  have "\<not> is_space CHR ''{''" by (simp add: is_space_def)
  then have "trim line \<noteq> []" using trim_nonempty [of "CHR ''{''" line] t(2) by simp
  moreover have "as_bytes line = json" using l by simp
  ultimately show ?thesis using None t(1) by (simp add: decode_record_def)
next
  case (Some key')
  then obtain ct where ct: "aead_seal B DEFAULT_AEAD key' (record_aad lg seq) json rs = (Ok ct, rs')"
    and l: "line = hex_encode B ct"
    using line by (auto simp: encode_record_def sbind_eq_Ok)
  have hex: "hex_decode B line = Some ct" "set line \<subseteq> set ''0123456789abcdef''" "length line = 2 * length ct"
    using B(1) l unfolding hex_law_def by auto
  have ns: "\<forall>c \<in> set line. \<not> is_space c \<and> c \<noteq> NL \<and> c \<noteq> CR" using hex(2) by (auto simp: is_space_def)
  then have tr: "trim line = line" and il: "is_line line" by (auto intro: trim_id simp: is_line_def)
  have "ct \<noteq> []" using ct by (auto elim!: aead_seal_Ok simp: encode_def MAGIC_def)
  then have "line \<noteq> []" using hex(3) by auto
  moreover have "aead_open B key' (record_aad lg seq) ct = Ok json"
    using aead_open_seal [OF B(2) _ ct] key Some by simp
  ultimately show ?thesis using tr il hex(1) Some by (simp add: decode_record_def)
qed

text \<open>The file of a log: as many newline-terminated lines as entries, which load as the log.\<close>

definition empty_log :: "TransparencyLog \<Rightarrow> TransparencyLog" where
  "empty_log lg = lg\<lparr>tl_entries := [], tl_leaves := []\<rparr>"

definition stored :: "backend \<Rightarrow> audit_json \<Rightarrow> TransparencyLog \<Rightarrow> string option \<Rightarrow> bool" where
  "stored B J lg file \<longleftrightarrow>
    (\<exists>ls. content_of file = unlines ls \<and> list_all is_line ls \<and> length ls = length (tl_entries lg)
      \<and> load_loop B J 0 ls (empty_log lg, zero_hash) = Ok (lg, last_hash zero_hash (tl_entries lg)))"

lemma record_ctx [simp]:
  "decode_record B (empty_log lg) = decode_record B lg"
  "decode_record B (push_entry B e lg) = decode_record B lg"
  "empty_log (push_entry B e lg) = empty_log lg"
  by (simp_all add: empty_log_def push_entry_def decode_record_def record_aad_def fun_eq_iff
      split: option.splits)

lemma load_line_written:
  assumes "decode_record B lg (word_of_nat i) line = Ok json" "trim line \<noteq> []" "en_parse J json = Some e"
    "le_seq e = word_of_nat i" "hash_linked B J prev [e]"
  shows "load_line B J i line (lg, prev) = Ok (push_entry B e lg, le_entry_hash e)"
  using assms by (auto simp: load_line_def push_entry_def)

lemma log_append_Ok:
  assumes "log_append B J io ts ev (lg, file) rs = (Ok e, (lg', file'), rs')"
  obtains j json line where "ev_json J ev = Some j" "e = append_entry B lg ts ev j"
    "en_json J e = Some json" "encode_record B lg (le_seq e) json rs = (Ok line, rs')"
    "lg' = push_entry B e lg" "file' = Some (content_of file @ line @ [NL])"
  using assms
  by (auto simp: log_append_def Let_def split: option.splits prod.splits sum.splits append_io.splits)

lemma stored_append:
  assumes laws: "audit_json_law J" "hex_law B" "aead_law B"
    and key: "\<forall>k. tl_at_rest lg = Some k \<longrightarrow> length k = 32"
    and st: "stored B J lg file"
    and app: "log_append B J io ts ev (lg, file) rs = (Ok e, (lg', file'), rs')"
  shows "stored B J lg' file' \<and> tl_entries lg' = tl_entries lg @ [e]"
  using app
proof (rule log_append_Ok)
  fix j json line
  assume a: "ev_json J ev = Some j" "e = append_entry B lg ts ev j" "en_json J e = Some json"
    "encode_record B lg (le_seq e) json rs = (Ok line, rs')"
    "lg' = push_entry B e lg" "file' = Some (content_of file @ line @ [NL])"
  obtain ls where ls: "content_of file = unlines ls" "list_all is_line ls"
    "length ls = length (tl_entries lg)"
    "load_loop B J 0 ls (empty_log lg, zero_hash) = Ok (lg, last_hash zero_hash (tl_entries lg))"
    using st by (auto simp: stored_def)
  have rec: "is_line line" "trim line \<noteq> []" "decode_record B lg (le_seq e) line = Ok json"
    using encode_record_line [OF laws key a(3,4)] by auto
  have lk: "hash_linked B J (last_hash zero_hash (tl_entries lg)) [e]"
    unfolding a(2) by (rule append_entry_linked(1) [OF a(1)])
  have sq: "le_seq e = word_of_nat (length (tl_entries lg))"
    unfolding a(2) by (rule append_entry_linked(2))
  have "load_line B J (length ls) line (lg, last_hash zero_hash (tl_entries lg)) =
      Ok (push_entry B e lg, le_entry_hash e)"
    using rec lk sq ls(3) a(3) laws(1)
    by (intro load_line_written) (auto simp: audit_json_law_def)
  then have "load_loop B J 0 (ls @ [line]) (empty_log lg', zero_hash) = Ok (lg', le_entry_hash e)"
    using ls(4) a(5) by (simp add: load_loop_append)
  moreover have "tl_entries lg' = tl_entries lg @ [e]" using a(5) by (simp add: push_entry_def)
  ultimately show ?thesis
    using ls a(6) rec(1) unfolding stored_def
    by (intro conjI exI [of _ "ls @ [line]"]) (auto simp: content_of_def)
qed

lemma stored_reopens:
  assumes "stored B J lg (Some c)"
  shows "open_inner B J md True (Some c) (tl_log_id lg) (tl_signer lg) (tl_at_rest lg) = Ok lg"
proof -
  obtain ls where ls: "c = unlines ls" "list_all is_line ls"
    "load_loop B J 0 ls (empty_log lg, zero_hash) = Ok (lg, last_hash zero_hash (tl_entries lg))"
    using assms by (auto simp: stored_def content_of_def)
  have "\<lparr>tl_log_id = tl_log_id lg, tl_entries = [], tl_leaves = [], tl_signer = tl_signer lg,
      tl_at_rest = tl_at_rest lg\<rparr> = empty_log lg" by (simp add: empty_log_def)
  then show ?thesis using ls by (simp add: open_inner_def Let_def str_lines_unlines)
qed

section \<open>Histories\<close>

text \<open>The states a log goes through: it is opened on no file, and every \<open>append\<close> that returns an entry
  extends it. \<open>B\<close> and \<open>J\<close> are fixed.\<close>

inductive log_steps ::
  "backend \<Rightarrow> audit_json \<Rightarrow> TransparencyLog \<times> string option \<Rightarrow> TransparencyLog \<times> string option \<Rightarrow> bool"
  for B J where
  steps_refl: "log_steps B J s s"
| steps_append:
    "log_steps B J s (lg, file) \<Longrightarrow>
     log_append B J io ts ev (lg, file) rs = (Ok e, s', rs') \<Longrightarrow> log_steps B J s s'"

inductive_cases log_steps_cases: "log_steps B J s s'"

lemma append_keeps_config:
  assumes "log_append B J io ts ev (lg, file) rs = (Ok e, (lg', file'), rs')"
  shows "tl_at_rest lg' = tl_at_rest lg" "tl_log_id lg' = tl_log_id lg" "tl_signer lg' = tl_signer lg"
  using assms by (auto elim!: log_append_Ok simp: push_entry_def)

lemma append_log_ok:
  assumes "log_ok B J lg" "log_append B J io ts ev (lg, file) rs = (Ok e, (lg', file'), rs')"
  shows "log_ok B J lg'"
  using assms(2)
proof (rule log_append_Ok)
  fix j assume "ev_json J ev = Some j" "e = append_entry B lg ts ev j" "lg' = push_entry B e lg"
  then show ?thesis
    using assms(1) append_entry_linked(1) [of J ev j B lg ts]
    by (simp add: log_ok_def push_entry_def hash_linked_append del: hash_linked.simps)
qed

lemma log_steps_extend:
  "log_steps B J s s' \<Longrightarrow> s = (lg, file) \<Longrightarrow> s' = (lg', file') \<Longrightarrow>
    \<exists>es. tl_entries lg' = tl_entries lg @ es \<and> tl_at_rest lg' = tl_at_rest lg
      \<and> tl_log_id lg' = tl_log_id lg \<and> tl_signer lg' = tl_signer lg
      \<and> (log_ok B J lg \<longrightarrow> log_ok B J lg')"
proof (induction arbitrary: lg' file' rule: log_steps.induct)
  case (steps_append s lg1 file1 io ts ev rs e s2 rs')
  then obtain es where es: "tl_entries lg1 = tl_entries lg @ es" "tl_at_rest lg1 = tl_at_rest lg"
    "tl_log_id lg1 = tl_log_id lg" "tl_signer lg1 = tl_signer lg" "log_ok B J lg \<longrightarrow> log_ok B J lg1"
    by blast
  have app: "log_append B J io ts ev (lg1, file1) rs = (Ok e, (lg', file'), rs')"
    using steps_append by simp
  then have "tl_entries lg' = tl_entries lg1 @ [e]" by (auto elim!: log_append_Ok simp: push_entry_def)
  with es append_keeps_config [OF app] append_log_ok [OF _ app] show ?case by auto
qed simp

lemma log_steps_stored:
  assumes laws: "audit_json_law J" "hex_law B" "aead_law B"
  shows "log_steps B J s s' \<Longrightarrow> stored B J (fst s) (snd s) \<Longrightarrow>
    (\<forall>k. tl_at_rest (fst s) = Some k \<longrightarrow> length k = 32) \<Longrightarrow>
    stored B J (fst s') (snd s') \<and> tl_at_rest (fst s') = tl_at_rest (fst s)"
proof (induction rule: log_steps.induct)
  case (steps_append s lg fl io ts ev rs e s' rs')
  obtain lg' fl' where s': "s' = (lg', fl')" by (cases s')
  show ?case
    using stored_append [OF laws _ _ steps_append.hyps(2) [unfolded s']]
      append_keeps_config(1) [OF steps_append.hyps(2) [unfolded s']] steps_append s' by simp
qed simp

lemma fresh_stored:
  assumes "open_inner B J md rd None log_id signer at_rest = Ok lg"
  shows "stored B J lg None"
  using assms unfolding stored_def
  by (intro exI [of _ "[]"])
    (auto simp: open_inner_def empty_log_def content_of_def split: if_splits)

text \<open>A failing sync leaves an entry in the file that the log in memory does not have. The next entry
  takes the same sequence number, and the file no longer loads.\<close>

lemma word_of_nat_Suc_neq: "(word_of_nat (Suc n) :: u64) \<noteq> word_of_nat n"
  by simp

lemma misplaced_record_rejected:
  assumes laws: "audit_json_law J" "hex_law B" "aead_law B" "aead_binding B"
    and key: "\<forall>k. tl_at_rest lg = Some k \<longrightarrow> length k = 32"
    and json: "en_json J e = Some json"
    and line: "encode_record B lg (le_seq e) json rs = (Ok line, rs')"
    and off: "le_seq e \<noteq> word_of_nat i"
  shows "\<exists>err. load_line B J i line (lg, prev) = Err err"
proof (cases "tl_at_rest lg")
  case None
  then have l: "line = of_bytes json" using line by (simp add: encode_record_def)
  have "trim line \<noteq> []" using encode_record_line [OF laws(1-3) key json line] by simp
  moreover have "en_parse J json = Some e" using laws(1) json by (simp add: audit_json_law_def)
  ultimately show ?thesis using None l off by (simp add: load_line_def decode_record_def)
next
  case (Some k)
  then obtain ct where ct: "aead_seal B DEFAULT_AEAD k (record_aad lg (le_seq e)) json rs = (Ok ct, rs')"
    and l: "line = hex_encode B ct"
    using line by (auto simp: encode_record_def sbind_eq_Ok)
  have "set line \<subseteq> set ''0123456789abcdef''" "hex_decode B line = Some ct"
    using laws(2) l unfolding hex_law_def by auto
  then have hex: "hex_decode B (trim line) = Some ct" by (subst trim_id) (auto simp: is_space_def)
  have tr: "trim line \<noteq> []" using encode_record_line [OF laws(1-3) key json line] by simp
  have "record_aad lg (word_of_nat i) \<noteq> record_aad lg (le_seq e)"
    using off by (auto simp: record_aad_def le_bytes_inj)
  then have "aead_open B k (record_aad lg (word_of_nat i)) ct \<noteq> Ok pt" for pt
    using aead_open_seal_binds [OF laws(4) ct] by blast
  then obtain ce where "aead_open B k (record_aad lg (word_of_nat i)) ct = Err ce"
    by (cases "aead_open B k (record_aad lg (word_of_nat i)) ct") auto
  then show ?thesis using Some hex tr by (simp add: load_line_def decode_record_def)
qed

lemma log_append_SyncFails:
  assumes "log_append B J SyncFails ts ev (lg, file) rs = (r, (lg1, file1), rs1)" "file1 \<noteq> file"
  obtains e where "log_append B J AppendOk ts ev (lg, file) rs = (Ok e, (push_entry B e lg, file1), rs1)"
    "lg1 = lg" "r = Err Io"
proof -
  obtain j where j: "ev_json J ev = Some j"
    using assms by (auto simp: log_append_def split: option.splits)
  define e where "e = append_entry B lg ts ev j"
  obtain json where json: "en_json J e = Some json"
    using assms j by (auto simp: log_append_def e_def Let_def split: option.splits)
  obtain line where line: "encode_record B lg (le_seq e) json rs = (Ok line, rs1)"
    and f1: "file1 = Some (content_of file @ line @ [NL])" "lg1 = lg" "r = Err Io"
    using assms j json by (auto simp: log_append_def e_def Let_def split: prod.splits sum.splits)
  show thesis using that [of e] j json line f1 by (simp add: log_append_def e_def Let_def)
qed

lemma sync_failure_breaks_log:
  assumes laws: "audit_json_law J" "hex_law B" "aead_law B" "aead_binding B"
    and key: "\<forall>k. tl_at_rest lg = Some k \<longrightarrow> length k = 32"
    and st: "stored B J lg file"
    and fail: "log_append B J SyncFails ts ev (lg, file) rs = (r, (lg1, file1), rs1)" "file1 \<noteq> file"
    and app: "log_append B J io ts' ev' (lg1, file1) rs1 = (Ok e', (lg2, file2), rs2)"
  shows "\<exists>err. open_inner B J md True file2 (tl_log_id lg) (tl_signer lg) (tl_at_rest lg) = Err err"
proof -
  from fail obtain e where app1:
      "log_append B J AppendOk ts ev (lg, file) rs = (Ok e, (push_entry B e lg, file1), rs1)"
    and lg1: "lg1 = lg" by (rule log_append_SyncFails)
  have st1: "stored B J (push_entry B e lg) file1" using stored_append [OF laws(1-3) key st app1] by blast
  from app obtain j' json' line' where b: "ev_json J ev' = Some j'" "e' = append_entry B lg ts' ev' j'"
    "en_json J e' = Some json'" "encode_record B lg (le_seq e') json' rs1 = (Ok line', rs2)"
    "file2 = Some (content_of file1 @ line' @ [NL])"
    unfolding lg1 by (rule log_append_Ok)
  obtain ls where ls: "content_of file1 = unlines ls" "list_all is_line ls"
    "length ls = Suc (length (tl_entries lg))"
    "load_loop B J 0 ls (empty_log lg, zero_hash) =
      Ok (push_entry B e lg, last_hash zero_hash (tl_entries (push_entry B e lg)))"
    using st1 by (auto simp: stored_def push_entry_def empty_log_def)
  have "le_seq e' = word_of_nat (length (tl_entries lg))" unfolding b(2) by (rule append_entry_linked(2))
  then have off: "le_seq e' \<noteq> word_of_nat (length ls)" using word_of_nat_Suc_neq ls(3) by metis
  have enc: "encode_record B (push_entry B e lg) (le_seq e') json' rs1 = (Ok line', rs2)"
    using b(4) by (simp add: encode_record_def push_entry_def record_aad_def split: option.splits)
  obtain err where "load_line B J (length ls) line'
      (push_entry B e lg, last_hash zero_hash (tl_entries (push_entry B e lg))) = Err err"
    using misplaced_record_rejected [OF laws _ b(3) enc off] key by (auto simp: push_entry_def)
  then have "load_loop B J 0 (ls @ [line']) (empty_log lg, zero_hash) = Err err"
    using ls(4) by (simp add: load_loop_append)
  moreover have "is_line line'" using encode_record_line [OF laws(1-3) key b(3,4)] by simp
  then have "str_lines (content_of file1 @ line' @ [NL]) = ls @ [line']"
    using str_lines_unlines [of "ls @ [line']"] ls(1,2) by simp
  moreover have "\<lparr>tl_log_id = tl_log_id lg, tl_entries = [], tl_leaves = [], tl_signer = tl_signer lg,
      tl_at_rest = tl_at_rest lg\<rparr> = empty_log lg" by (simp add: empty_log_def)
  ultimately show ?thesis using b(5) by (simp add: open_inner_def Let_def)
qed

section \<open>Checkpoints\<close>

lemma checkpoint_verifies_lib:
  assumes "sig_law B" "hex_law B" "sk_ok B (tl_signer lg)" "checkpoint B ts lg = Ok cp"
  shows "checkpoint_verify B cp (log_verifying_key lg) = Ok ()"
  using assms sig_verify_sign [OF assms(1,3)]
  by (auto simp: checkpoint_def checkpoint_verify_def log_verifying_key_def Let_def hex_law_def)

lemma signed_bytes_inj_lib:
  assumes "CHR 0x00 \<notin> set l" "CHR 0x00 \<notin> set l'" "length r = 32" "length r' = 32"
    and "signed_bytes l n r t = signed_bytes l' n' r' t'"
  shows "l = l' \<and> n = n' \<and> r = r' \<and> t = t'"
proof -
  have nz: "0 \<notin> set (as_bytes x)" if "CHR 0x00 \<notin> set x" for x
  proof
    assume "0 \<in> set (as_bytes x)"
    then obtain c where "c \<in> set x" "(of_char c :: byte) = 0" by (auto simp: as_bytes_def)
    moreover have "(of_char CHR 0x00 :: byte) = 0" by simp
    ultimately show False using that by (metis of_char_byte_eq)
  qed
  have "as_bytes l @ 0 # (le_bytes 8 n @ r @ le_bytes 8 t)
      = as_bytes l' @ 0 # (le_bytes 8 n' @ r' @ le_bytes 8 t')"
    using assms(5) by (simp add: signed_bytes_def)
  then show ?thesis using assms(3,4) by (subst (asm) sep_inj) (auto simp: nz assms(1,2) le_bytes_inj)
qed

section \<open>Tamper evidence\<close>

definition entry_msg :: "u64 \<Rightarrow> u64 \<Rightarrow> hash \<Rightarrow> bytes \<Rightarrow> bytes" where
  "entry_msg seq ts prev j =
    as_bytes ''secgit/audit/entry/v1'' @ [0] @ le_bytes 8 seq @ le_bytes 8 ts @ prev @ j"

definition chain_msgs :: "audit_json \<Rightarrow> LogEntry list \<Rightarrow> bytes list" where
  "chain_msgs J es = map (\<lambda>e. entry_msg (le_seq e) (le_timestamp e) (le_prev_hash e)
     (case ev_json J (le_event e) of None \<Rightarrow> [] | Some j \<Rightarrow> j)) es"

definition entry_content :: "audit_json \<Rightarrow> LogEntry \<Rightarrow> u64 \<times> u64 \<times> hash \<times> bytes option \<times> hash" where
  "entry_content J e = (le_seq e, le_timestamp e, le_prev_hash e, ev_json J (le_event e), le_entry_hash e)"

lemma entry_msg_inj:
  "length p = 32 \<Longrightarrow> length p' = 32 \<Longrightarrow> entry_msg s t p j = entry_msg s' t' p' j' \<longleftrightarrow>
    s = s' \<and> t = t' \<and> p = p' \<and> j = j'"
  by (auto simp: entry_msg_def le_bytes_inj)

lemma hash_linked_prev32:
  assumes "\<And>x. length (sha256 B x) = 32" "length p = 32" "hash_linked B J p es"
  shows "length (last_hash p es) = 32"
  using assms(2,3)
proof (induction es arbitrary: p)
  case (Cons e es)
  have "length (compute_entry_hash B a b c d) = 32" for a b c d
    by (simp add: compute_entry_hash_def assms(1))
  then have "length (le_entry_hash e) = 32" using Cons.prems(2) by auto metis
  with Cons show ?case by simp
qed simp

lemma chain_tamper_evident_lib:
  assumes H: "\<And>x. length (sha256 B x) = 32"
  shows "length es = length es' \<Longrightarrow> hash_linked B J zero_hash es \<Longrightarrow> hash_linked B J zero_hash es' \<Longrightarrow>
    last_hash zero_hash es = last_hash zero_hash es' \<Longrightarrow>
    collision_free (sha256 B) (chain_msgs J es) (chain_msgs J es') \<Longrightarrow>
    map (entry_content J) es = map (entry_content J) es'"
proof (induction es arbitrary: es' rule: rev_induct)
  case (snoc e es)
  obtain fs f where es': "es' = fs @ [f]" using snoc.prems(1) by (cases es' rule: rev_cases) auto
  have z: "length zero_hash = 32" by (simp add: zero_hash_def)
  note lk = snoc.prems(2,3) [unfolded es' hash_linked_append]
  obtain j g where j: "ev_json J (le_event e) = Some j" "ev_json J (le_event f) = Some g"
    using lk by auto
  have hs: "sha256 B (entry_msg (le_seq e) (le_timestamp e) (le_prev_hash e) j) = le_entry_hash e"
    "sha256 B (entry_msg (le_seq f) (le_timestamp f) (le_prev_hash f) g) = le_entry_hash f"
    using lk j by (auto simp: compute_entry_hash_def entry_msg_def)
  have eq: "le_entry_hash e = le_entry_hash f" using snoc.prems(4) es' by simp
  have "entry_msg (le_seq e) (le_timestamp e) (le_prev_hash e) j
      = entry_msg (le_seq f) (le_timestamp f) (le_prev_hash f) g"
    by (rule collision_freeD [OF snoc.prems(5)])
      (use j hs eq es' in \<open>auto simp: chain_msgs_def\<close>)
  moreover have "length (le_prev_hash e) = 32" "length (le_prev_hash f) = 32"
    using lk hash_linked_prev32 [OF H z] by auto
  ultimately have c: "le_seq e = le_seq f" "le_timestamp e = le_timestamp f"
    "le_prev_hash e = le_prev_hash f" "j = g"
    by (simp_all add: entry_msg_inj)
  have "map (entry_content J) es = map (entry_content J) fs"
  proof (rule snoc.IH)
    show "last_hash zero_hash es = last_hash zero_hash fs" using lk c(3) by auto
    show "collision_free (sha256 B) (chain_msgs J es) (chain_msgs J fs)"
      using snoc.prems(5) by (rule collision_free_mono) (auto simp: chain_msgs_def es')
  qed (use lk snoc.prems(1) es' in auto)
  moreover have "entry_content J e = entry_content J f" using c j eq by (simp add: entry_content_def)
  ultimately show ?case by (simp add: es')
qed simp

section \<open>Properties\<close>

text \<open>C15: durability. A log opened on no file and extended by any number of successful appends is read
  back exactly (entries, Merkle leaves, configuration) when its file is opened again, in the plain and
  in the sealed mode.\<close>

theorem log_reopens:
  assumes "audit_json_law J" "hex_law B" "aead_law B"
    and "\<forall>k. at_rest = Some k \<longrightarrow> length k = 32"
    and "open_inner B J md rd None log_id signer at_rest = Ok lg0"
    and "log_steps B J (lg0, None) (lg, Some content)"
  shows "open_inner B J md' True (Some content) log_id signer at_rest = Ok lg"
proof -
  have lg0: "tl_log_id lg0 = log_id" "tl_signer lg0 = signer" "tl_at_rest lg0 = at_rest"
    using open_inner_ok [OF assms(5)] by auto
  have "stored B J lg (Some content)"
    using log_steps_stored [OF assms(1-3,6)] fresh_stored [OF assms(5)] assms(4) lg0 by simp
  moreover have "tl_log_id lg = log_id" "tl_signer lg = signer" "tl_at_rest lg = at_rest"
    using log_steps_extend [OF assms(6) refl refl] lg0 by auto
  ultimately show ?thesis using stored_reopens by metis
qed

definition demo_signer :: SigningKey where
  "demo_signer = \<lparr>sk_scheme = Ed25519MlDsa87, sk_ed = [1], sk_ed_pub = [1],
    sk_mldsa = \<lparr>ml_param = MlDsa87, ml_seed = [2], ml_public = [2]\<rparr>\<rparr>"

definition demo_log :: "TransparencyLog" where
  "demo_log = \<lparr>tl_log_id = ''log'', tl_entries = [], tl_leaves = [], tl_signer = demo_signer,
    tl_at_rest = Some (replicate 32 9)\<rparr>"

definition demo_entry :: LogEntry where
  "demo_entry = append_entry ref_backend demo_log 5 (KeyRotated ''r'') [7]"

definition demo_json :: audit_json where
  "demo_json = \<lparr>ev_json = (\<lambda>ev. Some [7]),
     en_json = (\<lambda>e. if e = demo_entry then Some (as_bytes ''{}'') else None),
     en_parse = (\<lambda>b. if b = as_bytes ''{}'' then Some demo_entry else None)\<rparr>"

lemma demo_json_law: "audit_json_law demo_json"
  by (auto simp: audit_json_law_def demo_json_def is_line_def simp del: as_bytes_simps)

definition demo_run ::
  "(AuditError, LogEntry) result \<times> (TransparencyLog \<times> string option) \<times> rng" where
  "demo_run = log_append ref_backend demo_json AppendOk 5 (KeyRotated ''r'') (demo_log, None)
    [replicate 12 3]"

lemma demo_run_steps:
  "log_steps ref_backend demo_json (demo_log, None) (fst (snd demo_run))"
proof -
  have "fst demo_run = Ok demo_entry" by code_simp
  then have "demo_run = (Ok demo_entry, fst (snd demo_run), snd (snd demo_run))"
    by (metis prod.collapse)
  then show ?thesis using steps_append [OF steps_refl] unfolding demo_run_def by metis
qed

theorem log_reopens_witness:
  "open_inner ref_backend demo_json True True (snd (fst (snd demo_run))) ''log'' demo_signer
      (Some (replicate 32 9)) = Ok (fst (fst (snd demo_run)))
    \<and> length (tl_entries (fst (fst (snd demo_run)))) = 1"
proof -
  have o: "open_inner ref_backend demo_json True True None ''log'' demo_signer (Some (replicate 32 9))
      = Ok demo_log" by (simp add: open_inner_def demo_log_def)
  have "snd (fst (snd demo_run)) \<noteq> None" by code_simp
  then obtain c where c: "snd (fst (snd demo_run)) = Some c" by blast
  then have "fst (snd demo_run) = (fst (fst (snd demo_run)), Some c)" by (metis prod.collapse)
  with demo_run_steps have s: "log_steps ref_backend demo_json (demo_log, None)
      (fst (fst (snd demo_run)), Some c)" by metis
  have "length (tl_entries (fst (fst (snd demo_run)))) = 1" by code_simp
  then show ?thesis
    using log_reopens [OF demo_json_law ref_hex_law ref_aead_law _ o s] c by simp
qed




definition demo_entry2 :: LogEntry where
  "demo_entry2 = append_entry ref_backend demo_log 5 (KeyRotated ''s'') [7]"

lemma demo_entries_linked:
  "hash_linked ref_backend demo_json zero_hash [demo_entry]"
  "hash_linked ref_backend demo_json zero_hash [demo_entry2]"
  using append_entry_linked(1) [of demo_json "KeyRotated ''r''" "[7]" ref_backend demo_log 5]
    append_entry_linked(1) [of demo_json "KeyRotated ''s''" "[7]" ref_backend demo_log 5]
  unfolding demo_entry_def demo_entry2_def
  by (simp_all add: demo_json_def demo_log_def del: hash_linked.simps)


text \<open>C38: an append whose sync fails after the line was written breaks the log: the caller gets an error
  and keeps the old log, the next successful append reuses the sequence number, and the file can then
  no longer be opened.\<close>

theorem sync_failure_unopenable:
  assumes "audit_json_law J" "hex_law B" "aead_law B" "aead_binding B"
    and "\<forall>k. tl_at_rest lg = Some k \<longrightarrow> length k = 32" "stored B J lg file"
    and "log_append B J SyncFails ts ev (lg, file) rs = (r, (lg1, file1), rs1)" "file1 \<noteq> file"
    and "log_append B J io ts' ev' (lg1, file1) rs1 = (Ok e', (lg2, file2), rs2)"
  shows "\<exists>err. open_inner B J md True file2 (tl_log_id lg) (tl_signer lg) (tl_at_rest lg) = Err err"
  using assms by (rule sync_failure_breaks_log)

definition demo_fail ::
  "(AuditError, LogEntry) result \<times> (TransparencyLog \<times> string option) \<times> rng" where
  "demo_fail = log_append ref_backend demo_json SyncFails 5 (KeyRotated ''r'') (demo_log, None)
    [replicate 12 3, replicate 12 4]"

definition demo_again ::
  "(AuditError, LogEntry) result \<times> (TransparencyLog \<times> string option) \<times> rng" where
  "demo_again = log_append ref_backend demo_json AppendOk 5 (KeyRotated ''r'')
    (fst (snd demo_fail)) (snd (snd demo_fail))"

theorem sync_failure_unopenable_witness:
  "\<exists>err. open_inner ref_backend demo_json True True (snd (fst (snd demo_again))) ''log'' demo_signer
     (Some (replicate 32 9)) = Err err"
proof -
  have o: "open_inner ref_backend demo_json True True None ''log'' demo_signer (Some (replicate 32 9))
      = Ok demo_log" by (simp add: open_inner_def demo_log_def)
  obtain r lg1 f1 rs1 where f: "demo_fail = (r, (lg1, f1), rs1)" by (metis prod.exhaust)
  obtain r2 lg2 f2 rs2 where g: "demo_again = (r2, (lg2, f2), rs2)" by (metis prod.exhaust)
  have "snd (fst (snd demo_fail)) \<noteq> None" by code_simp
  then have ne: "f1 \<noteq> None" by (simp add: f)
  have "fst demo_again = Ok demo_entry" by code_simp
  then have g': "log_append ref_backend demo_json AppendOk 5 (KeyRotated ''r'') (lg1, f1) rs1
      = (Ok demo_entry, (lg2, f2), rs2)" using g by (simp add: demo_again_def f)
  have "\<forall>k. tl_at_rest demo_log = Some k \<longrightarrow> length k = 32" by (simp add: demo_log_def)
  from sync_failure_unopenable [OF demo_json_law ref_hex_law ref_aead_law ref_aead_binding this
      fresh_stored [OF o] f [unfolded demo_fail_def] ne g', of True]
  show ?thesis by (simp add: g demo_log_def)
qed

text \<open>The operator's checkpoint verifies under the log's pinned key.\<close>

theorem checkpoint_verifies:
  assumes "sig_law B" "hex_law B" "sk_ok B (tl_signer lg)" "checkpoint B ts lg = Ok cp"
  shows "checkpoint_verify B cp (log_verifying_key lg) = Ok () \<and> cp_root_hash cp = log_root B lg
    \<and> cp_tree_size cp = word_of_nat (log_len lg)"
  using checkpoint_verifies_lib [OF assms] assms(4)
  by (auto simp: checkpoint_def Let_def log_len_def)

theorem checkpoint_verifies_witness:
  "\<exists>cp. checkpoint ref_backend 5 demo_log = Ok cp
    \<and> checkpoint_verify ref_backend cp (log_verifying_key demo_log) = Ok ()"
proof -
  obtain cp where cp: "checkpoint ref_backend 5 demo_log = Ok cp"
    by (simp add: checkpoint_def Let_def demo_log_def demo_signer_def sig_sign_def mldsa_sign_def
        ref_backend_def)
  have "sk_ok ref_backend (tl_signer demo_log)"
    by (simp add: sk_ok_def demo_log_def demo_signer_def ref_backend_def)
  with cp show ?thesis using checkpoint_verifies [OF ref_sig_law ref_hex_law] by blast
qed

text \<open>A signature binds a checkpoint: for log identifiers without a NUL byte and 32-byte roots, equal
  signed bytes mean the same log, size, root and time.\<close>

theorem signed_bytes_injective:
  assumes "CHR 0x00 \<notin> set l" "CHR 0x00 \<notin> set l'" "length r = 32" "length r' = 32"
  shows "signed_bytes l n r t = signed_bytes l' n' r' t' \<longleftrightarrow> l = l' \<and> n = n' \<and> r = r' \<and> t = t'"
  using signed_bytes_inj_lib [OF assms] by blast

theorem signed_bytes_injective_witness:
  "signed_bytes ''a'' 1 (replicate 32 0) 2 \<noteq> signed_bytes ''a'' 1 (replicate 32 0) 3"
  using signed_bytes_injective [of "''a''" "''a''" "replicate 32 0" "replicate 32 0" 1 2 1 3]
  by simp

text \<open>C7: append-only history, end to end. After any further successful appends, the log proves to the
  holder of an old root that the new root extends it, and proves that each old entry is still at its
  place; both proofs are accepted by the public verifiers.\<close>

theorem history_append_only:
  assumes "log_ok B J lg" "log_steps B J (lg, file) (lg', file')" "seq < log_len lg"
  shows "(\<exists>pf. log_consistency_proof B lg' (log_len lg) = Some pf
      \<and> verify_consistency (sha256 B) (log_len lg) (log_len lg') pf (log_root B lg) (log_root B lg'))
    \<and> (\<exists>pf. log_inclusion_proof B lg' seq
          = Some (leaf_hash (sha256 B) (le_entry_hash (tl_entries lg ! seq)), pf)
      \<and> verify_inclusion (sha256 B) (leaf_hash (sha256 B) (le_entry_hash (tl_entries lg ! seq)))
          seq (log_len lg') pf (log_root B lg'))" (is "?cons \<and> ?incl")
proof -
  obtain es where es: "tl_entries lg' = tl_entries lg @ es" "log_ok B J lg'"
    using log_steps_extend [OF assms(2) refl refl] assms(1) by auto
  let ?x = "tl_leaves lg" and ?y = "leaves_of B es"
  have lv: "tl_leaves lg' = ?x @ ?y" "length ?x = log_len lg" "log_len lg' = length ?x + length ?y"
    using assms(1) es by (simp_all add: log_ok_def log_len_def)
  have ne: "?x \<noteq> []" using assms(3) lv(2) by auto
  have "0 < log_len lg" using assms(3) by simp
  then have ?cons
    using mt.history_extends [OF ne, of "sha256 B" ?y] lv
    by (auto simp: log_consistency_proof_def log_root_def)
  moreover have "?x ! seq = leaf_hash (sha256 B) (le_entry_hash (tl_entries lg ! seq))"
    using assms(1,3) by (simp add: log_ok_def leaves_of_def log_len_def)
  then have ?incl
    using mt.old_element_provable [of seq ?x "sha256 B" ?y] assms(3) lv
    by (auto simp: log_inclusion_proof_def log_root_def nth_append)
  ultimately show ?thesis by blast
qed

theorem history_append_only_witness:
  "\<exists>pf. log_inclusion_proof ref_backend (fst (fst (snd demo_run))) 0
      = Some (leaf_hash (sha256 ref_backend) (le_entry_hash demo_entry), pf)"
proof -
  let ?s = "fst (snd demo_run)"
  have "log_ok ref_backend demo_json demo_log" by (simp add: log_ok_def demo_log_def)
  moreover have st: "log_steps ref_backend demo_json (demo_log, None) (fst ?s, snd ?s)"
    using demo_run_steps by simp
  ultimately have ok: "log_ok ref_backend demo_json (fst ?s)"
    using log_steps_extend [OF st refl refl] by blast
  have len: "0 < log_len (fst ?s)" by code_simp
  have "tl_entries (fst ?s) ! 0 = demo_entry" by code_simp
  with history_append_only [OF ok steps_refl len] show ?thesis by auto
qed

end
