(* ===== verification/Crypto_Properties.thy ===== *)
theory Crypto_Properties
  imports Reference_Backend
begin

text \<open>
  The contracts of the crate secgit-crypto, each applied to the concrete backend of
  \<open>Reference_Backend\<close>. The locale \<open>sealing\<close> is the interface the audit log and the object store use:
  a scheme that opens what it sealed, under the same key and associated data only.
\<close>

section \<open>The sealing interface\<close>

locale sealing =
  fixes seal :: "'b \<Rightarrow> bytes \<Rightarrow> bytes \<Rightarrow> bytes \<Rightarrow> rng \<Rightarrow> (CryptoError, bytes) result \<times> rng"
    and unseal :: "'b \<Rightarrow> bytes \<Rightarrow> bytes \<Rightarrow> bytes \<Rightarrow> (CryptoError, bytes) result"
    and lawful :: "'b \<Rightarrow> bool"
    and authentic :: "'b \<Rightarrow> bool"
  assumes unseal_seal: "lawful b \<Longrightarrow> length k = 32 \<Longrightarrow> seal b k a p rs = (Ok c, rs') \<Longrightarrow> unseal b k a c = Ok p"
    and unseal_binds: "authentic b \<Longrightarrow> seal b k a p rs = (Ok c, rs') \<Longrightarrow> unseal b k' a' c = Ok p' \<Longrightarrow>
      k' = k \<and> a' = a \<and> p' = p"
begin

lemma unseal_iff:
  assumes "lawful b" "authentic b" "length k = 32" "seal b k a p rs = (Ok c, rs')"
  shows "unseal b k' a' c = Ok p' \<longleftrightarrow> k' = k \<and> a' = a \<and> p' = p"
  using unseal_seal [OF assms(1,3,4)] unseal_binds [OF assms(2,4)] by blast

lemma relocated_rejected:
  assumes "authentic b" "seal b k a p rs = (Ok c, rs')" "a' \<noteq> a"
  shows "\<exists>e. unseal b k' a' c = Err e"
  using unseal_binds [OF assms(1,2)] assms(3) by (cases "unseal b k' a' c") auto

lemma other_key_rejected:
  assumes "authentic b" "seal b k a p rs = (Ok c, rs')" "k' \<noteq> k"
  shows "\<exists>e. unseal b k' a' c = Err e"
  using unseal_binds [OF assms(1,2)] assms(3) by (cases "unseal b k' a' c") auto

end

interpretation aead: sealing "\<lambda>(B, sch). aead_seal B sch" "\<lambda>(B, sch). aead_open B"
  "\<lambda>(B, sch). aead_law B" "\<lambda>(B, sch). aead_binding B"
  by unfold_locales (auto intro: aead_open_seal dest: aead_open_seal_binds)

section \<open>Properties\<close>

text \<open>C14: the envelope format is unambiguous: \<open>decode\<close> accepts exactly the encodings of envelopes, each as
  the envelope it encodes.\<close>

theorem envelope_roundtrip: "decode bs = Ok e \<longleftrightarrow> bs = encode e"
  using decode_encode_lib decode_Ok_encode by blast



text \<open>Envelope encryption of data keys: a wrapped data key unwraps under its key-encryption key to
  itself, and nothing that unwraps is not a 256-bit key.\<close>

theorem wrap_unwrap_roundtrip:
  assumes "aead_law B" "length kek = 32" "length dek = 32" "wrap_key B sch kek dek rs = (Ok w, rs')"
  shows "unwrap_key B kek w = Ok dek \<and> (\<forall>k w' d. unwrap_key B k w' = Ok d \<longrightarrow> length d = 32)"
  using unwrap_wrap_key [OF assms] unwrap_key_len by blast

theorem wrap_unwrap_roundtrip_witness:
  "\<exists>w. wrap_key ref_backend Aes256Gcm (replicate 32 1) (replicate 32 2) [replicate 12 5] = (Ok w, [])
    \<and> unwrap_key ref_backend (replicate 32 1) w = Ok (replicate 32 2)"
proof -
  obtain w where w:
    "wrap_key ref_backend Aes256Gcm (replicate 32 1) (replicate 32 2) [replicate 12 5] = (Ok w, [])"
    by (simp add: wrap_key_def aead_seal_def sbind_def unbound_def ref_backend_def random_bytes_def
        NONCE_LEN_def)
  then show ?thesis using wrap_unwrap_roundtrip [OF ref_aead_law _ _ w] by simp
qed

text \<open>Hybrid signatures. A signing key restored from its bundle signs messages that verify under its
  public identity.\<close>

theorem hybrid_sign_verify:
  assumes "sig_law B" "from_bundle B bundle = Ok sk" "sig_sign B sk msg = Ok sig"
  shows "sig_verify B (verifying_key sk) msg sig = Ok ()"
  using sig_verify_sign [OF assms(1) from_bundle_ok [OF assms(2)] assms(3)] .

definition demo_bundle :: SigningKeyBundle where
  "demo_bundle = \<lparr>bun_scheme = 1, bun_ed25519_pkcs8_hex = ''01'', bun_mldsa_seed_hex = ''02''\<rparr>"

theorem hybrid_sign_verify_witness:
  "\<exists>sk sig. from_bundle ref_backend demo_bundle = Ok sk \<and> sig_sign ref_backend sk [5] = Ok sig
    \<and> sig_verify ref_backend (verifying_key sk) [5] sig = Ok ()"
proof -
  have "\<exists>sk. from_bundle ref_backend demo_bundle = Ok sk"
  proof -
    have "unhex ''01'' = Some [1]" "unhex ''02'' = Some [2]" by code_simp+
    then show ?thesis
      by (simp add: from_bundle_def demo_bundle_def sig_from_u16_def mldsa_from_seed_def ref_backend_def)
  qed
  then obtain sk where sk: "from_bundle ref_backend demo_bundle = Ok sk" ..
  obtain sig where sig: "sig_sign ref_backend sk [5] = Ok sig"
    by (simp add: sig_sign_def mldsa_sign_def ref_backend_def Let_def)
  from hybrid_sign_verify [OF ref_sig_law sk sig] sk sig show ?thesis by blast
qed



text \<open>The key-release channel. What is sealed to the public key of a freshly generated recipient is
  opened by that recipient to the same secret, through both the X25519 and the ML-KEM half.\<close>

theorem kem_roundtrip:
  assumes "kem_law B" "aead_law B" "hkdf_law B"
    and "kem_generate B rs = (Ok rk, rs')" "seal_to B (kem_public rk) secret rs' = (Ok env, rs'')"
  shows "kem_open B rk env = Ok secret"
  using kem_open_seal_to [OF assms(1-3) kem_generate_ok [OF assms(4)] assms(5)] .

theorem kem_roundtrip_witness:
  "\<exists>rk env rs. kem_generate ref_backend (replicate 32 1 # [2] # replicate 32 3 # [4] # replicate 12 5 # [])
      = (Ok rk, rs)
    \<and> seal_to ref_backend (kem_public rk) [7, 8] rs = (Ok env, [])
    \<and> kem_open ref_backend rk env = Ok [7, 8]"
proof -
  let ?rs = "[replicate 32 3, [4], replicate 12 5] :: bytes list"
  obtain rk where rk: "kem_generate ref_backend (replicate 32 1 # [2] # ?rs) = (Ok rk, ?rs)"
    by (simp add: kem_generate_def sbind_def random_bytes_def draw_coins_def ref_backend_def ref_ek_bytes_def)
  let ?x = "x25519_dh ref_backend (replicate 32 3) (rp_x25519 (kem_public rk))"
    and ?m = "rp_mlkem_ek (kem_public rk) @ pad 32 [4]"
  obtain k where k: "combine ref_backend ?x ?m = Ok k"
    using hkdf_sha384_spec [OF ref_hkdf_law] by (simp add: combine_def)
  then have "length k = 32" using length_hkdf_sha384 [OF ref_hkdf_law] by (simp add: combine_def)
  with k obtain env where env: "seal_to ref_backend (kem_public rk) [7, 8] ?rs = (Ok env, [])"
    by (simp add: seal_to_def sbind_def random_bytes_def Let_def kem_aead_key_def NONCE_LEN_def
        ref_selectors)
  from kem_roundtrip [OF ref_kem_law ref_aead_law ref_hkdf_law rk env] rk env show ?thesis by blast
qed

text \<open>HKDF-SHA384. The derived key is the first \<open>out_len\<close> bytes of the RFC 5869 blocks
  \<open>T(1), T(2), ...\<close>; the loop ends for every \<open>out_len\<close>, and it reports an error exactly for more than 254
  blocks, one block before the counter byte would wrap.\<close>

theorem hkdf_rfc5869:
  assumes "hkdf_law B"
  shows "hkdf_sha384 B ikm salt info out_len =
    (if out_len \<le> 48 * 254
     then Ok (take out_len (hkdf_blocks (hmac384 B (hmac384 B salt ikm)) info ((out_len + 47) div 48)))
     else Err Backend)"
  using assms by (rule hkdf_sha384_spec)

theorem hkdf_rfc5869_witness:
  "hkdf_sha384 ref_backend [1] [2] [3] 12193 = Err Backend"
  using hkdf_rfc5869 [OF ref_hkdf_law, of "[1]" "[2]" "[3]" 12193] by simp

text \<open>The constant-time comparison is equality.\<close>

theorem ct_eq_is_equality: "ct_eq a b \<longleftrightarrow> a = b"
  by (auto simp: ct_eq_def ct_diff_0)

end
