(* ===== verification/KV.thy ===== *)
theory KV
  imports SecGit_Prelude
begin

text \<open>
  What the services (reviews, identity, sessions, search) rely on of the object store: a map from
  \<open>(repo_id, key)\<close> to bytes whose failed operations leave it unchanged. \<open>kv\<close> is the handle a service
  holds, \<open>json_put\<close> and \<open>json_get\<close> the two private helpers every service writes around it
  (\<open>serde_json\<close> on one side, the error conversion \<open>stor\<close> on the other), and \<open>kv_store\<close> the contract.

  The contract is relative to a set \<open>N\<close> of names: the store keeps an object under the hash of its name,
  and what it promises holds for any names on which the hash has no collision.
\<close>

record ('w, 'e) kv =
  kv_put :: "string \<Rightarrow> string \<Rightarrow> bytes \<Rightarrow> ('w, 'e, unit) st"
  kv_get :: "string \<Rightarrow> string \<Rightarrow> ('w, 'e, bytes option) st"
  kv_delete :: "string \<Rightarrow> string \<Rightarrow> ('w, 'e, unit) st"

type_synonym view = "string \<Rightarrow> string \<Rightarrow> bytes option"

definition upd :: "view \<Rightarrow> string \<Rightarrow> string \<Rightarrow> bytes option \<Rightarrow> view" where
  "upd V r k x = V(r := (V r)(k := x))"

lemma upd_apply [simp]: "upd V r k x r' k' = (if r' = r \<and> k' = k then x else V r' k')"
  by (simp add: upd_def)

text \<open>A type with a derived \<open>Serialize\<close> and \<open>Deserialize\<close>: \<open>serde_json::to_vec\<close> and \<open>from_slice\<close> at
  that type.\<close>

record 'a codec =
  to_vec :: "'a \<Rightarrow> bytes option"
  from_slice :: "bytes \<Rightarrow> 'a option"

definition codec_law :: "'a codec \<Rightarrow> bool" where
  "codec_law c \<longleftrightarrow> (\<forall>v b. to_vec c v = Some b \<longrightarrow> from_slice c b = Some v)"

definition json_put :: "('w, 'e) kv \<Rightarrow> 'a codec \<Rightarrow> 'x \<Rightarrow> ('e \<Rightarrow> 'x) \<Rightarrow> string \<Rightarrow> string \<Rightarrow> 'a \<Rightarrow> ('w, 'x, unit) st" where
  "json_put S c serde stor r k v =
    sbind (slift (ok_or serde (to_vec c v))) (\<lambda>b. smap_err stor (kv_put S r k b))"

definition json_get :: "('w, 'e) kv \<Rightarrow> 'a codec \<Rightarrow> 'x \<Rightarrow> ('e \<Rightarrow> 'x) \<Rightarrow> string \<Rightarrow> string \<Rightarrow> ('w, 'x, 'a option) st" where
  "json_get S c serde stor r k =
    sbind (smap_err stor (kv_get S r k)) (\<lambda>x.
    case x of
      Some b \<Rightarrow> sbind (slift (ok_or serde (from_slice c b))) (\<lambda>v. sret (Some v))
    | None \<Rightarrow> sret None)"

text \<open>What a view reads as at a type: absent, or a value that decodes.\<close>

definition reads :: "'a codec \<Rightarrow> view \<Rightarrow> string \<Rightarrow> string \<Rightarrow> 'a option \<Rightarrow> bool" where
  "reads c V r k x \<longleftrightarrow>
    (case V r k of None \<Rightarrow> x = None | Some b \<Rightarrow> x \<noteq> None \<and> from_slice c b = x)"

lemma reads_None [simp]: "V r k = None \<Longrightarrow> reads c V r k x \<longleftrightarrow> x = None"
  by (simp add: reads_def)

lemma reads_Some: "reads c V r k (Some v) \<longleftrightarrow> (\<exists>b. V r k = Some b \<and> from_slice c b = Some v)"
  by (simp add: reads_def split: option.splits)

lemma reads_fun: "reads c V r k x \<Longrightarrow> reads c V r k y \<Longrightarrow> x = y"
  by (auto simp: reads_def split: option.splits)

lemma reads_upd_other [simp]:
  "(r', k') \<noteq> (r, k) \<Longrightarrow> reads c (upd V r k b) r' k' x \<longleftrightarrow> reads c V r' k' x"
  by (auto simp: reads_def)

lemma reads_upd_same [simp]: "from_slice c b = Some v \<Longrightarrow> reads c (upd V r k (Some b)) r k x \<longleftrightarrow> x = Some v"
  by (auto simp: reads_def)

text \<open>The contract.\<close>

definition at_view :: "('w \<Rightarrow> bool) \<Rightarrow> ('w \<Rightarrow> view) \<Rightarrow> view \<Rightarrow> 'w \<Rightarrow> bool" where
  "at_view ok view_of V w \<longleftrightarrow> ok w \<and> view_of w = V"

locale kv_store =
  fixes S :: "('w, 'e) kv" and N :: "string set" and ok :: "'w \<Rightarrow> bool" and view_of :: "'w \<Rightarrow> view"
  assumes put_law: "r \<in> N \<Longrightarrow> k \<in> N \<Longrightarrow> valid (at_view ok view_of V) (kv_put S r k b)
      (\<lambda>_. at_view ok view_of (upd V r k (Some b))) (at_view ok view_of V)"
    and get_law: "r \<in> N \<Longrightarrow> k \<in> N \<Longrightarrow> valid (at_view ok view_of V) (kv_get S r k)
      (\<lambda>x w. at_view ok view_of V w \<and> x = V r k) (at_view ok view_of V)"
    and delete_law: "r \<in> N \<Longrightarrow> k \<in> N \<Longrightarrow> valid (at_view ok view_of V) (kv_delete S r k)
      (\<lambda>_. at_view ok view_of (upd V r k None)) (at_view ok view_of V)"
begin

lemma json_put_valid:
  assumes "codec_law c" "r \<in> N" "k \<in> N"
  shows "valid (at_view ok view_of V) (json_put S c serde stor r k v)
    (\<lambda>_ w. \<exists>b. from_slice c b = Some v \<and> at_view ok view_of (upd V r k (Some b)) w) (at_view ok view_of V)"
  unfolding json_put_def
proof (rule valid_bind)
  show "valid (at_view ok view_of V) (slift (ok_or serde (to_vec c v)))
      (\<lambda>b w. at_view ok view_of V w \<and> from_slice c b = Some v) (at_view ok view_of V)"
    using assms(1) by (auto simp: codec_law_def ok_or_def intro!: valid_lift split: option.splits)
  fix b
  show "valid (\<lambda>w. at_view ok view_of V w \<and> from_slice c b = Some v) (smap_err stor (kv_put S r k b))
      (\<lambda>_ w. \<exists>b. from_slice c b = Some v \<and> at_view ok view_of (upd V r k (Some b)) w) (at_view ok view_of V)"
    by (rule valid_pure, rule valid_conseq [OF valid_map_err [OF put_law [OF assms(2,3)]]]) auto
qed

lemma json_get_valid:
  assumes "r \<in> N" "k \<in> N"
  shows "valid (at_view ok view_of V) (json_get S c serde stor r k) (\<lambda>x w. at_view ok view_of V w \<and> reads c V r k x) (at_view ok view_of V)"
  unfolding json_get_def
proof (rule valid_bind [where R = "\<lambda>x w. at_view ok view_of V w \<and> x = V r k"])
  show "valid (at_view ok view_of V) (smap_err stor (kv_get S r k)) (\<lambda>x w. at_view ok view_of V w \<and> x = V r k) (at_view ok view_of V)"
    by (rule valid_map_err [OF get_law [OF assms]])
  show "valid (\<lambda>w. at_view ok view_of V w \<and> x = V r k)
      (case x of Some b \<Rightarrow> sbind (slift (ok_or serde (from_slice c b))) (\<lambda>v. sret (Some v)) | None \<Rightarrow> sret None)
      (\<lambda>x w. at_view ok view_of V w \<and> reads c V r k x) (at_view ok view_of V)" for x
    by (cases x) (auto simp: valid_def reads_def sbind_eq_Ok sbind_eq_Err ok_or_def split: option.splits)
qed

lemma delete_valid:
  assumes "r \<in> N" "k \<in> N"
  shows "valid (at_view ok view_of V) (smap_err stor (kv_delete S r k)) (\<lambda>_. at_view ok view_of (upd V r k None)) (at_view ok view_of V)"
  by (rule valid_map_err [OF delete_law [OF assms]])

text \<open>The same facts for one successful run.\<close>

lemma json_put_Ok:
  assumes "json_put S c serde stor r k v w = (Ok u, w')" "ok w" "codec_law c" "r \<in> N" "k \<in> N"
  obtains b where "from_slice c b = Some v" "ok w'" "view_of w' = upd (view_of w) r k (Some b)"
  using valid_Ok [OF json_put_valid [OF assms(3-5)] _ assms(1), of "view_of w"] assms(2) that
  unfolding at_view_def by blast

lemma json_get_Ok:
  assumes "json_get S c serde stor r k w = (Ok x, w')" "ok w" "r \<in> N" "k \<in> N"
  shows "ok w' \<and> view_of w' = view_of w \<and> reads c (view_of w) r k x"
  using valid_Ok [OF json_get_valid [OF assms(3,4)] _ assms(1), of "view_of w"] assms(2)
  unfolding at_view_def by blast

lemma delete_Ok:
  assumes "smap_err stor (kv_delete S r k) w = (Ok u, w')" "ok w" "r \<in> N" "k \<in> N"
  shows "ok w' \<and> view_of w' = upd (view_of w) r k None"
  using valid_Ok [OF delete_valid [OF assms(3,4)] _ assms(1), of "view_of w"] assms(2)
  unfolding at_view_def by blast

end

text \<open>A store on a disk that works: reading returns.\<close>

locale kv_store_live = kv_store +
  fixes works :: "'a \<Rightarrow> bool"
  assumes get_returns: "works w \<Longrightarrow> ok w \<Longrightarrow> r \<in> N \<Longrightarrow> k \<in> N \<Longrightarrow>
    \<exists>w'. kv_get S r k w = (Ok (view_of w r k), w') \<and> works w'"
begin

lemma json_get_returns:
  assumes "works w" "ok w" "r \<in> N" "k \<in> N" "reads c (view_of w) r k x"
  obtains w' where "json_get S c serde stor r k w = (Ok x, w')" "works w'" "ok w'" "view_of w' = view_of w"
proof -
  obtain w' where w': "kv_get S r k w = (Ok (view_of w r k), w')" "works w'" using get_returns assms by blast
  have "ok w' \<and> view_of w' = view_of w"
    using valid_Ok [OF get_law [OF assms(3,4), of "view_of w"] _ w'(1)] assms(2) by (simp add: at_view_def)
  moreover have "json_get S c serde stor r k w = (Ok x, w')"
    using w'(1) assms(5)
    by (auto simp: json_get_def sbind_def smap_err_def reads_def split: option.splits)
  ultimately show thesis using that w'(2) by blast
qed

end

end
