(* ===== verification/Attest.thy ===== *)
theory Attest
  imports Crypto KV
begin

text \<open>
  Remote attestation: \<open>crates/secgit-attest/src/lib.rs\<close>, \<open>mock.rs\<close>, \<open>tdx.rs\<close> and \<open>snp.rs\<close> (the chain of
  certificates, \<open>vcek.rs\<close>, is in the theory \<open>Vcek\<close>).

  The algorithms that are third-party code (SHA-512, the ECDSA-P384 verifier) are the fields of \<open>tee_lib\<close>;
  serde_json at \<open>MockReport\<close> is a codec. A verifier may resolve the key of a chip from a cache or the
  network, so verification is a computation on the state \<open>'w\<close> of that resolver.
\<close>

section \<open>lib.rs\<close>

datatype AttestError =
    Unavailable string
  | Malformed string
  | Rejected string
  | ReportDataMismatch
  | MeasurementNotAllowed
  | VmplNotAllowed
  | Unsupported string
  | Io

datatype TeeBackend = Mock | SevSnp | Tdx

record tee_lib =
  sha512 :: "bytes \<Rightarrow> bytes"
  p384_verify :: "bytes \<Rightarrow> bytes \<Rightarrow> bytes \<Rightarrow> bool"

text \<open>\<open>ReportData\<close> is its 64 bytes.\<close>

definition ReportData_bind :: "tee_lib \<Rightarrow> bytes \<Rightarrow> bytes \<Rightarrow> bytes" where
  "ReportData_bind T nonce tee_pubkey = sha512 T (nonce @ tee_pubkey)"

definition ReportData_zeroed :: bytes where
  "ReportData_zeroed = replicate 64 0"

record Evidence =
  ev_backend :: TeeBackend
  ev_report :: bytes
  ev_runtime_pubkey :: bytes

text \<open>The free-form facts of a claim, per backend.\<close>

datatype extra = MockExtra | SnpExtra u32 u32 u64 string string

record Claims =
  cl_backend :: TeeBackend
  cl_measurement :: bytes
  cl_report_data :: bytes
  cl_vendor_verified :: bool
  cl_extra :: extra

record Policy =
  allowed_measurements :: "bytes list"
  require_vendor_root :: bool
  expected_vmpl :: "u32 option"

definition dev_permissive :: Policy where
  "dev_permissive = \<lparr>allowed_measurements = [], require_vendor_root = False, expected_vmpl = None\<rparr>"

definition measurement_allowed :: "Policy \<Rightarrow> bytes \<Rightarrow> bool" where
  "measurement_allowed p m \<longleftrightarrow> allowed_measurements p = [] \<or> list_ex (\<lambda>a. a = m) (allowed_measurements p)"

definition vmpl_allowed :: "Policy \<Rightarrow> u32 \<Rightarrow> bool" where
  "vmpl_allowed p vmpl \<longleftrightarrow> (case expected_vmpl p of None \<Rightarrow> True | Some e \<Rightarrow> e = vmpl)"

section \<open>mock.rs\<close>

definition DEV_HMAC_KEY :: bytes where
  "DEV_HMAC_KEY = as_bytes ''secgit-mock-tee-development-key-DO-NOT-USE-IN-PROD''"

definition MOCK_MEASUREMENT :: bytes where
  "MOCK_MEASUREMENT = replicate 32 0x5e"

record MockReport =
  mr_measurement :: string
  mr_report_data :: string
  mr_mac :: string

definition mac_over :: "backend \<Rightarrow> bytes \<Rightarrow> bytes \<Rightarrow> bytes" where
  "mac_over B measurement report_data = hmac256 B DEV_HMAC_KEY (measurement @ report_data)"

definition mock_get_evidence ::
  "backend \<Rightarrow> MockReport codec \<Rightarrow> bytes \<Rightarrow> bytes \<Rightarrow> (AttestError, Evidence) result" where
  "mock_get_evidence B J measurement report_data =
    (let report = \<lparr>mr_measurement = hex_encode B measurement, mr_report_data = hex_encode B report_data,
                   mr_mac = hex_encode B (mac_over B measurement report_data)\<rparr> in
     rbind (ok_or (AttestError.Malformed ''mock encode'') (to_vec J report)) (\<lambda>bytes.
     Ok \<lparr>ev_backend = Mock, ev_report = bytes, ev_runtime_pubkey = []\<rparr>))"

definition mock_verify ::
  "backend \<Rightarrow> MockReport codec \<Rightarrow> Evidence \<Rightarrow> bytes \<Rightarrow> Policy \<Rightarrow> (AttestError, Claims) result" where
  "mock_verify B J evidence expected policy =
    (if ev_backend evidence \<noteq> Mock then Err (AttestError.Malformed ''not mock evidence'') else
     rbind (ok_or (AttestError.Malformed ''mock decode'') (from_slice J (ev_report evidence))) (\<lambda>report.
     rbind (ok_or (AttestError.Malformed ''mock measurement'') (hex_decode B (mr_measurement report))) (\<lambda>measurement.
     rbind (ok_or (AttestError.Malformed ''mock report_data'') (hex_decode B (mr_report_data report))) (\<lambda>rd.
     if length rd \<noteq> 64 then Err (AttestError.Malformed ''mock report_data len'') else
     rbind (ok_or (AttestError.Malformed ''mock mac'') (hex_decode B (mr_mac report))) (\<lambda>mac.
     if \<not> ct_eq mac (mac_over B measurement rd) then Err (Rejected ''mock mac mismatch'')
     else if rd \<noteq> expected then Err ReportDataMismatch
     else if require_vendor_root policy then Err (Rejected ''mock cannot satisfy vendor-root policy'')
     else if \<not> measurement_allowed policy measurement then Err MeasurementNotAllowed
     else Ok \<lparr>cl_backend = Mock, cl_measurement = measurement, cl_report_data = rd,
              cl_vendor_verified = False, cl_extra = MockExtra\<rparr>)))))"

section \<open>snp.rs: the report\<close>

definition OFF_VERSION :: nat where "OFF_VERSION = 0x000"
definition OFF_VMPL :: nat where "OFF_VMPL = 0x030"
definition OFF_REPORT_DATA :: nat where "OFF_REPORT_DATA = 0x050"
definition OFF_MEASUREMENT :: nat where "OFF_MEASUREMENT = 0x090"
definition OFF_HOST_DATA :: nat where "OFF_HOST_DATA = 0x0C0"
definition OFF_REPORTED_TCB :: nat where "OFF_REPORTED_TCB = 0x180"
definition OFF_CHIP_ID :: nat where "OFF_CHIP_ID = 0x1A0"
definition OFF_SIGNATURE :: nat where "OFF_SIGNATURE = 0x2A0"
definition SIG_FIELD_LEN :: nat where "SIG_FIELD_LEN = 512"
definition REPORT_MIN_LEN :: nat where "REPORT_MIN_LEN = OFF_SIGNATURE + SIG_FIELD_LEN"
definition SNP_SIG_COMPONENT :: nat where "SNP_SIG_COMPONENT = 72"
definition P384_COMPONENT :: nat where "P384_COMPONENT = 48"

lemmas snp_offsets = OFF_VERSION_def OFF_VMPL_def OFF_REPORT_DATA_def OFF_MEASUREMENT_def OFF_HOST_DATA_def
  OFF_REPORTED_TCB_def OFF_CHIP_ID_def OFF_SIGNATURE_def SIG_FIELD_LEN_def REPORT_MIN_LEN_def
  SNP_SIG_COMPONENT_def P384_COMPONENT_def

record SnpReport =
  sr_version :: u32
  sr_vmpl :: u32
  sr_report_data :: bytes
  sr_measurement :: bytes
  sr_host_data :: bytes
  sr_reported_tcb :: u64
  sr_chip_id :: bytes
  sr_signed_data :: bytes
  sr_signature_be :: bytes

definition le_field_to_be :: "bytes \<Rightarrow> bytes" where
  "le_field_to_be field = map (\<lambda>i. field ! (P384_COMPONENT - 1 - i)) [0..<P384_COMPONENT]"

definition be_to_le_field :: "bytes \<Rightarrow> bytes" where
  "be_to_le_field be =
    map (\<lambda>i. if i < P384_COMPONENT then be ! (P384_COMPONENT - 1 - i) else 0) [0..<SNP_SIG_COMPONENT]"

definition parse_report :: "bytes \<Rightarrow> (AttestError, SnpReport) result" where
  "parse_report bytes =
    (if length bytes < REPORT_MIN_LEN then Err (AttestError.Malformed ''snp report too short'') else
     let sig = slice OFF_SIGNATURE SIG_FIELD_LEN bytes;
         r_be = le_field_to_be (slice 0 SNP_SIG_COMPONENT sig);
         s_be = le_field_to_be (slice SNP_SIG_COMPONENT SNP_SIG_COMPONENT sig)
     in Ok \<lparr>sr_version = le_word (slice OFF_VERSION 4 bytes),
            sr_vmpl = le_word (slice OFF_VMPL 4 bytes),
            sr_report_data = slice OFF_REPORT_DATA 64 bytes,
            sr_measurement = slice OFF_MEASUREMENT 48 bytes,
            sr_host_data = slice OFF_HOST_DATA 32 bytes,
            sr_reported_tcb = le_word (slice OFF_REPORTED_TCB 8 bytes),
            sr_chip_id = slice OFF_CHIP_ID 64 bytes,
            sr_signed_data = slice 0 OFF_SIGNATURE bytes,
            sr_signature_be = r_be @ s_be\<rparr>)"

text \<open>A \<open>VcekKey\<close> is its uncompressed point.\<close>

type_synonym VcekKey = bytes

definition verify_report_signature :: "tee_lib \<Rightarrow> SnpReport \<Rightarrow> VcekKey \<Rightarrow> bool" where
  "verify_report_signature T report vcek = p384_verify T vcek (sr_signed_data report) (sr_signature_be report)"

section \<open>snp.rs: the guest\<close>

text \<open>The report interface of the kernel: whether it is there, which entries exist, which calls succeed and
  the report it returns for a challenge.\<close>

record tsm =
  tsm_present :: bool
  tsm_entries :: "string set"
  tsm_create_ok :: bool
  tsm_write_ok :: bool
  tsm_outblob :: "bytes \<Rightarrow> bytes option"

definition tsm_cleanup :: "string \<Rightarrow> tsm \<Rightarrow> tsm" where
  "tsm_cleanup e t = t\<lparr>tsm_entries := tsm_entries t - {e}\<rparr>"

definition snp_get_evidence :: "bytes \<Rightarrow> string \<Rightarrow> bytes \<Rightarrow> (tsm, AttestError, Evidence) st" where
  "snp_get_evidence runtime_pubkey unique report_data t =
    (if \<not> tsm_present t then
       (Err (Unavailable ''configfs-tsm not present (need SEV-SNP guest, kernel 6.7+)''), t)
     else if \<not> tsm_create_ok t \<or> unique \<in> tsm_entries t then (Err Io, t)
     else let t1 = t\<lparr>tsm_entries := insert unique (tsm_entries t)\<rparr> in
       if \<not> tsm_write_ok t1 then (Err Io, tsm_cleanup unique t1)
       else case tsm_outblob t1 report_data of
         None \<Rightarrow> (Err Io, tsm_cleanup unique t1)
       | Some outblob \<Rightarrow>
           (Ok \<lparr>ev_backend = SevSnp, ev_report = outblob, ev_runtime_pubkey = runtime_pubkey\<rparr>,
            tsm_cleanup unique t1))"

definition tdx_get_evidence :: "bytes \<Rightarrow> (AttestError, Evidence) result" where
  "tdx_get_evidence report_data =
    Err (Unsupported ''TDX quote retrieval not implemented yet (configfs-tsm tdx_guest)'')"

text \<open>The attester trait, with the state of the report interface, and \<open>detect_attester\<close>.\<close>

datatype Attester = MockAttester bytes | SnpAttester bytes | TdxAttester

definition get_evidence ::
  "backend \<Rightarrow> MockReport codec \<Rightarrow> string \<Rightarrow> Attester \<Rightarrow> bytes \<Rightarrow> (tsm, AttestError, Evidence) st" where
  "get_evidence B J unique a report_data =
    (case a of
       MockAttester measurement \<Rightarrow> slift (mock_get_evidence B J measurement report_data)
     | SnpAttester pubkey \<Rightarrow> snp_get_evidence pubkey unique report_data
     | TdxAttester \<Rightarrow> slift (tdx_get_evidence report_data))"

definition detect_attester :: "tsm \<Rightarrow> Attester" where
  "detect_attester t = (if tsm_present t then SnpAttester [] else MockAttester MOCK_MEASUREMENT)"

section \<open>snp.rs: the verifier\<close>

record 'w SnpVerifier =
  sv_vcek :: "VcekKey option"
  sv_resolver :: "(bytes \<Rightarrow> u64 \<Rightarrow> ('w, AttestError, VcekKey) st) option"

definition snp_vcek :: "'w SnpVerifier \<Rightarrow> SnpReport \<Rightarrow> ('w, AttestError, VcekKey option) st" where
  "snp_vcek v report =
    (case sv_vcek v of
       Some k \<Rightarrow> sret (Some k)
     | None \<Rightarrow>
         (case sv_resolver v of
            Some r \<Rightarrow> sbind (r (sr_chip_id report) (sr_reported_tcb report)) (\<lambda>k. sret (Some k))
          | None \<Rightarrow> sret None))"

definition snp_verify ::
  "backend \<Rightarrow> tee_lib \<Rightarrow> 'w SnpVerifier \<Rightarrow> Evidence \<Rightarrow> bytes \<Rightarrow> Policy \<Rightarrow> ('w, AttestError, Claims) st" where
  "snp_verify B T v evidence expected policy =
    (if ev_backend evidence \<noteq> SevSnp then sfail (AttestError.Malformed ''not snp evidence'') else
     sbind (slift (parse_report (ev_report evidence))) (\<lambda>report.
     if sr_report_data report \<noteq> expected then sfail ReportDataMismatch else
     sbind (snp_vcek v report) (\<lambda>vcek.
     let vendor_verified = (case vcek of Some k \<Rightarrow> verify_report_signature T report k | None \<Rightarrow> False) in
     if require_vendor_root policy \<and> \<not> vendor_verified
       then sfail (Rejected ''report did not verify against a genuine AMD VCEK'')
     else if \<not> vmpl_allowed policy (sr_vmpl report) then sfail VmplNotAllowed
     else if \<not> measurement_allowed policy (sr_measurement report) then sfail MeasurementNotAllowed
     else sret \<lparr>cl_backend = SevSnp, cl_measurement = sr_measurement report,
                cl_report_data = sr_report_data report, cl_vendor_verified = vendor_verified,
                cl_extra = SnpExtra (sr_version report) (sr_vmpl report) (sr_reported_tcb report)
                  (hex_encode B (sr_chip_id report)) (hex_encode B (sr_host_data report))\<rparr>)))"

definition tdx_verify :: "Evidence \<Rightarrow> bytes \<Rightarrow> Policy \<Rightarrow> (AttestError, Claims) result" where
  "tdx_verify e expected policy =
    Err (Unsupported ''TDX quote verification (DCAP cert chain) not implemented yet'')"

datatype 'w Verifier = MockVerifier | SnpV "'w SnpVerifier" | TdxVerifier

definition verify ::
  "backend \<Rightarrow> tee_lib \<Rightarrow> MockReport codec \<Rightarrow> 'w Verifier \<Rightarrow> Evidence \<Rightarrow> bytes \<Rightarrow> Policy \<Rightarrow>
    ('w, AttestError, Claims) st" where
  "verify B T J v evidence expected policy =
    (case v of
       MockVerifier \<Rightarrow> slift (mock_verify B J evidence expected policy)
     | SnpV sv \<Rightarrow> snp_verify B T sv evidence expected policy
     | TdxVerifier \<Rightarrow> slift (tdx_verify evidence expected policy))"

section \<open>Verification of a report\<close>

lemma le_field_to_be_rev: "P384_COMPONENT \<le> length f \<Longrightarrow> le_field_to_be f = rev (take P384_COMPONENT f)"
  by (rule nth_equalityI) (simp_all add: le_field_to_be_def rev_nth)

lemma le_field_roundtrip: "length be = P384_COMPONENT \<Longrightarrow> le_field_to_be (be_to_le_field be) = be"
  by (rule nth_equalityI) (auto simp: le_field_to_be_def be_to_le_field_def snp_offsets)

lemma parse_report_Ok:
  "parse_report b = Ok r \<longleftrightarrow> REPORT_MIN_LEN \<le> length b \<and>
    r = \<lparr>sr_version = le_word (slice OFF_VERSION 4 b), sr_vmpl = le_word (slice OFF_VMPL 4 b),
      sr_report_data = slice OFF_REPORT_DATA 64 b, sr_measurement = slice OFF_MEASUREMENT 48 b,
      sr_host_data = slice OFF_HOST_DATA 32 b, sr_reported_tcb = le_word (slice OFF_REPORTED_TCB 8 b),
      sr_chip_id = slice OFF_CHIP_ID 64 b, sr_signed_data = slice 0 OFF_SIGNATURE b,
      sr_signature_be = le_field_to_be (slice 0 SNP_SIG_COMPONENT (slice OFF_SIGNATURE SIG_FIELD_LEN b)) @
        le_field_to_be (slice SNP_SIG_COMPONENT SNP_SIG_COMPONENT (slice OFF_SIGNATURE SIG_FIELD_LEN b))\<rparr>"
  by (auto simp: parse_report_def Let_def)

lemma slice_slice: "off + n \<le> m \<Longrightarrow> slice off n (slice 0 m b) = slice off n b"
  by (simp add: slice_def drop_take min_def)

text \<open>C27: nothing a policy looks at is outside the signature. Two reports with the same signed part have the
  same privilege level, report data, measurement, chip, host data and platform version, and all sizes
  are those of the field types.\<close>

theorem report_fields_signed:
  assumes "parse_report b = Ok r" "parse_report b' = Ok r'" "sr_signed_data r = sr_signed_data r'"
  shows "r' = r\<lparr>sr_signature_be := sr_signature_be r'\<rparr> \<and> length (sr_report_data r) = 64
    \<and> length (sr_measurement r) = 48 \<and> length (sr_chip_id r) = 64 \<and> length (sr_signature_be r) = 96"
proof -
  have eq: "slice off n b = slice off n b'" if "off + n \<le> OFF_SIGNATURE" for off n
    using assms that slice_slice [OF that, of b] slice_slice [OF that, of b']
    by (simp add: parse_report_Ok)
  then have "slice off n b = slice off n b'" if "(off, n) \<in> {(OFF_VERSION, 4), (OFF_VMPL, 4),
      (OFF_REPORT_DATA, 64), (OFF_MEASUREMENT, 48), (OFF_HOST_DATA, 32), (OFF_REPORTED_TCB, 8), (OFF_CHIP_ID, 64),
      (0, OFF_SIGNATURE)}" for off n
    using that by (auto simp: snp_offsets)
  moreover have "length (le_field_to_be f) = 48" for f by (simp add: le_field_to_be_def snp_offsets)
  ultimately show ?thesis using assms by (auto simp: parse_report_Ok snp_offsets)
qed

definition demo_report :: bytes where
  "demo_report = replicate 1184 0"

theorem report_fields_signed_witness:
  "\<exists>r. parse_report demo_report = Ok r \<and> length (sr_measurement r) = 48 \<and> length (sr_signature_be r) = 96"
proof -
  obtain r where r: "parse_report demo_report = Ok r"
    by (simp add: parse_report_Ok demo_report_def snp_offsets)
  then show ?thesis using report_fields_signed [OF r r] by blast
qed

text \<open>An accepted SNP report.\<close>

definition snp_accepted :: "tee_lib \<Rightarrow> VcekKey option \<Rightarrow> bytes \<Rightarrow> Policy \<Rightarrow> SnpReport \<Rightarrow> bool" where
  "snp_accepted T vcek expected policy report \<longleftrightarrow>
    sr_report_data report = expected
    \<and> (require_vendor_root policy \<longrightarrow> (\<exists>k. vcek = Some k \<and> verify_report_signature T report k))
    \<and> vmpl_allowed policy (sr_vmpl report) \<and> measurement_allowed policy (sr_measurement report)"

lemma snp_verify_Ok:
  assumes "snp_verify B T v ev expected policy w = (Ok cl, w')"
  obtains report vcek where "ev_backend ev = SevSnp" "parse_report (ev_report ev) = Ok report"
    "snp_vcek v report w = (Ok vcek, w')" "snp_accepted T vcek expected policy report"
    "cl_measurement cl = sr_measurement report" "cl_report_data cl = sr_report_data report"
  using assms
  by (auto simp: snp_verify_def Let_def sbind_eq_Ok snp_accepted_def split: if_splits option.splits)

lemma snp_vcek_resolved:
  assumes "snp_vcek v report w = (Ok vcek, w')" "sv_vcek v = None" "sv_resolver v = Some r"
  obtains k where "r (sr_chip_id report) (sr_reported_tcb report) w = (Ok k, w')" "vcek = Some k"
  using assms by (auto simp: snp_vcek_def sbind_eq_Ok)

lemma mock_verify_Ok:
  assumes "mock_verify B J ev expected policy = Ok cl"
  shows "ev_backend ev = Mock \<and> cl_report_data cl = expected \<and> \<not> require_vendor_root policy
    \<and> measurement_allowed policy (cl_measurement cl) \<and> \<not> cl_vendor_verified cl"
  using assms
  by (auto simp: mock_verify_def rbind_def ok_or_def split: if_splits option.splits sum.splits)

lemma mock_roundtrip:
  assumes "codec_law J" "hex_law B" "length expected = 64" "measurement_allowed policy m"
    "\<not> require_vendor_root policy" "mock_get_evidence B J m expected = Ok ev"
  shows "\<exists>cl. mock_verify B J ev expected policy = Ok cl \<and> cl_measurement cl = m"
proof -
  obtain b where b: "from_slice J b = Some \<lparr>mr_measurement = hex_encode B m, mr_report_data = hex_encode B expected,
      mr_mac = hex_encode B (mac_over B m expected)\<rparr>" "ev = \<lparr>ev_backend = Mock, ev_report = b, ev_runtime_pubkey = []\<rparr>"
    using assms(1,6)
    by (auto simp: mock_get_evidence_def Let_def rbind_def ok_or_def codec_law_def split: option.splits)
  have "ct_eq x x" for x by (simp add: ct_eq_def ct_diff_0)
  moreover have "hex_decode B (hex_encode B x) = Some x" for x using assms(2) by (simp add: hex_law_def)
  ultimately show ?thesis using assms(3-5) b by (simp add: mock_verify_def ok_or_def)
qed

text \<open>The guest leaves no entry behind in the kernel's report interface.\<close>

lemma snp_get_evidence_cleans:
  "tsm_entries (snd (snp_get_evidence pk unique rd t)) = tsm_entries t"
  by (auto simp: snp_get_evidence_def Let_def tsm_cleanup_def split: option.splits)

end
