(* ===== verification/Vcek.thy ===== *)
theory Vcek
  imports Attest Reference_Backend
begin

text \<open>
  The chain of trust of an SNP report, \<open>crates/secgit-attest/src/vcek.rs\<close>: the pinned root, the cached or
  fetched certificates, their signatures, and revocation.

  Certificate parsing (x509-cert) and the RSA-PSS verifier are third-party code, the fields of \<open>x509_lib\<close>; a
  \<open>Certificate\<close> and a \<open>CertificateList\<close> are what the code reads of the parsed values (\<open>c_tbs\<close> is \<open>to_der\<close> of
  the signed part). \<open>fetch\<close> is the injected HTTP getter. The state is the directory of the cache, with the
  age of its files, and the clock.
\<close>

section \<open>Certificates\<close>

record Certificate =
  c_sig_alg :: string
  c_spki_alg :: string
  c_spki_key :: bytes
  c_tbs :: "bytes option"
  c_sig :: bytes
  c_issuer :: string
  c_subject :: string
  c_serial :: bytes

record CertificateList =
  crl_sig_alg :: string
  crl_issuer :: string
  crl_tbs :: "bytes option"
  crl_sig :: bytes
  crl_revoked :: "bytes list option"
  crl_next_update :: "u64 option"

datatype Product = Milan | Genoa

record x509_lib =
  cert_from_der :: "bytes \<Rightarrow> Certificate option"
  cert_from_pem :: "string \<Rightarrow> Certificate option"
  crl_from_der :: "bytes \<Rightarrow> CertificateList option"
  pss_verify :: "bytes \<Rightarrow> bytes \<Rightarrow> bytes \<Rightarrow> bool"
  utf8_lossy :: "bytes \<Rightarrow> string"
  ark_pem :: "Product \<Rightarrow> string"

definition OID_RSASSA_PSS :: string where "OID_RSASSA_PSS = ''1.2.840.113549.1.1.10''"
definition OID_EC_PUBLIC_KEY :: string where "OID_EC_PUBLIC_KEY = ''1.2.840.10045.2.1''"
definition P384_POINT_LEN :: nat where "P384_POINT_LEN = 97"

definition product_as_str :: "Product \<Rightarrow> string" where
  "product_as_str p = (case p of Milan \<Rightarrow> ''Milan'' | Genoa \<Rightarrow> ''Genoa'')"

definition product_parse :: "string \<Rightarrow> Product option" where
  "product_parse s =
    (let l = ascii_lower s in if l = ''milan'' then Some Milan else if l = ''genoa'' then Some Genoa else None)"

record Tcb =
  tcb_bootloader :: byte
  tcb_tee :: byte
  tcb_snp :: byte
  tcb_microcode :: byte

definition Tcb_from_reported :: "u64 \<Rightarrow> Tcb" where
  "Tcb_from_reported reported_tcb =
    (let b = le_bytes 8 reported_tcb in
     \<lparr>tcb_bootloader = b ! 0, tcb_tee = b ! 1, tcb_snp = b ! 6, tcb_microcode = b ! 7\<rparr>)"

definition dec_byte :: "byte \<Rightarrow> string" where "dec_byte b = dec (unat b)"

definition kds_vcek_url :: "backend \<Rightarrow> Product \<Rightarrow> bytes \<Rightarrow> Tcb \<Rightarrow> string" where
  "kds_vcek_url B product chip_id tcb =
    ''https://kdsintf.amd.com/vcek/v1/'' @ product_as_str product @ ''/'' @ hex_encode B chip_id
    @ ''?blSPL='' @ dec_byte (tcb_bootloader tcb) @ ''&teeSPL='' @ dec_byte (tcb_tee tcb)
    @ ''&snpSPL='' @ dec_byte (tcb_snp tcb) @ ''&ucodeSPL='' @ dec_byte (tcb_microcode tcb)"

definition kds_cert_chain_url :: "Product \<Rightarrow> string" where
  "kds_cert_chain_url product = ''https://kdsintf.amd.com/vcek/v1/'' @ product_as_str product @ ''/cert_chain''"

definition kds_crl_url :: "Product \<Rightarrow> string" where
  "kds_crl_url product = ''https://kdsintf.amd.com/vcek/v1/'' @ product_as_str product @ ''/crl''"

record RevocationConfig =
  rc_enabled :: bool
  rc_max_crl_age_secs :: u64

definition RevocationConfig_default :: RevocationConfig where
  "RevocationConfig_default = \<lparr>rc_enabled = True, rc_max_crl_age_secs = 24 * 3600\<rparr>"

definition parse_cert_der :: "x509_lib \<Rightarrow> bytes \<Rightarrow> (AttestError, Certificate) result" where
  "parse_cert_der X der = ok_or (AttestError.Malformed ''invalid DER certificate'') (cert_from_der X der)"

definition parse_cert_pem :: "x509_lib \<Rightarrow> string \<Rightarrow> (AttestError, Certificate) result" where
  "parse_cert_pem X pem = ok_or (AttestError.Malformed ''invalid PEM certificate'') (cert_from_pem X pem)"

text \<open>The loop over the lines of a chain: the certificates so far, the current one, and whether a
  certificate has begun.\<close>

fun chain_loop ::
  "x509_lib \<Rightarrow> string list \<Rightarrow> Certificate list \<Rightarrow> string \<Rightarrow> bool \<Rightarrow> (AttestError, Certificate list) result" where
  "chain_loop X [] out cur in_cert = Ok out"
| "chain_loop X (line # lines) out cur in_cert =
    (let begins = contains ''BEGIN CERTIFICATE'' line;
         in_cert1 = (in_cert \<or> begins);
         cur1 = (if begins then [] else cur);
         cur2 = (if in_cert1 then cur1 @ line @ [NL] else cur1)
     in if contains ''END CERTIFICATE'' line
        then rbind (parse_cert_pem X cur2) (\<lambda>c. chain_loop X lines (out @ [c]) cur2 False)
        else chain_loop X lines out cur2 in_cert1)"

definition parse_cert_chain_pem :: "x509_lib \<Rightarrow> string \<Rightarrow> (AttestError, Certificate list) result" where
  "parse_cert_chain_pem X pem =
    rbind (chain_loop X (str_lines pem) [] [] False) (\<lambda>out.
    if out = [] then Err (AttestError.Malformed ''no certificates in chain'') else Ok out)"

definition rsa_pss_sha384_signed_by :: "x509_lib \<Rightarrow> Certificate \<Rightarrow> Certificate \<Rightarrow> (AttestError, unit) result" where
  "rsa_pss_sha384_signed_by X issuer child =
    (if c_sig_alg child \<noteq> OID_RSASSA_PSS then Err (Rejected ''certificate not signed with RSASSA-PSS'') else
     rbind (ok_or (AttestError.Malformed ''could not re-encode tbsCertificate'') (c_tbs child)) (\<lambda>tbs.
     if pss_verify X (c_spki_key issuer) tbs (c_sig child) then Ok ()
     else Err (Rejected ''certificate signature did not verify'')))"

definition issuer_matches_subject :: "Certificate \<Rightarrow> Certificate \<Rightarrow> bool" where
  "issuer_matches_subject issuer child \<longleftrightarrow> c_issuer child = c_subject issuer"

definition ec_p384_vcek :: "string \<Rightarrow> bytes \<Rightarrow> (AttestError, VcekKey) result" where
  "ec_p384_vcek alg_oid point =
    (if alg_oid \<noteq> OID_EC_PUBLIC_KEY then Err (Rejected ''VCEK leaf is not an EC public key'')
     else if length point \<noteq> P384_POINT_LEN \<or> point ! 0 \<noteq> 0x04
       then Err (Rejected ''VCEK is not an uncompressed P-384 point'')
     else Ok point)"

definition verify_vcek :: "x509_lib \<Rightarrow> Product \<Rightarrow> Certificate \<Rightarrow> Certificate \<Rightarrow> (AttestError, VcekKey) result" where
  "verify_vcek X product ask vcek =
    rbind (parse_cert_pem X (ark_pem X product)) (\<lambda>ark.
    rbind (rsa_pss_sha384_signed_by X ark ark) (\<lambda>_.
    if \<not> issuer_matches_subject ark ask then Err (Rejected ''ASK issuer does not match pinned ARK subject'') else
    rbind (rsa_pss_sha384_signed_by X ark ask) (\<lambda>_.
    if \<not> issuer_matches_subject ask vcek then Err (Rejected ''VCEK issuer does not match ASK subject'') else
    rbind (rsa_pss_sha384_signed_by X ask vcek) (\<lambda>_.
    ec_p384_vcek (c_spki_alg vcek) (c_spki_key vcek)))))"

section \<open>The cache\<close>

record vcek_world =
  vw_files :: "string \<Rightarrow> (bytes \<times> u64) option"
  vw_can_read :: "string \<Rightarrow> bool"
  vw_can_write :: "string \<Rightarrow> bool"
  vw_has_mtime :: "string \<Rightarrow> bool"
  vw_now :: u64

definition cache_get :: "string \<Rightarrow> vcek_world \<Rightarrow> bytes option" where
  "cache_get key w =
    (case vw_files w key of Some (b, _) \<Rightarrow> if vw_can_read w key then Some b else None | None \<Rightarrow> None)"

definition cache_put :: "string \<Rightarrow> bytes \<Rightarrow> (vcek_world, AttestError, unit) st" where
  "cache_put key b w =
    (if vw_can_write w key then (Ok (), w\<lparr>vw_files := (vw_files w)(key \<mapsto> (b, vw_now w))\<rparr>) else (Err Io, w))"

text \<open>An age that would be negative (a clock set back) counts as 0.\<close>

definition cache_get_with_age :: "string \<Rightarrow> vcek_world \<Rightarrow> (bytes \<times> u64) option" where
  "cache_get_with_age key w =
    (case vw_files w key of
       Some (b, mtime) \<Rightarrow>
         if vw_can_read w key \<and> vw_has_mtime w key then Some (b, sat_sub (vw_now w) mtime) else None
     | None \<Rightarrow> None)"

section \<open>Revocation\<close>

definition crl_signed_by :: "x509_lib \<Rightarrow> Certificate \<Rightarrow> CertificateList \<Rightarrow> (AttestError, unit) result" where
  "crl_signed_by X issuer crl =
    (if crl_sig_alg crl \<noteq> OID_RSASSA_PSS then Err (Rejected ''CRL not signed with RSASSA-PSS'')
     else if crl_issuer crl \<noteq> c_subject issuer then Err (Rejected ''CRL issuer does not match ASK subject'')
     else rbind (ok_or (AttestError.Malformed ''could not re-encode tbsCertList'') (crl_tbs crl)) (\<lambda>tbs.
       if pss_verify X (c_spki_key issuer) tbs (crl_sig crl) then Ok ()
       else Err (Rejected ''CRL signature did not verify against ASK'')))"

definition serial_revoked :: "CertificateList \<Rightarrow> bytes \<Rightarrow> bool" where
  "serial_revoked crl serial \<longleftrightarrow>
    (case crl_revoked crl of None \<Rightarrow> False | Some list \<Rightarrow> list_ex (\<lambda>rc. rc = serial) list)"

definition cached_crl_usable :: "u64 \<Rightarrow> RevocationConfig \<Rightarrow> bool" where
  "cached_crl_usable age_secs cfg \<longleftrightarrow> age_secs \<le> rc_max_crl_age_secs cfg"

definition crl_name :: "Product \<Rightarrow> string" where
  "crl_name product = ''crl-'' @ product_as_str product @ ''.der''"

type_synonym fetcher = "string \<Rightarrow> (AttestError, bytes) result"

definition usable_cached_crl :: "Product \<Rightarrow> RevocationConfig \<Rightarrow> vcek_world \<Rightarrow> bytes option" where
  "usable_cached_crl product cfg w =
    (case cache_get_with_age (crl_name product) w of
       Some (b, age) \<Rightarrow> if cached_crl_usable age cfg then Some b else None
     | None \<Rightarrow> None)"

definition obtain_crl :: "Product \<Rightarrow> fetcher \<Rightarrow> RevocationConfig \<Rightarrow> (vcek_world, AttestError, bytes) st" where
  "obtain_crl product fetch cfg w =
    (case usable_cached_crl product cfg w of
       Some b \<Rightarrow> (Ok b, w)
     | None \<Rightarrow>
         (case fetch (kds_crl_url product) of
            Ok b \<Rightarrow> sbind (cache_put (crl_name product) b) (\<lambda>_. sret b) w
          | Err fetch_err \<Rightarrow>
              (case usable_cached_crl product cfg w of
                 Some b \<Rightarrow> (Ok b, w)
               | None \<Rightarrow>
                   (Err (Rejected ''CRL unobtainable and no fresh cached CRL (failing closed on revocation)''), w))))"

definition check_revocation ::
  "x509_lib \<Rightarrow> Product \<Rightarrow> Certificate \<Rightarrow> Certificate \<Rightarrow> fetcher \<Rightarrow> RevocationConfig \<Rightarrow>
    (vcek_world, AttestError, unit) st" where
  "check_revocation X product ask vcek fetch cfg =
    (if \<not> rc_enabled cfg then sret () else
     sbind (obtain_crl product fetch cfg) (\<lambda>crl_der.
     sbind (slift (ok_or (AttestError.Malformed ''invalid DER CRL'') (crl_from_der X crl_der))) (\<lambda>crl.
     sbind (slift (crl_signed_by X ask crl)) (\<lambda>_ w.
     if (case crl_next_update crl of
           Some next_secs \<Rightarrow> sat_add next_secs (rc_max_crl_age_secs cfg) < vw_now w
         | None \<Rightarrow> False)
       then (Err (Rejected ''CRL is expired beyond the offline window (failing closed)''), w)
     else if serial_revoked crl (c_serial vcek)
       then (Err (Rejected ''VCEK is revoked (present in AMD CRL)''), w)
     else (Ok (), w)))))"

section \<open>Resolution\<close>

definition vcek_name :: "backend \<Rightarrow> Product \<Rightarrow> bytes \<Rightarrow> Tcb \<Rightarrow> string" where
  "vcek_name B product chip_id tcb =
    ''vcek-'' @ product_as_str product @ ''-'' @ hex_encode B chip_id @ ''-bl'' @ dec_byte (tcb_bootloader tcb)
    @ ''-tee'' @ dec_byte (tcb_tee tcb) @ ''-snp'' @ dec_byte (tcb_snp tcb) @ ''-uc''
    @ dec_byte (tcb_microcode tcb) @ ''.der''"

definition chain_name :: "Product \<Rightarrow> string" where
  "chain_name product = ''certchain-'' @ product_as_str product @ ''.pem''"

definition cached_or_fetched :: "string \<Rightarrow> string \<Rightarrow> fetcher \<Rightarrow> (vcek_world, AttestError, bytes) st" where
  "cached_or_fetched name url fetch w =
    (case cache_get name w of
       Some b \<Rightarrow> (Ok b, w)
     | None \<Rightarrow> sbind (slift (fetch url)) (\<lambda>b. sbind (cache_put name b) (\<lambda>_. sret b)) w)"

definition resolve_vcek ::
  "backend \<Rightarrow> x509_lib \<Rightarrow> Product \<Rightarrow> bytes \<Rightarrow> u64 \<Rightarrow> fetcher \<Rightarrow> RevocationConfig \<Rightarrow>
    (vcek_world, AttestError, VcekKey) st" where
  "resolve_vcek B X product chip_id reported_tcb fetch revocation =
    (let tcb = Tcb_from_reported reported_tcb in
     sbind (cached_or_fetched (vcek_name B product chip_id tcb) (kds_vcek_url B product chip_id tcb) fetch) (\<lambda>vcek_der.
     sbind (cached_or_fetched (chain_name product) (kds_cert_chain_url product) fetch) (\<lambda>chain_pem.
     sbind (slift (parse_cert_chain_pem X (utf8_lossy X chain_pem))) (\<lambda>chain.
     sbind (slift (ok_or (AttestError.Malformed ''empty KDS cert chain'') (case chain of [] \<Rightarrow> None | a # _ \<Rightarrow> Some a))) (\<lambda>ask.
     sbind (slift (parse_cert_der X vcek_der)) (\<lambda>vcek.
     sbind (slift (verify_vcek X product ask vcek)) (\<lambda>key.
     sbind (check_revocation X product ask vcek fetch revocation) (\<lambda>_.
     sret key))))))))"

section \<open>The chain of trust\<close>

definition signed_by :: "x509_lib \<Rightarrow> Certificate \<Rightarrow> Certificate \<Rightarrow> bool" where
  "signed_by X issuer child \<longleftrightarrow> c_sig_alg child = OID_RSASSA_PSS
    \<and> (\<exists>tbs. c_tbs child = Some tbs \<and> pss_verify X (c_spki_key issuer) tbs (c_sig child))"

definition crl_by :: "x509_lib \<Rightarrow> Certificate \<Rightarrow> CertificateList \<Rightarrow> bool" where
  "crl_by X issuer crl \<longleftrightarrow> crl_sig_alg crl = OID_RSASSA_PSS \<and> crl_issuer crl = c_subject issuer
    \<and> (\<exists>tbs. crl_tbs crl = Some tbs \<and> pss_verify X (c_spki_key issuer) tbs (crl_sig crl))"

text \<open>A key that a genuine chip of the product signs with: the leaf of a chain that starts at the pinned,
  self-signed root, and, when revocation is on, that a list signed by the intermediate key and not
  expired at \<open>now\<close> beyond the window does not revoke.\<close>

definition trusted_vcek :: "x509_lib \<Rightarrow> Product \<Rightarrow> RevocationConfig \<Rightarrow> u64 \<Rightarrow> VcekKey \<Rightarrow> bool" where
  "trusted_vcek X product cfg now key \<longleftrightarrow> (\<exists>ark ask vcek.
     cert_from_pem X (ark_pem X product) = Some ark \<and> signed_by X ark ark
     \<and> c_issuer ask = c_subject ark \<and> signed_by X ark ask
     \<and> c_issuer vcek = c_subject ask \<and> signed_by X ask vcek
     \<and> c_spki_alg vcek = OID_EC_PUBLIC_KEY \<and> key = c_spki_key vcek \<and> length key = 97 \<and> key ! 0 = 4
     \<and> (rc_enabled cfg \<longrightarrow> (\<exists>crl. crl_by X ask crl \<and> \<not> serial_revoked crl (c_serial vcek)
          \<and> (\<forall>next. crl_next_update crl = Some next \<longrightarrow> now \<le> sat_add next (rc_max_crl_age_secs cfg)))))"

lemma signed_by_Ok: "rsa_pss_sha384_signed_by X issuer child = Ok u \<longleftrightarrow> signed_by X issuer child"
  by (cases u) (auto simp: rsa_pss_sha384_signed_by_def signed_by_def rbind_def ok_or_def split: option.splits)

lemma crl_signed_by_Ok: "crl_signed_by X issuer crl = Ok u \<longleftrightarrow> crl_by X issuer crl"
  by (cases u) (auto simp: crl_signed_by_def crl_by_def rbind_def ok_or_def split: option.splits)

lemma verify_vcek_Ok:
  assumes "verify_vcek X product ask vcek = Ok key"
  obtains ark where "cert_from_pem X (ark_pem X product) = Some ark" "signed_by X ark ark"
    "c_issuer ask = c_subject ark" "signed_by X ark ask" "c_issuer vcek = c_subject ask" "signed_by X ask vcek"
    "c_spki_alg vcek = OID_EC_PUBLIC_KEY" "key = c_spki_key vcek" "length key = 97" "key ! 0 = 4"
  using assms
  by (auto simp: verify_vcek_def parse_cert_pem_def ec_p384_vcek_def issuer_matches_subject_def P384_POINT_LEN_def
      rbind_def ok_or_def signed_by_Ok split: sum.splits option.splits if_splits)

lemma obtain_crl_clock: "obtain_crl product fetch cfg w = (r, w') \<Longrightarrow> vw_now w' = vw_now w"
  by (auto simp: obtain_crl_def cache_put_def sbind_def split: option.splits sum.splits if_splits)

lemma cached_or_fetched_clock: "cached_or_fetched n u fetch w = (r, w') \<Longrightarrow> vw_now w' = vw_now w"
  by (auto simp: cached_or_fetched_def cache_put_def sbind_def split: option.splits sum.splits if_splits)

lemma check_revocation_Ok:
  assumes "check_revocation X product ask vcek fetch cfg w = (Ok u, w')" "rc_enabled cfg"
  obtains crl where "crl_by X ask crl" "\<not> serial_revoked crl (c_serial vcek)"
    "\<forall>next. crl_next_update crl = Some next \<longrightarrow> vw_now w \<le> sat_add next (rc_max_crl_age_secs cfg)"
proof -
  obtain der w1 crl where s: "obtain_crl product fetch cfg w = (Ok der, w1)" "crl_from_der X der = Some crl"
    "crl_by X ask crl"
    "\<not> (case crl_next_update crl of Some next_secs \<Rightarrow> sat_add next_secs (rc_max_crl_age_secs cfg) < vw_now w1 | None \<Rightarrow> False)"
    "\<not> serial_revoked crl (c_serial vcek)"
    using assms by (auto simp: check_revocation_def sbind_eq_Ok crl_signed_by_Ok split: if_splits)
  have "\<forall>next. crl_next_update crl = Some next \<longrightarrow> vw_now w \<le> sat_add next (rc_max_crl_age_secs cfg)"
    using s(4) obtain_crl_clock [OF s(1)] by (auto simp: not_less split: option.splits)
  then show thesis by (rule that [OF s(3,5)])
qed

lemma resolve_vcek_trusted:
  assumes "resolve_vcek B X product chip_id tcb fetch cfg w = (Ok key, w')"
  shows "trusted_vcek X product cfg (vw_now w) key"
proof -
  obtain der w1 pem w2 ask vcek where
    f: "cached_or_fetched (vcek_name B product chip_id (Tcb_from_reported tcb))
        (kds_vcek_url B product chip_id (Tcb_from_reported tcb)) fetch w = (Ok der, w1)"
      "cached_or_fetched (chain_name product) (kds_cert_chain_url product) fetch w1 = (Ok pem, w2)"
    and v: "verify_vcek X product ask vcek = Ok key"
    and r: "check_revocation X product ask vcek fetch cfg w2 = (Ok (), w')"
    using assms by (auto simp: resolve_vcek_def Let_def sbind_eq_Ok)
  have now: "vw_now w2 = vw_now w" using f by (simp add: cached_or_fetched_clock)
  have crl: "rc_enabled cfg \<longrightarrow> (\<exists>crl. crl_by X ask crl \<and> \<not> serial_revoked crl (c_serial vcek)
      \<and> (\<forall>next. crl_next_update crl = Some next \<longrightarrow> vw_now w \<le> sat_add next (rc_max_crl_age_secs cfg)))"
    using check_revocation_Ok [OF r] now by metis
  show ?thesis using v
  proof (rule verify_vcek_Ok)
    fix ark
    assume "cert_from_pem X (ark_pem X product) = Some ark" "signed_by X ark ark"
      "c_issuer ask = c_subject ark" "signed_by X ark ask" "c_issuer vcek = c_subject ask" "signed_by X ask vcek"
      "c_spki_alg vcek = OID_EC_PUBLIC_KEY" "key = c_spki_key vcek" "length key = 97" "key ! 0 = 4"
    then show ?thesis unfolding trusted_vcek_def using crl by blast
  qed
qed

section \<open>A fetched file stays\<close>

lemma names_distinct:
  "vcek_name B product chip tcb \<noteq> chain_name product'" "vcek_name B product chip tcb \<noteq> crl_name product'"
  by (simp_all add: vcek_name_def chain_name_def crl_name_def)

lemma cached_or_fetched_keeps:
  assumes "cached_or_fetched n u fetch w = (r, w')" "n \<noteq> m"
  shows "vw_files w' m = vw_files w m \<and> vw_can_read w' = vw_can_read w"
  using assms by (auto simp: cached_or_fetched_def cache_put_def sbind_def split: option.splits sum.splits if_splits)

lemma check_revocation_keeps:
  assumes "check_revocation X product ask vcek fetch cfg w = (r, w')" "crl_name product \<noteq> m"
  shows "vw_files w' m = vw_files w m \<and> vw_can_read w' = vw_can_read w"
  using assms
  by (auto simp: check_revocation_def obtain_crl_def cache_put_def sbind_def
      split: option.splits sum.splits if_splits prod.splits)

definition cached :: "string \<Rightarrow> bytes \<Rightarrow> vcek_world \<Rightarrow> bool" where
  "cached n b w \<longleftrightarrow> (\<exists>m. vw_files w n = Some (b, m)) \<and> vw_can_read w n"

lemma cached_hit: "cached n b w \<Longrightarrow> cached_or_fetched n u fetch w = (Ok b, w)"
  by (auto simp: cached_def cached_or_fetched_def cache_get_def)

lemma resolve_bad_cached:
  assumes "cached (vcek_name B product chip (Tcb_from_reported tcb)) bad w" "cert_from_der X bad = None"
  shows "\<exists>e w'. resolve_vcek B X product chip tcb fetch cfg w = (Err e, w')
    \<and> cached (vcek_name B product chip (Tcb_from_reported tcb)) bad w'"
proof -
  let ?n = "vcek_name B product chip (Tcb_from_reported tcb)"
  obtain r w1 where c: "cached_or_fetched (chain_name product) (kds_cert_chain_url product) fetch w = (r, w1)"
    by fastforce
  have "cached ?n bad w1"
    using cached_or_fetched_keeps [OF c, of ?n] names_distinct(1) [of B product chip _ product] assms(1)
    unfolding cached_def by metis
  then show ?thesis
    using assms(2) c
    by (cases r) (auto simp: resolve_vcek_def Let_def sbind_def cached_hit [OF assms(1)] parse_cert_der_def ok_or_def
        split: sum.splits option.splits)
qed


definition no_certs :: x509_lib where
  "no_certs = \<lparr>cert_from_der = (\<lambda>_. None), cert_from_pem = (\<lambda>_. None), crl_from_der = (\<lambda>_. None),
     pss_verify = (\<lambda>_ _ _. False), utf8_lossy = of_bytes, ark_pem = (\<lambda>_. [])\<rparr>"

definition blank_cache :: vcek_world where
  "blank_cache = \<lparr>vw_files = (\<lambda>_. None), vw_can_read = (\<lambda>_. True), vw_can_write = (\<lambda>_. True),
     vw_has_mtime = (\<lambda>_. True), vw_now = 1000\<rparr>"


end
