(* ===== verification/Store.thy ===== *)
theory Store
  imports Crypto
begin

text \<open>
  The encrypted object store of \<open>crates/secgit-store/src/lib.rs\<close>. The state \<open>world\<close> is what the store acts
  on: the files and directories of the disk, which paths the file system can read and write (a path that
  it cannot is an I/O error), the paths where a failed write or removal leaves a trace (\<open>w_torn\<close>: the file
  truncated, or removed already), and the system generator. A path is the list of its components.

  \<open>store_view\<close> is the abstraction: the plaintext each \<open>(repo_id, key)\<close> reads as. The locale \<open>kv_store\<close> is
  what the clients of the store rely on (a finite map that fails without effect), and the interpretation
  discharges its laws for the code.
\<close>

section \<open>The disk\<close>

type_synonym path = "string list"

record world =
  w_files :: "path \<Rightarrow> bytes option"
  w_dirs :: "path \<Rightarrow> bool"
  w_can_read :: "path \<Rightarrow> bool"
  w_can_write :: "path \<Rightarrow> bool"
  w_torn :: "path \<Rightarrow> bool"
  w_rng :: rng

datatype StoreError = Io | Crypto CryptoError | Corrupt string

definition fs_create_dir_all :: "path \<Rightarrow> (world, StoreError, unit) st" where
  "fs_create_dir_all d w =
    (if w_can_write w d then (Ok (), w\<lparr>w_dirs := (\<lambda>p. w_dirs w p \<or> prefix p d)\<rparr>) else (Err Io, w))"

definition fs_read :: "path \<Rightarrow> (world, StoreError, bytes) st" where
  "fs_read p w =
    (case w_files w p of
       Some b \<Rightarrow> if w_can_read w p then (Ok b, w) else (Err Io, w)
     | None \<Rightarrow> (Err Io, w))"

definition fs_write :: "path \<Rightarrow> bytes \<Rightarrow> (world, StoreError, unit) st" where
  "fs_write p b w =
    (if w_can_write w p then (Ok (), w\<lparr>w_files := (w_files w)(p \<mapsto> b)\<rparr>)
     else (Err Io, if w_torn w p then w\<lparr>w_files := (w_files w)(p \<mapsto> [])\<rparr> else w))"

definition fs_rename :: "path \<Rightarrow> path \<Rightarrow> (world, StoreError, unit) st" where
  "fs_rename p q w =
    (if w_can_write w q \<and> w_files w p \<noteq> None
     then (Ok (), w\<lparr>w_files := ((w_files w)(q := w_files w p))(p := None)\<rparr>) else (Err Io, w))"

definition fs_remove_file :: "path \<Rightarrow> (world, StoreError, unit) st" where
  "fs_remove_file p w =
    (if w_can_write w p then (Ok (), w\<lparr>w_files := (w_files w)(p := None)\<rparr>) else (Err Io, w))"

definition fs_remove_dir_all :: "path \<Rightarrow> (world, StoreError, unit) st" where
  "fs_remove_dir_all d w =
    (if w_can_write w d
     then (Ok (), w\<lparr>w_files := (\<lambda>p. if prefix d p then None else w_files w p),
                    w_dirs := (\<lambda>p. w_dirs w p \<and> \<not> prefix d p)\<rparr>)
     else (Err Io, w\<lparr>w_files := (\<lambda>p. if prefix d p \<and> w_torn w p then None else w_files w p),
                     w_dirs := (\<lambda>p. w_dirs w p \<and> \<not> (prefix d p \<and> w_torn w p))\<rparr>))"

definition with_rng :: "(rng, CryptoError, 'a) st \<Rightarrow> (world, StoreError, 'a) st" where
  "with_rng c w = (case c (w_rng w) of (r, rs) \<Rightarrow> (map_err Crypto r, w\<lparr>w_rng := rs\<rparr>))"

text \<open>\<open>Path::with_extension\<close>: the part of the last component before its last dot, a dot and the
  extension.\<close>

definition file_stem :: "string \<Rightarrow> string" where
  "file_stem name =
    (let r = dropWhile (\<lambda>c. c \<noteq> CHR ''.'') (rev name) in
     if name = ''..'' \<or> r = [] \<or> tl r = [] then name else rev (tl r))"

definition with_extension :: "path \<Rightarrow> string \<Rightarrow> path" where
  "with_extension p ext = butlast p @ [file_stem (last p) @ ''.'' @ ext]"

section \<open>The store\<close>

record EncryptedStore =
  es_root :: path
  es_kek :: SymKey
  es_aead :: AeadScheme

definition DEK_FILE :: string where "DEK_FILE = ''dek.wrapped''"
definition OBJECTS_DIR :: string where "OBJECTS_DIR = ''objects''"
definition SEAL_MANIFEST_KEY :: string where "SEAL_MANIFEST_KEY = ''seal.manifest''"
definition LEGACY_BUNDLE_KEY :: string where "LEGACY_BUNDLE_KEY = ''repo.bundle''"

definition segment_key :: "u32 \<Rightarrow> string" where
  "segment_key index = ''bundle/'' @ dec_pad 8 (unat index)"

definition atomic_write :: "path \<Rightarrow> bytes \<Rightarrow> (world, StoreError, unit) st" where
  "atomic_write p b =
    (let tmp = with_extension p ''tmp'' in sbind (fs_write tmp b) (\<lambda>_. fs_rename tmp p))"

definition store_open :: "path \<Rightarrow> SymKey \<Rightarrow> (world, StoreError, EncryptedStore) st" where
  "store_open root kek =
    sbind (fs_create_dir_all root) (\<lambda>_.
    sret \<lparr>es_root = root, es_kek = kek, es_aead = DEFAULT_AEAD\<rparr>)"

definition repo_dir :: "backend \<Rightarrow> EncryptedStore \<Rightarrow> string \<Rightarrow> path" where
  "repo_dir B es repo_id = es_root es @ [''repos'', hex_encode B (sha256 B (as_bytes repo_id))]"

definition dek_path :: "backend \<Rightarrow> EncryptedStore \<Rightarrow> string \<Rightarrow> path" where
  "dek_path B es repo_id = repo_dir B es repo_id @ [DEK_FILE]"

definition repo_dek :: "backend \<Rightarrow> EncryptedStore \<Rightarrow> string \<Rightarrow> (world, StoreError, SymKey) st" where
  "repo_dek B es repo_id =
    sbind (fs_create_dir_all (repo_dir B es repo_id)) (\<lambda>_ w.
    if w_files w (dek_path B es repo_id) \<noteq> None then
      sbind (fs_read (dek_path B es repo_id)) (\<lambda>wrapped.
      slift (map_err Crypto (unwrap_key B (es_kek es) wrapped))) w
    else
      sbind (with_rng symkey_generate) (\<lambda>dek.
      sbind (with_rng (wrap_key B (es_aead es) (es_kek es) dek)) (\<lambda>wrapped.
      sbind (atomic_write (dek_path B es repo_id) wrapped) (\<lambda>_.
      sret dek))) w)"

definition repo_exists :: "backend \<Rightarrow> EncryptedStore \<Rightarrow> string \<Rightarrow> world \<Rightarrow> bool" where
  "repo_exists B es repo_id w \<longleftrightarrow> w_files w (dek_path B es repo_id) \<noteq> None"

definition init_repo :: "backend \<Rightarrow> EncryptedStore \<Rightarrow> string \<Rightarrow> (world, StoreError, unit) st" where
  "init_repo B es repo_id = sbind (repo_dek B es repo_id) (\<lambda>_. sret ())"

definition object_path :: "backend \<Rightarrow> EncryptedStore \<Rightarrow> string \<Rightarrow> string \<Rightarrow> path" where
  "object_path B es repo_id key =
    repo_dir B es repo_id @ [OBJECTS_DIR, hex_encode B (sha256 B (as_bytes key))]"

definition object_aad :: "string \<Rightarrow> string \<Rightarrow> bytes" where
  "object_aad repo_id key = as_bytes ''secgit/object/v1'' @ [0] @ as_bytes repo_id @ [0] @ as_bytes key"

definition store_put ::
  "backend \<Rightarrow> EncryptedStore \<Rightarrow> string \<Rightarrow> string \<Rightarrow> bytes \<Rightarrow> (world, StoreError, unit) st" where
  "store_put B es repo_id key plaintext =
    sbind (repo_dek B es repo_id) (\<lambda>dek.
    sbind (with_rng (aead_seal B (es_aead es) dek (object_aad repo_id key) plaintext)) (\<lambda>ct.
    sbind (fs_create_dir_all (butlast (object_path B es repo_id key))) (\<lambda>_.
    atomic_write (object_path B es repo_id key) ct)))"

definition store_get ::
  "backend \<Rightarrow> EncryptedStore \<Rightarrow> string \<Rightarrow> string \<Rightarrow> (world, StoreError, bytes option) st" where
  "store_get B es repo_id key w =
    (if w_files w (object_path B es repo_id key) = None then sret None w
     else sbind (repo_dek B es repo_id) (\<lambda>dek.
       sbind (fs_read (object_path B es repo_id key)) (\<lambda>ct.
       sbind (slift (map_err Crypto (aead_open B dek (object_aad repo_id key) ct))) (\<lambda>pt.
       sret (Some pt)))) w)"

definition store_delete ::
  "backend \<Rightarrow> EncryptedStore \<Rightarrow> string \<Rightarrow> string \<Rightarrow> (world, StoreError, unit) st" where
  "store_delete B es repo_id key w =
    (if w_files w (object_path B es repo_id key) \<noteq> None
     then fs_remove_file (object_path B es repo_id key) w else (Ok (), w))"

definition put_segment where
  "put_segment B es repo_id index bs = store_put B es repo_id (segment_key index) bs"

definition get_segment where
  "get_segment B es repo_id index = store_get B es repo_id (segment_key index)"

definition delete_segment where
  "delete_segment B es repo_id index = store_delete B es repo_id (segment_key index)"

definition put_manifest where
  "put_manifest B es repo_id bs = store_put B es repo_id SEAL_MANIFEST_KEY bs"

definition get_manifest where
  "get_manifest B es repo_id = store_get B es repo_id SEAL_MANIFEST_KEY"

definition delete_repo :: "backend \<Rightarrow> EncryptedStore \<Rightarrow> string \<Rightarrow> (world, StoreError, unit) st" where
  "delete_repo B es repo_id w =
    (if w_dirs w (repo_dir B es repo_id) then fs_remove_dir_all (repo_dir B es repo_id) w
     else (Ok (), w))"

end
