(* ===== verification/Replay.thy ===== *)
theory Replay
  imports Store KV Reference_Backend
begin

text \<open>
  The replay guard of the key broker, \<open>crates/secgit-keybroker/src/replay.rs\<close>. The map of the nonces seen
  is an association list (a key occurs once); the state of a check is the guard and the disk it persists
  to. The clock is an argument, as in \<open>check_and_record_at\<close>.
\<close>

section \<open>The guard\<close>

datatype ReplayError = Stale | Replayed

type_synonym SeenState = "(string \<times> u64) list"

record ReplayGuard =
  rg_path :: path
  rg_ttl_secs :: u64
  rg_future_skew_secs :: u64
  rg_seen :: SeenState

definition DEFAULT_FUTURE_SKEW :: u64 where "DEFAULT_FUTURE_SKEW = 60"

definition guard_open :: "SeenState codec \<Rightarrow> path \<Rightarrow> u64 \<Rightarrow> world \<Rightarrow> ReplayGuard" where
  "guard_open J p ttl_secs w =
    (let state = (case fst (fs_read p w) of
                    Ok b \<Rightarrow> (case from_slice J b of Some s \<Rightarrow> s | None \<Rightarrow> [])
                  | Err _ \<Rightarrow> [])
     in \<lparr>rg_path = p, rg_ttl_secs = ttl_secs, rg_future_skew_secs = DEFAULT_FUTURE_SKEW, rg_seen = state\<rparr>)"

definition with_future_skew :: "ReplayGuard \<Rightarrow> u64 \<Rightarrow> ReplayGuard" where
  "with_future_skew g skew_secs = g\<lparr>rg_future_skew_secs := skew_secs\<rparr>"

text \<open>Errors of the disk are ignored, as in the code.\<close>

definition persist :: "SeenState codec \<Rightarrow> path \<Rightarrow> SeenState \<Rightarrow> world \<Rightarrow> world" where
  "persist J p st w =
    (case to_vec J st of
       None \<Rightarrow> w
     | Some b \<Rightarrow>
         (let w1 = (if p = [] then w else snd (fs_create_dir_all (butlast p) w));
              tmp = with_extension p ''tmp''
          in case fs_write tmp b w1 of
               (Ok _, w2) \<Rightarrow> snd (fs_rename tmp p w2)
             | (Err _, w2) \<Rightarrow> w2))"

definition check_and_record_at ::
  "backend \<Rightarrow> SeenState codec \<Rightarrow> bytes \<Rightarrow> u64 \<Rightarrow> u64 \<Rightarrow> (ReplayGuard \<times> world, ReplayError, unit) st" where
  "check_and_record_at B J nonce timestamp now = (\<lambda>(g, w).
    let floor = sat_sub now (rg_ttl_secs g) in
    if timestamp < floor \<or> sat_add now (rg_future_skew_secs g) < timestamp then (Err Stale, (g, w)) else
    let key = hex_encode B nonce;
        seen = filter (\<lambda>(_, at). floor \<le> at) (rg_seen g)
    in if map_of seen key \<noteq> None then (Err Replayed, (g\<lparr>rg_seen := seen\<rparr>, w))
       else let seen' = (key, now) # seen in
         (Ok (), (g\<lparr>rg_seen := seen'\<rparr>, persist J (rg_path g) seen' w)))"

section \<open>Histories\<close>

text \<open>The guard after further checks at times that do not decrease.\<close>

inductive guard_runs ::
  "backend \<Rightarrow> SeenState codec \<Rightarrow> u64 \<Rightarrow> ReplayGuard \<times> world \<Rightarrow> u64 \<Rightarrow> ReplayGuard \<times> world \<Rightarrow> bool"
  for B J where
  start: "guard_runs B J t s t s"
| check: "guard_runs B J t s t' s' \<Longrightarrow> t' \<le> now \<Longrightarrow>
    check_and_record_at B J nonce timestamp now s' = (r, s'') \<Longrightarrow> guard_runs B J t s now s''"

lemma check_and_record_config:
  assumes "check_and_record_at B J n ts now (g, w) = (r, (g', w'))"
  shows "rg_ttl_secs g' = rg_ttl_secs g \<and> rg_future_skew_secs g' = rg_future_skew_secs g \<and> rg_path g' = rg_path g"
  using assms by (auto simp: check_and_record_at_def Let_def split: if_splits)

lemma check_and_record_Ok:
  assumes "check_and_record_at B J n ts now (g, w) = (Ok (), (g', w'))"
  shows "\<not> ts < sat_sub now (rg_ttl_secs g)" "\<not> sat_add now (rg_future_skew_secs g) < ts"
    "map_of (filter (\<lambda>(_, at). sat_sub now (rg_ttl_secs g) \<le> at) (rg_seen g)) (hex_encode B n) = None"
    "rg_seen g' = (hex_encode B n, now) # filter (\<lambda>(_, at). sat_sub now (rg_ttl_secs g) \<le> at) (rg_seen g)"
    "w' = persist J (rg_path g) (rg_seen g') w"
  using assms by (auto simp: check_and_record_at_def Let_def split: if_splits)

text \<open>Every key is recorded once.\<close>

lemma check_and_record_distinct:
  assumes "distinct (map fst (rg_seen g))" "check_and_record_at B J n ts now (g, w) = (r, (g', w'))"
  shows "distinct (map fst (rg_seen g'))"
  using assms
  by (auto simp: check_and_record_at_def Let_def map_of_eq_None_iff distinct_map_filter split: if_splits)

lemma map_of_filter_snd:
  "distinct (map fst xs) \<Longrightarrow> map_of (filter (\<lambda>(_, a). P a) xs) k =
    (case map_of xs k of Some a \<Rightarrow> if P a then Some a else None | None \<Rightarrow> None)"
proof (induction xs)
  case (Cons x xs)
  have "fst x = k \<Longrightarrow> map_of xs k = None" using Cons.prems by (auto simp: map_of_eq_None_iff)
  with Cons show ?case by (cases x) (auto split: option.splits)
qed simp

lemma sat_sub_mono: "a \<le> b \<Longrightarrow> sat_sub a c \<le> sat_sub b c"
  by (simp add: word_le_nat_alt unat_sat_sub diff_le_mono)

lemma check_and_record_keeps:
  assumes d: "distinct (map fst (rg_seen g))"
    and run: "check_and_record_at B J n ts now (g, w) = (r, (g', w'))"
    and k: "map_of (rg_seen g) k = Some t"
  shows "map_of (rg_seen g') k = Some t \<or> t < sat_sub now (rg_ttl_secs g)"
proof (cases "t < sat_sub now (rg_ttl_secs g)")
  case False
  then have "map_of (filter (\<lambda>(_, at). sat_sub now (rg_ttl_secs g) \<le> at) (rg_seen g)) k = Some t"
    using map_of_filter_snd [OF d] k by simp
  then show ?thesis
    using run k by (auto simp: check_and_record_at_def Let_def split: if_splits)
qed simp

text \<open>After a nonce was accepted at \<open>t\<close> it is recorded at \<open>t\<close>, or \<open>t\<close> left the window.\<close>

lemma guard_runs_records:
  assumes "guard_runs B J t s t' s'"
    and "distinct (map fst (rg_seen (fst s)))" "map_of (rg_seen (fst s)) k = Some t"
  shows "rg_ttl_secs (fst s') = rg_ttl_secs (fst s) \<and> t \<le> t' \<and> distinct (map fst (rg_seen (fst s')))
    \<and> (map_of (rg_seen (fst s')) k = Some t \<or> t < sat_sub t' (rg_ttl_secs (fst s)))"
  using assms
proof (induction rule: guard_runs.induct)
  case (check t s t' s' now nonce timestamp r s'')
  obtain g w where s': "s' = (g, w)" by fastforce
  obtain g' w' where s'': "s'' = (g', w')" by fastforce
  have ih: "rg_ttl_secs g = rg_ttl_secs (fst s)" "t \<le> t'" "distinct (map fst (rg_seen g))"
    "map_of (rg_seen g) k = Some t \<or> t < sat_sub t' (rg_ttl_secs (fst s))"
    using check.IH [OF check.prems] unfolding s' fst_conv by blast+
  have run: "check_and_record_at B J nonce timestamp now (g, w) = (r, (g', w'))"
    using check.hyps(3) s' s'' by simp
  have "map_of (rg_seen g') k = Some t \<or> t < sat_sub now (rg_ttl_secs g)"
    using ih(4)
  proof
    assume "map_of (rg_seen g) k = Some t"
    then show ?thesis by (rule check_and_record_keeps [OF ih(3) run])
  next
    assume "t < sat_sub t' (rg_ttl_secs (fst s))"
    then show ?thesis
      using sat_sub_mono [OF check.hyps(2), of "rg_ttl_secs g"] unfolding ih(1)
      by (blast intro: order_less_le_trans)
  qed
  then show ?case
    using check_and_record_config [OF run] check_and_record_distinct [OF ih(3) run] ih(1,2) check.hyps(2)
    unfolding s'' fst_conv by (metis order_trans)
qed simp

section \<open>Properties\<close>

text \<open>A codec and a guard to evaluate the properties on.\<close>

definition demo_seen_json :: "SeenState codec" where
  "demo_seen_json = \<lparr>
     to_vec = (\<lambda>s. case s of [] \<Rightarrow> Some [] | [(k, v)] \<Rightarrow> Some (le_bytes 8 v @ as_bytes k) | _ \<Rightarrow> None),
     from_slice = (\<lambda>b. Some (if b = [] then [] else [(of_bytes (drop 8 b), le_word (take 8 b))]))\<rparr>"

lemma demo_seen_json_law: "codec_law demo_seen_json"
proof -
  have "le_bytes 8 v @ as_bytes k \<noteq> []" for v :: u64 and k by (simp add: numeral_eq_Suc)
  then show ?thesis
    by (auto simp: codec_law_def demo_seen_json_def le_word_le_bytes split: list.splits)
qed

definition demo_guard :: ReplayGuard where
  "demo_guard = \<lparr>rg_path = [''replay.json''], rg_ttl_secs = 300, rg_future_skew_secs = 60, rg_seen = []\<rparr>"

definition blank_disk :: world where
  "blank_disk = \<lparr>w_files = (\<lambda>_. None), w_dirs = (\<lambda>_. False), w_can_read = (\<lambda>_. True), w_can_write = (\<lambda>_. True),
     w_torn = (\<lambda>_. False), w_rng = []\<rparr>"

abbreviation demo_accepted :: ReplayGuard where
  "demo_accepted \<equiv> demo_guard\<lparr>rg_seen := [(hex_encode ref_backend [7], 1000)]\<rparr>"

lemma demo_accepts:
  "check_and_record_at ref_backend demo_seen_json [7] 1060 1000 (demo_guard, blank_disk) =
    (Ok (), (demo_accepted, persist demo_seen_json [''replay.json''] (rg_seen demo_accepted) blank_disk))"
  by (simp add: check_and_record_at_def Let_def demo_guard_def sat_sub_def sat_add_def)

text \<open>C18: the guard against replays, over a whole history. When a request was accepted at time \<open>t\<close> and, after
  any further checks at times that do not decrease, the same request (nonce and attested timestamp) is
  accepted again at \<open>t''\<close>, then more than the retention window has passed and the timestamp lay in the
  future at \<open>t\<close>: a request whose timestamp is not ahead of the broker's clock is never accepted twice.\<close>

theorem replay_refused:
  assumes "distinct (map fst (rg_seen g))"
    and "check_and_record_at B J nonce ts t (g, w) = (Ok (), s1)"
    and "guard_runs B J t s1 t' s2" "t' \<le> t''"
    and "fst (check_and_record_at B J nonce ts t'' s2) = Ok ()"
  shows "unat t + unat (rg_ttl_secs g) < unat t'' \<and> t < ts"
proof -
  obtain g1 w1 where s1: "s1 = (g1, w1)" by fastforce
  obtain g2 w2 where s2: "s2 = (g2, w2)" by fastforce
  obtain g3 w3 where last: "check_and_record_at B J nonce ts t'' (g2, w2) = (Ok (), (g3, w3))"
    using assms(5) unfolding s2 fst_eq_Ok by fast
  have first: "check_and_record_at B J nonce ts t (g, w) = (Ok (), (g1, w1))" using assms(2) s1 by simp
  have d1: "distinct (map fst (rg_seen g1))" by (rule check_and_record_distinct [OF assms(1) first])
  have k1: "map_of (rg_seen g1) (hex_encode B nonce) = Some t" using check_and_record_Ok(4) [OF first] by simp
  have run: "rg_ttl_secs g2 = rg_ttl_secs g1" "distinct (map fst (rg_seen g2))"
    "map_of (rg_seen g2) (hex_encode B nonce) = Some t \<or> t < sat_sub t' (rg_ttl_secs g1)"
    using guard_runs_records [OF assms(3) [unfolded s1 s2], unfolded fst_conv, OF d1 k1] by fast+
  have ttl: "rg_ttl_secs g1 = rg_ttl_secs g" using check_and_record_config [OF first] by simp
  have "t < sat_sub t'' (rg_ttl_secs g)"
    using run(3)
  proof
    assume k: "map_of (rg_seen g2) (hex_encode B nonce) = Some t"
    show ?thesis
      using check_and_record_Ok(3) [OF last, unfolded map_of_filter_snd [OF run(2)] k] run(1) ttl
      by (simp split: if_splits)
  next
    assume "t < sat_sub t' (rg_ttl_secs g1)"
    then have "t < sat_sub t' (rg_ttl_secs g)" by (simp only: ttl)
    then show ?thesis using sat_sub_mono [OF assms(4)] by (rule order_less_le_trans)
  qed
  note early = this
  have "\<not> ts < sat_sub t'' (rg_ttl_secs g)" using check_and_record_Ok(1) [OF last] run(1) ttl by simp
  then have "t < ts" using early by (simp add: not_less order_less_le_trans)
  then show ?thesis using early by (simp add: word_less_nat_alt unat_sat_sub less_diff_conv)
qed

theorem replay_refused_witness:
  "fst (check_and_record_at ref_backend demo_seen_json [7] 1060 1360
      (snd (check_and_record_at ref_backend demo_seen_json [7] 1060 1000 (demo_guard, blank_disk)))) = Ok ()
   \<and> unat (1000 :: u64) + unat (rg_ttl_secs demo_guard) < unat (1360 :: u64)"
proof -
  have again: "fst (check_and_record_at ref_backend demo_seen_json [7] 1060 1360
      (snd (check_and_record_at ref_backend demo_seen_json [7] 1060 1000 (demo_guard, blank_disk)))) = Ok ()"
    unfolding demo_accepts by (simp add: check_and_record_at_def Let_def demo_guard_def sat_sub_def sat_add_def)
  show ?thesis
    using replay_refused [OF _ demo_accepts guard_runs.start, where t'' = 1360] again
    unfolding demo_accepts by (simp add: demo_guard_def)
qed


text \<open>C34: the window that is left. A request accepted at \<open>t\<close> whose timestamp is ahead of the clock (by no
  more than the tolerated skew) is accepted again, unchanged, \<open>ttl\<close> seconds after its timestamp: its record
  expires, counted from the time of acceptance, before its timestamp does.\<close>

theorem future_timestamp_replayed:
  assumes "distinct (map fst (rg_seen g))"
    and "check_and_record_at B J nonce ts t (g, w) = (Ok (), s1)" "t < ts"
    and "unat ts + unat (rg_ttl_secs g) < 2 ^ 64"
  shows "fst (check_and_record_at B J nonce ts (ts + rg_ttl_secs g) s1) = Ok ()"
proof -
  obtain g1 w1 where s1: "s1 = (g1, w1)" by fastforce
  have first: "check_and_record_at B J nonce ts t (g, w) = (Ok (), (g1, w1))" using assms(2) s1 by simp
  have d1: "distinct (map fst (rg_seen g1))" by (rule check_and_record_distinct [OF assms(1) first])
  have k1: "map_of (rg_seen g1) (hex_encode B nonce) = Some t" using check_and_record_Ok(4) [OF first] by simp
  have ttl: "rg_ttl_secs g1 = rg_ttl_secs g" using check_and_record_config [OF first] by simp
  have sum: "unat (ts + rg_ttl_secs g) = unat ts + unat (rg_ttl_secs g)"
    using assms(4) by (simp add: unat_word_ariths)
  have fl: "sat_sub (ts + rg_ttl_secs g) (rg_ttl_secs g1) = ts"
    using sum by (simp add: sat_sub_def ttl word_less_nat_alt)
  have "\<not> sat_add (ts + rg_ttl_secs g) (rg_future_skew_secs g1) < ts"
  proof -
    have "unat ts < 2 ^ LENGTH(64)" by (rule unsigned_less)
    then show ?thesis using sum by (simp add: word_less_nat_alt unat_sat_add)
  qed
  moreover have "map_of (filter (\<lambda>(_, at). ts \<le> at) (rg_seen g1)) (hex_encode B nonce) = None"
    using map_of_filter_snd [OF d1, of "\<lambda>at. ts \<le> at"] k1 assms(3) by simp
  ultimately show ?thesis unfolding s1 by (simp add: check_and_record_at_def Let_def fl)
qed

theorem future_timestamp_replayed_witness:
  "fst (check_and_record_at ref_backend demo_seen_json [7] 1060 (1060 + rg_ttl_secs demo_guard)
      (demo_accepted, persist demo_seen_json [''replay.json''] (rg_seen demo_accepted) blank_disk)) = Ok ()"
  by (rule future_timestamp_replayed [OF _ demo_accepts]) (simp_all add: demo_guard_def)


text \<open>A restart does not forget. On a disk that works, the guard opened on the file after a request was
  accepted has the same records, so the nonce is refused within the window also by the new process.\<close>

theorem guard_survives_restart:
  assumes "codec_law J" "to_vec J (rg_seen g1) \<noteq> None" "\<forall>p. w_can_read w p \<and> w_can_write w p"
    and "rg_path g \<noteq> []" "with_extension (rg_path g) ''tmp'' \<noteq> rg_path g"
    and "check_and_record_at B J nonce ts t (g, w) = (Ok (), (g1, w1))"
  shows "rg_seen (guard_open J (rg_path g) (rg_ttl_secs g) w1) = rg_seen g1"
proof -
  obtain b where b: "to_vec J (rg_seen g1) = Some b" using assms(2) by blast
  have "w1 = persist J (rg_path g) (rg_seen g1) w" by (rule check_and_record_Ok(5) [OF assms(6)])
  then have "fst (fs_read (rg_path g) w1) = Ok b"
    using b assms(3-5) by (auto simp: persist_def Let_def fs_create_dir_all_def fs_write_def fs_rename_def fs_read_def)
  then show ?thesis using assms(1) b by (simp add: guard_open_def Let_def codec_law_def)
qed

theorem guard_survives_restart_witness:
  "rg_seen (guard_open demo_seen_json [''replay.json''] 300
      (persist demo_seen_json [''replay.json''] (rg_seen demo_accepted) blank_disk)) = rg_seen demo_accepted"
proof -
  have "with_extension [''replay.json''] ''tmp'' \<noteq> [''replay.json'']" by code_simp
  then show ?thesis
    using guard_survives_restart [OF demo_seen_json_law _ _ _ _ demo_accepts]
    by (simp add: demo_guard_def blank_disk_def demo_seen_json_def)
qed


end
