(* ===== verification/Store_Refinement.thy ===== *)
theory Store_Refinement
  imports Store KV Reference_Backend
begin

text \<open>
  The object store refines a map. \<open>store_view\<close> is the abstraction: the plaintext each \<open>(repo_id, key)\<close> of
  the names \<open>N\<close> reads as. Under \<open>store_law\<close> (the cipher opens what it sealed, the hexadecimal encoding is
  invertible, the hash has no collision on \<open>N\<close>, the key-encryption key has 32 bytes) every operation
  either performs its update of the map or, when it fails, leaves the map as it was: a temporary file is
  never the path of an object or a key. The interpretation discharges \<open>kv_store\<close>, the contract of the
  services, for the operations of the code.
\<close>

section \<open>Paths\<close>

definition store_law :: "backend \<Rightarrow> EncryptedStore \<Rightarrow> string set \<Rightarrow> bool" where
  "store_law B es N \<longleftrightarrow> aead_law B \<and> hex_law B \<and> inj_on (\<lambda>s. sha256 B (as_bytes s)) N \<and> length (es_kek es) = 32"

lemma store_law_hex_inj:
  "store_law B es N \<Longrightarrow> x \<in> N \<Longrightarrow> y \<in> N \<Longrightarrow>
    hex_encode B (sha256 B (as_bytes x)) = hex_encode B (sha256 B (as_bytes y)) \<longleftrightarrow> x = y"
  unfolding store_law_def hex_law_def by (metis (mono_tags, lifting) inj_onD option.inject)

lemma hex_no_dot: "hex_law B \<Longrightarrow> CHR ''.'' \<notin> set (hex_encode B x)"
  by (auto simp: hex_law_def)

lemma repo_dir_inj:
  "store_law B es N \<Longrightarrow> r \<in> N \<Longrightarrow> r' \<in> N \<Longrightarrow> repo_dir B es r = repo_dir B es r' \<longleftrightarrow> r = r'"
  by (simp add: repo_dir_def store_law_hex_inj)

lemma dek_path_neq [simp]:
  "dek_path B es r \<noteq> object_path B es r' k'" "object_path B es r' k' \<noteq> dek_path B es r"
  by (auto simp: dek_path_def object_path_def repo_dir_def)

lemma store_paths:
  assumes "store_law B es N" "r \<in> N" "r' \<in> N"
  shows "dek_path B es r = dek_path B es r' \<longleftrightarrow> r = r'"
    "k \<in> N \<Longrightarrow> k' \<in> N \<Longrightarrow> object_path B es r k = object_path B es r' k' \<longleftrightarrow> r = r' \<and> k = k'"
  using assms
  by (auto simp: dek_path_def object_path_def repo_dir_def store_law_hex_inj)

lemma file_stem_no_dot: "CHR ''.'' \<notin> set n \<Longrightarrow> file_stem n = n"
  by (auto simp: file_stem_def Let_def dropWhile_eq_Nil_conv)

lemma tmp_paths:
  "with_extension (dek_path B es r) ''tmp'' = repo_dir B es r @ [''dek.tmp'']"
  "hex_law B \<Longrightarrow> with_extension (object_path B es r k) ''tmp'' =
    repo_dir B es r @ [OBJECTS_DIR, hex_encode B (sha256 B (as_bytes k)) @ ''.tmp'']"
proof -
  have "file_stem ''dek.wrapped'' = ''dek''" by code_simp
  then show "with_extension (dek_path B es r) ''tmp'' = repo_dir B es r @ [''dek.tmp'']"
    by (simp add: with_extension_def dek_path_def DEK_FILE_def)
  show "hex_law B \<Longrightarrow> with_extension (object_path B es r k) ''tmp'' =
    repo_dir B es r @ [OBJECTS_DIR, hex_encode B (sha256 B (as_bytes k)) @ ''.tmp'']"
    by (simp add: with_extension_def object_path_def butlast_append file_stem_no_dot hex_no_dot)
qed

text \<open>A temporary file is never a store path.\<close>

definition store_path :: "backend \<Rightarrow> EncryptedStore \<Rightarrow> path \<Rightarrow> bool" where
  "store_path B es p \<longleftrightarrow> (\<exists>r. p = dek_path B es r \<or> (\<exists>k. p = object_path B es r k))"

lemma store_pathI [simp]: "store_path B es (dek_path B es r)" "store_path B es (object_path B es r k)"
  by (auto simp: store_path_def)

lemma tmp_not_store_path:
  assumes "store_law B es N" "store_path B es p"
  shows "\<not> store_path B es (with_extension p ''tmp'')"
proof -
  have h: "hex_law B" using assms(1) by (simp add: store_law_def)
  have dot: "hex_encode B x @ ''.tmp'' \<noteq> hex_encode B y" for x y
    using hex_no_dot [OF h, of y] by (metis in_set_conv_decomp append_Cons append_Nil)
  have "repo_dir B es r @ [''dek.tmp''] \<noteq> dek_path B es r'"
    "repo_dir B es r @ [''dek.tmp''] \<noteq> object_path B es r' k'"
    "repo_dir B es r @ [OBJECTS_DIR, hex_encode B x @ ''.tmp''] \<noteq> dek_path B es r'"
    "repo_dir B es r @ [OBJECTS_DIR, hex_encode B x @ ''.tmp''] \<noteq> object_path B es r' k'" for r r' x k'
    using dot by (auto simp: dek_path_def object_path_def repo_dir_def DEK_FILE_def)
  then show ?thesis using assms(2) h by (auto simp: store_path_def tmp_paths)
qed

section \<open>What the primitive steps change\<close>

text \<open>\<open>same_store\<close>: no store path changed.\<close>

definition same_store :: "backend \<Rightarrow> EncryptedStore \<Rightarrow> world \<Rightarrow> world \<Rightarrow> bool" where
  "same_store B es w w' \<longleftrightarrow> (\<forall>p. store_path B es p \<longrightarrow> w_files w' p = w_files w p)
     \<and> (\<forall>p. w_dirs w p \<longrightarrow> w_dirs w' p)"

lemma same_store_refl [simp]: "same_store B es w w"
  by (simp add: same_store_def)

lemma same_store_trans: "same_store B es w w' \<Longrightarrow> same_store B es w' w'' \<Longrightarrow> same_store B es w w''"
  by (simp add: same_store_def)

lemma fs_create_dir_all_same:
  "fs_create_dir_all d w = (r, w') \<Longrightarrow> same_store B es w w' \<and> w_files w' = w_files w"
  by (auto simp: fs_create_dir_all_def same_store_def split: if_splits)

lemma fs_create_dir_all_Ok: "fs_create_dir_all d w = (Ok u, w') \<Longrightarrow> w_dirs w' d"
  by (auto simp: fs_create_dir_all_def split: if_splits)

lemma fs_read_same: "fs_read p w = (r, w') \<Longrightarrow> w' = w"
  by (auto simp: fs_read_def split: option.splits if_splits)

lemma with_rng_same: "with_rng c w = (r, w') \<Longrightarrow> same_store B es w w' \<and> w_files w' = w_files w \<and> w_dirs w' = w_dirs w"
  by (auto simp: with_rng_def same_store_def split: prod.splits)

lemma with_rng_Ok: "with_rng c w = (Ok x, w') \<Longrightarrow> c (w_rng w) = (Ok x, w_rng w')"
  by (auto simp: with_rng_def split: prod.splits)

lemma atomic_write_spec:
  assumes "store_law B es N" "store_path B es p" "atomic_write p b w = (r, w')"
  shows "r = Ok () \<and> w_dirs w' = w_dirs w \<and>
      (\<forall>q. store_path B es q \<longrightarrow> w_files w' q = (if q = p then Some b else w_files w q))
    \<or> (\<exists>e. r = Err e) \<and> same_store B es w w'"
proof -
  define t where "t = with_extension p ''tmp''"
  have t: "\<not> store_path B es t" using tmp_not_store_path [OF assms(1,2)] by (simp add: t_def)
  then have "p \<noteq> t" using assms(2) by auto
  with t show ?thesis
    using assms(2,3) unfolding atomic_write_def Let_def t_def [symmetric]
    by (auto simp: sbind_def fs_write_def fs_rename_def same_store_def split: if_splits)
qed

section \<open>The abstraction\<close>

definition repo_key :: "backend \<Rightarrow> EncryptedStore \<Rightarrow> world \<Rightarrow> string \<Rightarrow> SymKey option" where
  "repo_key B es w r =
    (case w_files w (dek_path B es r) of None \<Rightarrow> None
     | Some wr \<Rightarrow> (case unwrap_key B (es_kek es) wr of Err e \<Rightarrow> None | Ok dek \<Rightarrow> Some dek))"

definition store_view :: "backend \<Rightarrow> EncryptedStore \<Rightarrow> string set \<Rightarrow> world \<Rightarrow> string \<Rightarrow> string \<Rightarrow> bytes option" where
  "store_view B es N w r k = (if r \<notin> N \<or> k \<notin> N then None else
    case (repo_key B es w r, w_files w (object_path B es r k)) of
       (Some dek, Some ct) \<Rightarrow>
         (case aead_open B dek (object_aad r k) ct of Err e \<Rightarrow> None | Ok pt \<Rightarrow> Some pt)
     | _ \<Rightarrow> None)"

text \<open>The invariant of the disk: a wrapped key unwraps, an object belongs to a repository with a key and
  opens under it, and a repository's directory exists.\<close>

definition store_ok :: "backend \<Rightarrow> EncryptedStore \<Rightarrow> string set \<Rightarrow> world \<Rightarrow> bool" where
  "store_ok B es N w \<longleftrightarrow> (\<forall>r \<in> N.
     (w_files w (dek_path B es r) \<noteq> None \<longrightarrow> repo_key B es w r \<noteq> None \<and> w_dirs w (repo_dir B es r))
   \<and> (\<forall>k \<in> N. w_files w (object_path B es r k) \<noteq> None \<longrightarrow> store_view B es N w r k \<noteq> None))"

lemma same_store_view:
  assumes "same_store B es w w'"
  shows "repo_key B es w' = repo_key B es w" "store_view B es N w' = store_view B es N w"
proof -
  have f: "w_files w' (dek_path B es r) = w_files w (dek_path B es r)"
    "w_files w' (object_path B es r k) = w_files w (object_path B es r k)" for r k
    using assms by (auto simp: same_store_def)
  show k: "repo_key B es w' = repo_key B es w" by (simp add: fun_eq_iff repo_key_def f)
  show "store_view B es N w' = store_view B es N w" by (simp add: fun_eq_iff store_view_def f k)
qed

lemma same_store_ok:
  assumes "same_store B es w w'" "store_ok B es N w"
  shows "store_ok B es N w'"
proof -
  have f: "w_files w' (dek_path B es r) = w_files w (dek_path B es r)"
    "w_files w' (object_path B es r k) = w_files w (object_path B es r k)"
    "w_dirs w p \<Longrightarrow> w_dirs w' p" for r k p
    using assms(1) by (auto simp: same_store_def)
  show ?thesis using assms(2) unfolding store_ok_def same_store_view [OF assms(1)] f by (blast intro: f)
qed

lemma repo_key_len: "repo_key B es w r = Some dek \<Longrightarrow> length dek = 32"
  by (auto simp: repo_key_def unwrap_key_len split: option.splits sum.splits)

lemma object_has_key:
  assumes "store_ok B es N w" "r \<in> N" "k \<in> N" "w_files w (object_path B es r k) \<noteq> None"
  obtains dek where "repo_key B es w r = Some dek"
proof -
  have "store_view B es N w r k \<noteq> None" using assms by (simp add: store_ok_def)
  then show thesis using that by (auto simp: store_view_def split: option.splits)
qed

text \<open>\<open>kept w0 w\<close>: since \<open>w0\<close> no object changed and no key was lost.\<close>

definition kept :: "backend \<Rightarrow> EncryptedStore \<Rightarrow> string set \<Rightarrow> world \<Rightarrow> world \<Rightarrow> bool" where
  "kept B es N w0 w \<longleftrightarrow> store_ok B es N w \<and> store_view B es N w = store_view B es N w0
     \<and> (\<forall>r k. w_files w (object_path B es r k) = w_files w0 (object_path B es r k))"

lemma kept_refl: "store_ok B es N w \<Longrightarrow> kept B es N w w"
  by (simp add: kept_def)

lemma kept_same: "kept B es N w0 w \<Longrightarrow> same_store B es w w' \<Longrightarrow> kept B es N w0 w'"
  by (auto simp: kept_def same_store_view same_store_ok) (simp add: same_store_def)

lemma create_dir_valid:
  "valid (kept B es N w0) (fs_create_dir_all d) (\<lambda>_ w. kept B es N w0 w \<and> w_dirs w d) (kept B es N w0)"
  by (rule validI) (use fs_create_dir_all_same [of d _ _ _ B es] fs_create_dir_all_Ok kept_same in blast)+

lemma create_dir_valid_key:
  "valid (\<lambda>w. kept B es N w0 w \<and> repo_key B es w r = Some dek) (fs_create_dir_all d)
    (\<lambda>_ w. kept B es N w0 w \<and> repo_key B es w r = Some dek) (kept B es N w0)"
  by (rule validI) (use fs_create_dir_all_same [of d _ _ _ B es] kept_same same_store_view(1) in metis)+

lemma read_valid: "valid P (fs_read p) (\<lambda>b w. P w \<and> w_files w p = Some b) P"
  by (rule validI) (auto simp: fs_read_def split: option.splits if_splits)

lemma with_rng_valid:
  assumes "\<And>w rs. I w \<Longrightarrow> I (w\<lparr>w_rng := rs\<rparr>)"
  shows "valid (\<lambda>w. kept B es N w0 w \<and> I w) (with_rng c)
    (\<lambda>x w. kept B es N w0 w \<and> I w \<and> (\<exists>rs rs'. c rs = (Ok x, rs'))) (kept B es N w0)"
proof (rule validI)
  fix w x w' assume a: "kept B es N w0 w \<and> I w" "with_rng c w = (Ok x, w')"
  then obtain rs where rs: "c (w_rng w) = (Ok x, rs)" "w' = w\<lparr>w_rng := rs\<rparr>"
    by (auto simp: with_rng_def split: prod.splits)
  have "same_store B es w w'" by (simp add: same_store_def rs(2))
  then have "kept B es N w0 w'" using a(1) kept_same by fast
  moreover have "I w'" unfolding rs(2) by (rule assms) (use a(1) in simp)
  ultimately show "kept B es N w0 w' \<and> I w' \<and> (\<exists>rs rs'. c rs = (Ok x, rs'))" using rs(1) by fast
next
  fix w e w' assume a: "kept B es N w0 w \<and> I w" "with_rng c w = (Err e, w')"
  then have "same_store B es w w'" by (auto simp: with_rng_def same_store_def split: prod.splits)
  then show "kept B es N w0 w'" using a(1) kept_same by fast
qed

lemma write_dek_valid:
  assumes law: "store_law B es N" and r: "r \<in> N" and dek: "unwrap_key B (es_kek es) wr = Ok dek"
  shows "valid (\<lambda>w. kept B es N w0 w \<and> (w_files w (dek_path B es r) = None \<and> w_dirs w (repo_dir B es r)))
    (atomic_write (dek_path B es r) wr) (\<lambda>_ w. kept B es N w0 w \<and> repo_key B es w r = Some dek)
    (kept B es N w0)"
proof (rule validI)
  fix w u w'
  assume pre: "kept B es N w0 w \<and> (w_files w (dek_path B es r) = None \<and> w_dirs w (repo_dir B es r))"
    and run: "atomic_write (dek_path B es r) wr w = (Ok u, w')"
  then have f: "w_dirs w' = w_dirs w"
    "q \<in> N \<Longrightarrow> w_files w' (dek_path B es q) = (if q = r then Some wr else w_files w (dek_path B es q))"
    "w_files w' (object_path B es q k) = w_files w (object_path B es q k)" for q k
    using atomic_write_spec [OF law _ run] store_paths(1) [OF law _ r] by auto
  have key: "q \<in> N \<Longrightarrow> repo_key B es w' q = (if q = r then Some dek else repo_key B es w q)" for q
    using dek by (simp add: repo_key_def f)
  have none: "repo_key B es w r = None" using pre by (simp add: repo_key_def)
  have obj: "w_files w (object_path B es r k) = None" if kN: "k \<in> N" for k
  proof (rule ccontr)
    assume "w_files w (object_path B es r k) \<noteq> None"
    moreover have "store_ok B es N w" using pre by (simp add: kept_def)
    ultimately obtain dek where "repo_key B es w r = Some dek" using object_has_key r kN by blast
    then show False using none by simp
  qed
  have view: "store_view B es N w' = store_view B es N w"
    by (intro ext) (auto simp: store_view_def key f obj none)
  have "store_ok B es N w'" using pre unfolding kept_def store_ok_def view
    by (auto simp: f key split: if_splits)
  then show "kept B es N w0 w' \<and> repo_key B es w' r = Some dek"
    using pre view f(3) key r by (simp add: kept_def)
next
  fix w e w'
  assume pre: "kept B es N w0 w \<and> (w_files w (dek_path B es r) = None \<and> w_dirs w (repo_dir B es r))"
    and run: "atomic_write (dek_path B es r) wr w = (Err e, w')"
  then show "kept B es N w0 w'" using atomic_write_spec [OF law _ run] kept_same by auto
qed

lemma symkey_generate_len: "symkey_generate rs = (Ok k, rs') \<Longrightarrow> length k = 32"
  by (simp add: symkey_generate_def random_bytes_Ok)

text \<open>The key of a repository: read back, or made once.\<close>

lemma repo_dek_valid:
  assumes law: "store_law B es N" and r: "r \<in> N"
  shows "valid (kept B es N w0) (repo_dek B es r)
    (\<lambda>dek w. kept B es N w0 w \<and> repo_key B es w r = Some dek) (kept B es N w0)"
  unfolding repo_dek_def
proof (rule valid_bind [OF create_dir_valid], rule valid_if)
  show "valid (\<lambda>w. (kept B es N w0 w \<and> w_dirs w (repo_dir B es r)) \<and> w_files w (dek_path B es r) \<noteq> None)
    (sbind (fs_read (dek_path B es r)) (\<lambda>wrapped. slift (map_err Crypto (unwrap_key B (es_kek es) wrapped))))
    (\<lambda>dek w. kept B es N w0 w \<and> repo_key B es w r = Some dek) (kept B es N w0)"
    by (rule valid_bind [where R = "\<lambda>b w. kept B es N w0 w \<and> w_files w (dek_path B es r) = Some b",
          OF valid_conseq [OF read_valid [of "kept B es N w0" "dek_path B es r"]]])
      (auto intro!: valid_lift simp: repo_key_def)
  let ?I = "\<lambda>w. w_files w (dek_path B es r) = None \<and> w_dirs w (repo_dir B es r)"
  have gen: "valid (\<lambda>w. kept B es N w0 w \<and> ?I w) (with_rng symkey_generate)
    (\<lambda>dek w. kept B es N w0 w \<and> (?I w \<and> length dek = 32)) (kept B es N w0)"
    by (rule valid_conseq [OF with_rng_valid [of ?I]]) (auto dest: symkey_generate_len)
  have wrap: "valid (\<lambda>w. kept B es N w0 w \<and> (?I w \<and> length dek = 32))
    (with_rng (wrap_key B (es_aead es) (es_kek es) dek))
    (\<lambda>wr w. (kept B es N w0 w \<and> ?I w) \<and> unwrap_key B (es_kek es) wr = Ok dek) (kept B es N w0)" for dek
    by (rule valid_conseq [OF with_rng_valid [of "\<lambda>w. ?I w \<and> length dek = 32"]])
      (use law in \<open>auto simp: store_law_def intro: unwrap_wrap_key\<close>)
  have wr: "valid (\<lambda>w. (kept B es N w0 w \<and> ?I w) \<and> unwrap_key B (es_kek es) wr = Ok dek)
    (sbind (atomic_write (dek_path B es r) wr) (\<lambda>_. sret dek))
    (\<lambda>dek w. kept B es N w0 w \<and> repo_key B es w r = Some dek) (kept B es N w0)" for dek wr
  proof (cases "unwrap_key B (es_kek es) wr = Ok dek")
    case True
    have "valid (\<lambda>w. (kept B es N w0 w \<and> ?I w) \<and> unwrap_key B (es_kek es) wr = Ok dek)
      (atomic_write (dek_path B es r) wr)
      (\<lambda>_ w. kept B es N w0 w \<and> repo_key B es w r = Some dek) (kept B es N w0)"
      by (rule valid_conseq [OF write_dek_valid [OF law r True]]) auto
    then show ?thesis by (rule valid_bind) (rule valid_ret)
  qed (simp add: valid_def)
  show "valid (\<lambda>w. (kept B es N w0 w \<and> w_dirs w (repo_dir B es r)) \<and> \<not> w_files w (dek_path B es r) \<noteq> None)
    (sbind (with_rng symkey_generate) (\<lambda>dek.
      sbind (with_rng (wrap_key B (es_aead es) (es_kek es) dek)) (\<lambda>wrapped.
      sbind (atomic_write (dek_path B es r) wrapped) (\<lambda>_. sret dek))))
    (\<lambda>dek w. kept B es N w0 w \<and> repo_key B es w r = Some dek) (kept B es N w0)"
    by (rule valid_conseq [OF valid_bind [OF gen valid_bind [OF wrap wr]]]) auto
qed

section \<open>The operations on the abstraction\<close>

lemma write_object_valid:
  assumes law: "store_law B es N" and rk: "r \<in> N" "k \<in> N" and ct: "aead_open B dek (object_aad r k) ct = Ok v"
  shows "valid (\<lambda>w. kept B es N w0 w \<and> repo_key B es w r = Some dek) (atomic_write (object_path B es r k) ct)
    (\<lambda>_ w. store_ok B es N w \<and> store_view B es N w = upd (store_view B es N w0) r k (Some v)) (kept B es N w0)"
proof (rule validI)
  fix w u w'
  assume pre: "kept B es N w0 w \<and> repo_key B es w r = Some dek"
    and run: "atomic_write (object_path B es r k) ct w = (Ok u, w')"
  have f: "w_dirs w' = w_dirs w" "w_files w' (dek_path B es q) = w_files w (dek_path B es q)"
    "q \<in> N \<Longrightarrow> l \<in> N \<Longrightarrow> w_files w' (object_path B es q l) =
      (if q = r \<and> l = k then Some ct else w_files w (object_path B es q l))" for q l
    using atomic_write_spec [OF law _ run] store_paths(2) [OF law _ rk(1) _ rk(2)] by auto
  have key: "repo_key B es w' = repo_key B es w" by (simp add: fun_eq_iff repo_key_def f)
  have view: "store_view B es N w' = upd (store_view B es N w) r k (Some v)"
    using pre ct rk by (intro ext) (simp add: store_view_def key f)
  have "store_ok B es N w'" using pre unfolding kept_def store_ok_def view key by (auto simp: f)
  then show "store_ok B es N w' \<and> store_view B es N w' = upd (store_view B es N w0) r k (Some v)"
    using pre view by (simp add: kept_def)
next
  fix w e w'
  assume pre: "kept B es N w0 w \<and> repo_key B es w r = Some dek"
    and run: "atomic_write (object_path B es r k) ct w = (Err e, w')"
  then show "kept B es N w0 w'" using atomic_write_spec [OF law _ run] kept_same by auto
qed

lemma store_put_valid:
  assumes law: "store_law B es N" and rk: "r \<in> N" "k \<in> N"
  shows "valid (kept B es N w0) (store_put B es r k v)
    (\<lambda>_ w. store_ok B es N w \<and> store_view B es N w = upd (store_view B es N w0) r k (Some v)) (kept B es N w0)"
  unfolding store_put_def
proof (rule valid_bind [OF repo_dek_valid [OF law rk(1)]])
  fix dek
  let ?I = "\<lambda>w. repo_key B es w r = Some dek"
  have seal: "valid (\<lambda>w. kept B es N w0 w \<and> ?I w)
      (with_rng (aead_seal B (es_aead es) dek (object_aad r k) v))
      (\<lambda>ct w. (kept B es N w0 w \<and> ?I w) \<and> aead_open B dek (object_aad r k) ct = Ok v) (kept B es N w0)"
    by (rule valid_conseq [OF with_rng_valid [of ?I]])
      (use law in \<open>auto simp: store_law_def repo_key_def intro!: aead_open_seal
        dest: unwrap_key_len split: option.splits sum.splits\<close>)
  have wr: "valid (\<lambda>w. (kept B es N w0 w \<and> ?I w) \<and> aead_open B dek (object_aad r k) ct = Ok v)
      (sbind (fs_create_dir_all (butlast (object_path B es r k))) (\<lambda>_. atomic_write (object_path B es r k) ct))
      (\<lambda>_ w. store_ok B es N w \<and> store_view B es N w = upd (store_view B es N w0) r k (Some v))
      (kept B es N w0)" for ct
  proof (cases "aead_open B dek (object_aad r k) ct = Ok v")
    case True
    show ?thesis
      by (rule valid_bind [OF valid_conseq [OF create_dir_valid_key [of B es N w0 r dek]]
          write_object_valid [OF law rk True]]) auto
  qed (simp add: valid_def)
  show "valid (\<lambda>w. kept B es N w0 w \<and> ?I w)
      (sbind (with_rng (aead_seal B (es_aead es) dek (object_aad r k) v)) (\<lambda>ct.
        sbind (fs_create_dir_all (butlast (object_path B es r k))) (\<lambda>_.
        atomic_write (object_path B es r k) ct)))
      (\<lambda>_ w. store_ok B es N w \<and> store_view B es N w = upd (store_view B es N w0) r k (Some v))
      (kept B es N w0)"
    by (rule valid_bind [OF seal wr])
qed

lemma store_get_valid:
  assumes law: "store_law B es N" and rk: "r \<in> N" "k \<in> N"
  shows "valid (kept B es N w0) (store_get B es r k)
    (\<lambda>x w. kept B es N w0 w \<and> x = store_view B es N w0 r k) (kept B es N w0)"
proof -
  let ?p = "object_path B es r k"
  have miss: "valid (\<lambda>w. kept B es N w0 w \<and> w_files w ?p = None) (sret None)
      (\<lambda>x w. kept B es N w0 w \<and> x = store_view B es N w0 r k) (kept B es N w0)"
    by (rule valid_ret) (auto simp: kept_def store_view_def split: option.splits)
  have rd: "valid (\<lambda>w. kept B es N w0 w \<and> repo_key B es w r = Some dek) (fs_read ?p)
      (\<lambda>ct w. (kept B es N w0 w \<and> repo_key B es w r = Some dek) \<and> w_files w ?p = Some ct) (kept B es N w0)"
    for dek
    by (rule valid_conseq [OF read_valid [of "\<lambda>w. kept B es N w0 w \<and> repo_key B es w r = Some dek"]]) auto
  have op: "valid (\<lambda>w. (kept B es N w0 w \<and> repo_key B es w r = Some dek) \<and> w_files w ?p = Some ct)
      (sbind (slift (map_err Crypto (aead_open B dek (object_aad r k) ct))) (\<lambda>pt. sret (Some pt)))
      (\<lambda>x w. kept B es N w0 w \<and> x = store_view B es N w0 r k) (kept B es N w0)" for dek ct
  proof (rule validI)
    fix w x w'
    assume a: "(kept B es N w0 w \<and> repo_key B es w r = Some dek) \<and> w_files w ?p = Some ct"
      "sbind (slift (map_err Crypto (aead_open B dek (object_aad r k) ct))) (\<lambda>pt. sret (Some pt)) w = (Ok x, w')"
    then have "w' = w" "x = store_view B es N w r k" using rk by (auto simp: sbind_eq_Ok store_view_def)
    then show "kept B es N w0 w' \<and> x = store_view B es N w0 r k" using a(1) by (simp add: kept_def)
  qed (auto simp: sbind_eq_Err)
  have hit: "valid (kept B es N w0)
      (sbind (repo_dek B es r) (\<lambda>dek. sbind (fs_read ?p) (\<lambda>ct.
        sbind (slift (map_err Crypto (aead_open B dek (object_aad r k) ct))) (\<lambda>pt. sret (Some pt)))))
      (\<lambda>x w. kept B es N w0 w \<and> x = store_view B es N w0 r k) (kept B es N w0)"
    by (rule valid_bind [OF repo_dek_valid [OF law rk(1)] valid_bind [OF rd op]])
  show ?thesis
    using valid_if [OF miss, OF valid_conseq [OF hit]]
    by (simp add: store_get_def [abs_def])
qed

lemma store_delete_valid:
  assumes law: "store_law B es N" and rk: "r \<in> N" "k \<in> N"
  shows "valid (kept B es N w0) (store_delete B es r k)
    (\<lambda>_ w. store_ok B es N w \<and> store_view B es N w = upd (store_view B es N w0) r k None) (kept B es N w0)"
proof (rule validI)
  fix w u w'
  assume pre: "kept B es N w0 w" and run: "store_delete B es r k w = (Ok u, w')"
  have f: "w_dirs w' = w_dirs w" "w_files w' (dek_path B es q) = w_files w (dek_path B es q)"
    "q \<in> N \<Longrightarrow> l \<in> N \<Longrightarrow> w_files w' (object_path B es q l) =
      (if q = r \<and> l = k then None else w_files w (object_path B es q l))" for q l
    using run store_paths(2) [OF law _ rk(1) _ rk(2)] by (auto simp: store_delete_def fs_remove_file_def split: if_splits)
  have key: "repo_key B es w' = repo_key B es w" by (simp add: fun_eq_iff repo_key_def f)
  have view: "store_view B es N w' = upd (store_view B es N w) r k None"
    by (intro ext) (auto simp: store_view_def key f split: option.splits)
  have "store_ok B es N w'" using pre unfolding kept_def store_ok_def view key by (auto simp: f)
  then show "store_ok B es N w' \<and> store_view B es N w' = upd (store_view B es N w0) r k None"
    using pre view by (simp add: kept_def)
qed (auto simp: store_delete_def fs_remove_file_def split: if_splits)

lemma init_repo_valid:
  assumes "store_law B es N" "r \<in> N"
  shows "valid (kept B es N w0) (init_repo B es r) (\<lambda>_. kept B es N w0) (kept B es N w0)"
  unfolding init_repo_def by (rule valid_bind [OF repo_dek_valid [OF assms]]) (auto simp: valid_def)

text \<open>One run of an operation on a well-formed store.\<close>

lemma init_repo_run:
  assumes "store_law B es N" "r \<in> N" "store_ok B es N w" "init_repo B es r w = (x, w')"
  shows "store_ok B es N w' \<and> store_view B es N w' = store_view B es N w"
  using valid_Ok [OF init_repo_valid [OF assms(1,2)] kept_refl [OF assms(3)]]
    valid_Err [OF init_repo_valid [OF assms(1,2)] kept_refl [OF assms(3)]] assms(4)
  by (cases x) (auto simp: kept_def)

lemma store_put_run:
  assumes "store_law B es N" "r \<in> N" "k \<in> N" "store_ok B es N w" "store_put B es r k v w = (x, w')"
  shows "store_ok B es N w' \<and> store_view B es N w' = (if isl x then store_view B es N w else upd (store_view B es N w) r k (Some v))"
  using valid_Ok [OF store_put_valid [OF assms(1-3)] kept_refl [OF assms(4)]]
    valid_Err [OF store_put_valid [OF assms(1-3)] kept_refl [OF assms(4)]] assms(5)
  by (cases x) (auto simp: kept_def)

lemma store_get_run:
  assumes "store_law B es N" "r \<in> N" "k \<in> N" "store_ok B es N w" "store_get B es r k w = (x, w')"
  shows "store_ok B es N w' \<and> store_view B es N w' = store_view B es N w \<and> (\<forall>v. x = Ok v \<longrightarrow> v = store_view B es N w r k)"
  using valid_Ok [OF store_get_valid [OF assms(1-3)] kept_refl [OF assms(4)]]
    valid_Err [OF store_get_valid [OF assms(1-3)] kept_refl [OF assms(4)]] assms(5)
  by (cases x) (auto simp: kept_def)

lemma store_delete_run:
  assumes "store_law B es N" "r \<in> N" "k \<in> N" "store_ok B es N w" "store_delete B es r k w = (x, w')"
  shows "store_ok B es N w' \<and> store_view B es N w' = (if isl x then store_view B es N w else upd (store_view B es N w) r k None)"
  using valid_Ok [OF store_delete_valid [OF assms(1-3)] kept_refl [OF assms(4)]]
    valid_Err [OF store_delete_valid [OF assms(1-3)] kept_refl [OF assms(4)]] assms(5)
  by (cases x) (auto simp: kept_def)

lemma prefix_repo_dir:
  assumes "store_law B es N" "r \<in> N" "q \<in> N"
  shows "prefix (repo_dir B es r) (dek_path B es q) \<longleftrightarrow> q = r"
    "prefix (repo_dir B es r) (object_path B es q k) \<longleftrightarrow> q = r"
    "prefix (repo_dir B es r) (repo_dir B es q) \<longleftrightarrow> q = r"
  using assms by (auto simp: dek_path_def object_path_def repo_dir_def store_law_hex_inj)

lemma delete_repo_valid:
  assumes law: "store_law B es N" and r: "r \<in> N"
  shows "valid (kept B es N w0) (delete_repo B es r)
    (\<lambda>_ w. store_ok B es N w \<and> store_view B es N w = (store_view B es N w0)(r := (\<lambda>k. None))
      \<and> \<not> repo_exists B es r w) (\<lambda>w. \<forall>q. q \<noteq> r \<longrightarrow> store_view B es N w q = store_view B es N w0 q)"
proof (rule validI)
  fix w u w'
  assume pre: "kept B es N w0 w" and run: "delete_repo B es r w = (Ok u, w')"
  have ok: "store_ok B es N w" using pre by (simp add: kept_def)
  have gone: "w_files w (dek_path B es r) = None" "w_files w (object_path B es r k) = None"
    if nd: "\<not> w_dirs w (repo_dir B es r)" and kN: "k \<in> N" for k
  proof -
    show d: "w_files w (dek_path B es r) = None" using ok r nd by (auto simp: store_ok_def)
    show "w_files w (object_path B es r k) = None"
    proof (rule ccontr)
      assume "w_files w (object_path B es r k) \<noteq> None"
      then obtain dek where "repo_key B es w r = Some dek" using object_has_key [OF ok r kN] by blast
      then show False using d by (simp add: repo_key_def)
    qed
  qed
  have f: "q \<in> N \<Longrightarrow> w_files w' (dek_path B es q) = (if q = r then None else w_files w (dek_path B es q))"
    "q \<in> N \<Longrightarrow> l \<in> N \<Longrightarrow> w_files w' (object_path B es q l) = (if q = r then None else w_files w (object_path B es q l))"
    "q \<in> N \<Longrightarrow> q \<noteq> r \<Longrightarrow> w_dirs w' (repo_dir B es q) = w_dirs w (repo_dir B es q)" for q l
    using run gone prefix_repo_dir [OF law r]
    by (auto simp: delete_repo_def fs_remove_dir_all_def split: if_splits)
  have key: "q \<in> N \<Longrightarrow> repo_key B es w' q = (if q = r then None else repo_key B es w q)" for q
    by (simp add: repo_key_def f)
  have view: "store_view B es N w' = (store_view B es N w)(r := (\<lambda>k. None))"
    by (intro ext) (simp add: store_view_def key f)
  have "store_ok B es N w'" using ok unfolding store_ok_def view by (auto simp: f key)
  then show "store_ok B es N w' \<and> store_view B es N w' = (store_view B es N w0)(r := (\<lambda>k. None))
      \<and> \<not> repo_exists B es r w'"
    using pre view r by (simp add: kept_def repo_exists_def f)
next
  fix w e w'
  assume pre: "kept B es N w0 w" and run: "delete_repo B es r w = (Err e, w')"
  have f: "q \<in> N \<Longrightarrow> q \<noteq> r \<Longrightarrow> w_files w' (dek_path B es q) = w_files w (dek_path B es q)"
    "q \<in> N \<Longrightarrow> l \<in> N \<Longrightarrow> q \<noteq> r \<Longrightarrow> w_files w' (object_path B es q l) = w_files w (object_path B es q l)" for q l
    using run prefix_repo_dir [OF law r]
    by (auto simp: delete_repo_def fs_remove_dir_all_def split: if_splits)
  have "store_view B es N w' q = store_view B es N w q" if "q \<noteq> r" for q
    using that by (intro ext) (simp add: store_view_def repo_key_def f)
  then show "\<forall>q. q \<noteq> r \<longrightarrow> store_view B es N w' q = store_view B es N w0 q"
    using pre by (simp add: kept_def)
qed

section \<open>The contract of the services\<close>

definition enc_kv :: "backend \<Rightarrow> EncryptedStore \<Rightarrow> (world, StoreError) kv" where
  "enc_kv B es = \<lparr>kv_put = store_put B es, kv_get = store_get B es, kv_delete = store_delete B es\<rparr>"

lemma enc_kv_sel [simp]:
  "kv_put (enc_kv B es) = store_put B es" "kv_get (enc_kv B es) = store_get B es"
  "kv_delete (enc_kv B es) = store_delete B es"
  by (simp_all add: enc_kv_def)

definition enc_ok :: "backend \<Rightarrow> EncryptedStore \<Rightarrow> string set \<Rightarrow> world \<Rightarrow> bool" where
  "enc_ok B es N w \<longleftrightarrow> store_law B es N \<and> store_ok B es N w"

lemma valid_at_view:
  assumes "\<And>w0. store_law B es N \<Longrightarrow> valid (kept B es N w0) m (Q w0) (kept B es N w0)"
    and "\<And>w0 x w. at_view (enc_ok B es N) (store_view B es N) V w0 \<Longrightarrow> Q w0 x w \<Longrightarrow> Q' x w"
  shows "valid (at_view (enc_ok B es N) (store_view B es N) V) m Q' (at_view (enc_ok B es N) (store_view B es N) V)"
proof (rule validI)
  fix s x s'
  assume a: "at_view (enc_ok B es N) (store_view B es N) V s" "m s = (Ok x, s')"
  then have "kept B es N s s" "store_law B es N" by (auto simp: at_view_def enc_ok_def intro: kept_refl)
  then have "Q s x s'" using valid_Ok [OF assms(1)] a(2) by blast
  then show "Q' x s'" by (rule assms(2) [OF a(1)])
next
  fix s e s'
  assume a: "at_view (enc_ok B es N) (store_view B es N) V s" "m s = (Err e, s')"
  then have "kept B es N s s" "store_law B es N" by (auto simp: at_view_def enc_ok_def intro: kept_refl)
  then have "kept B es N s s'" using valid_Err [OF assms(1)] a(2) by blast
  then show "at_view (enc_ok B es N) (store_view B es N) V s'"
    using a(1) by (simp add: at_view_def enc_ok_def kept_def)
qed

interpretation enc: kv_store "enc_kv B es" N "enc_ok B es N" "store_view B es N" for B es N
proof
  fix r k V b
  assume n: "r \<in> N" "k \<in> N"
  show "valid (at_view (enc_ok B es N) (store_view B es N) V) (kv_put (enc_kv B es) r k b)
      (\<lambda>_. at_view (enc_ok B es N) (store_view B es N) (upd V r k (Some b)))
      (at_view (enc_ok B es N) (store_view B es N) V)"
    unfolding enc_kv_sel by (rule valid_at_view [OF store_put_valid [OF _ n]])
      (auto simp: at_view_def enc_ok_def)
  show "valid (at_view (enc_ok B es N) (store_view B es N) V) (kv_get (enc_kv B es) r k)
      (\<lambda>x w. at_view (enc_ok B es N) (store_view B es N) V w \<and> x = V r k)
      (at_view (enc_ok B es N) (store_view B es N) V)"
    unfolding enc_kv_sel by (rule valid_at_view [OF store_get_valid [OF _ n]]) (auto simp: at_view_def enc_ok_def kept_def)
  show "valid (at_view (enc_ok B es N) (store_view B es N) V) (kv_delete (enc_kv B es) r k)
      (\<lambda>_. at_view (enc_ok B es N) (store_view B es N) (upd V r k None))
      (at_view (enc_ok B es N) (store_view B es N) V)"
    unfolding enc_kv_sel by (rule valid_at_view [OF store_delete_valid [OF _ n]]) (auto simp: at_view_def enc_ok_def)
qed

section \<open>On a disk that works\<close>

text \<open>Every path can be read and written.\<close>

definition disk_works :: "world \<Rightarrow> bool" where
  "disk_works w \<longleftrightarrow> (\<forall>p. w_can_read w p \<and> w_can_write w p)"

text \<open>The cipher takes keys of 32 bytes, nonces of 12 and every plaintext at hand.\<close>

definition aead_total :: "backend \<Rightarrow> bytes \<Rightarrow> bool" where
  "aead_total B p \<longleftrightarrow> (\<forall>s k n a. length k = 32 \<longrightarrow> length n = NONCE_LEN \<longrightarrow>
     aead_key_ok B s k \<and> aead_enc B s k n a p \<noteq> None)"

lemma aead_seal_returns:
  assumes "aead_total B pt" "length key = 32" "length n = NONCE_LEN"
  obtains ct where "aead_seal B sch key aad pt (n # rs) = (Ok ct, rs)"
proof -
  obtain c where "aead_key_ok B sch key" "aead_enc B sch key n aad pt = Some c"
    using assms unfolding aead_total_def by blast
  then show thesis using that assms(3) by (simp add: aead_seal_def sbind_def unbound_def random_bytes_def ok_or_def)
qed

lemma atomic_write_returns:
  assumes "disk_works w"
  obtains w' where "atomic_write p b w = (Ok (), w')"
  using assms by (auto simp: atomic_write_def Let_def sbind_def fs_write_def fs_rename_def disk_works_def)

lemma disk_works_steps:
  "disk_works w \<Longrightarrow> fs_create_dir_all d w = (x, w') \<Longrightarrow> x = Ok () \<and> disk_works w' \<and> w_rng w' = w_rng w \<and> w_files w' = w_files w"
  "disk_works w \<Longrightarrow> atomic_write p b w = (y, w') \<Longrightarrow> disk_works w' \<and> w_rng w' = w_rng w"
  by (auto simp: disk_works_def fs_create_dir_all_def atomic_write_def Let_def sbind_def fs_write_def fs_rename_def
      split: if_splits)

lemma repo_dek_returns_old:
  assumes "disk_works w" "repo_key B es w r = Some dek"
  obtains w' where "repo_dek B es r w = (Ok dek, w')" "disk_works w'" "w_rng w' = w_rng w"
    "w_files w' = w_files w"
  using assms
  by (auto simp: repo_dek_def sbind_def fs_create_dir_all_def fs_read_def disk_works_def repo_key_def
      split: option.splits sum.splits)

lemma repo_dek_returns_new:
  assumes "disk_works w" "w_files w (dek_path B es r) = None" "w_rng w = key # n # rs"
    and "length key = 32" "length n = NONCE_LEN" "length (es_kek es) = 32" "aead_total B key"
  obtains w' where "repo_dek B es r w = (Ok key, w')" "disk_works w'" "w_rng w' = rs"
proof -
  obtain wr where wr: "wrap_key B (es_aead es) (es_kek es) key (n # rs) = (Ok wr, rs)"
    using assms aead_seal_returns unfolding wrap_key_def by metis
  obtain w1 where w1: "fs_create_dir_all (repo_dir B es r) w = (Ok (), w1)" "disk_works w1"
    "w_rng w1 = w_rng w" "w_files w1 = w_files w"
    using disk_works_steps(1) [OF assms(1)] by (metis prod.exhaust)
  have d2: "disk_works (w1\<lparr>w_rng := rs\<rparr>)" using w1 by (simp add: disk_works_def)
  obtain w2 where w2: "atomic_write (dek_path B es r) wr (w1\<lparr>w_rng := rs\<rparr>) = (Ok (), w2)"
    using atomic_write_returns [OF d2] .
  have "repo_dek B es r w = (Ok key, w2)"
    using w1 w2 wr assms by (simp add: repo_dek_def sbind_def with_rng_def symkey_generate_def random_bytes_def)
  then show thesis using that disk_works_steps(2) [OF d2 w2] by simp
qed

lemma store_put_returns_lib:
  assumes "disk_works w" "aead_total B v" "length n = NONCE_LEN"
    and dek: "repo_dek B es r w = (Ok dek, w')" "disk_works w'" "w_rng w' = n # rs" "length dek = 32"
  shows "fst (store_put B es r k v w) = Ok ()"
proof -
  obtain ct where ct: "aead_seal B (es_aead es) dek (object_aad r k) v (n # rs) = (Ok ct, rs)"
    using aead_seal_returns [OF assms(2) dek(4) assms(3)] .
  have "disk_works (w'\<lparr>w_rng := rs\<rparr>)" using dek by (simp add: disk_works_def)
  then obtain w2 where w2: "fs_create_dir_all (butlast (object_path B es r k)) (w'\<lparr>w_rng := rs\<rparr>) = (Ok (), w2)"
    "disk_works w2" using disk_works_steps(1) by (metis prod.exhaust)
  obtain w3 where "atomic_write (object_path B es r k) ct w2 = (Ok (), w3)"
    using atomic_write_returns [OF w2(2)] .
  then show ?thesis using dek ct w2 by (simp add: store_put_def sbind_def with_rng_def)
qed

lemma store_get_returns_lib:
  assumes "store_law B es N" "r \<in> N" "k \<in> N" "store_ok B es N w" "disk_works w"
  shows "fst (store_get B es r k w) = Ok (store_view B es N w r k)"
proof (cases "w_files w (object_path B es r k)")
  case None
  then show ?thesis by (simp add: store_get_def store_view_def split: option.splits)
next
  case (Some ct)
  then have v: "store_view B es N w r k \<noteq> None" using assms by (simp add: store_ok_def)
  then obtain dek pt where d: "repo_key B es w r = Some dek" "aead_open B dek (object_aad r k) ct = Ok pt"
    using Some by (auto simp: store_view_def split: option.splits sum.splits if_splits)
  then obtain w' where w': "repo_dek B es r w = (Ok dek, w')" "disk_works w'" "w_files w' = w_files w"
    using repo_dek_returns_old [OF assms(5)] by metis
  then show ?thesis using Some d assms(2,3)
    by (simp add: store_get_def sbind_def fs_read_def disk_works_def store_view_def)
qed

lemma valid_works:
  "valid disk_works (fs_create_dir_all d) (\<lambda>_. disk_works) disk_works"
  "valid disk_works (fs_read p) (\<lambda>_. disk_works) disk_works"
  "valid disk_works (with_rng c) (\<lambda>_. disk_works) disk_works"
  "valid disk_works (atomic_write p b) (\<lambda>_. disk_works) disk_works"
  "valid disk_works (sret x) (\<lambda>_. disk_works) disk_works"
  "valid disk_works (slift y) (\<lambda>_. disk_works) disk_works"
  by (auto simp: valid_def disk_works_def fs_create_dir_all_def fs_read_def with_rng_def atomic_write_def
      Let_def sbind_def fs_write_def fs_rename_def split: option.splits sum.splits prod.splits)

lemma repo_dek_works: "valid disk_works (repo_dek B es r) (\<lambda>_. disk_works) disk_works"
  unfolding repo_dek_def
  by (rule valid_bind [OF valid_works(1)], rule valid_if)
    (rule valid_conseq [where P = disk_works and Q = "\<lambda>_. disk_works" and E = disk_works],
      (rule valid_bind valid_works)+, auto)+

lemma store_put_works: "valid disk_works (store_put B es r k v) (\<lambda>_. disk_works) disk_works"
  unfolding store_put_def by (rule valid_bind repo_dek_works valid_works)+

lemma store_get_works: "valid disk_works (store_get B es r k) (\<lambda>_. disk_works) disk_works"
proof -
  have hit: "valid disk_works (sbind (repo_dek B es r) (\<lambda>dek. sbind (fs_read (object_path B es r k)) (\<lambda>ct.
      sbind (slift (map_err Crypto (aead_open B dek (object_aad r k) ct))) (\<lambda>pt. sret (Some pt)))))
      (\<lambda>_. disk_works) disk_works"
    by (rule valid_bind repo_dek_works valid_works)+
  have "valid disk_works (\<lambda>w. if w_files w (object_path B es r k) = None then sret None w
      else sbind (repo_dek B es r) (\<lambda>dek. sbind (fs_read (object_path B es r k)) (\<lambda>ct.
        sbind (slift (map_err Crypto (aead_open B dek (object_aad r k) ct))) (\<lambda>pt. sret (Some pt)))) w)
      (\<lambda>_. disk_works) disk_works"
    by (rule valid_if [OF valid_conseq [OF valid_works(5)] valid_conseq [OF hit]]) auto
  then show ?thesis by (simp add: store_get_def [abs_def])
qed

interpretation enc_live: kv_store_live "enc_kv B es" N "enc_ok B es N" "store_view B es N" disk_works for B es N
proof
  fix w :: world and r k
  assume a: "disk_works w" "enc_ok B es N w" "r \<in> N" "k \<in> N"
  obtain w' where w': "store_get B es r k w = (Ok (store_view B es N w r k), w')"
    using store_get_returns_lib [of B es N r k w] a by (auto simp: enc_ok_def fst_eq_Ok)
  then show "\<exists>w'. kv_get (enc_kv B es) r k w = (Ok (store_view B es N w r k), w') \<and> disk_works w'"
    using valid_Ok [OF store_get_works a(1) w'] by simp
qed

lemma nul_in_as_bytes [simp]: "0 \<in> set (as_bytes s) \<longleftrightarrow> CHR 0x00 \<in> set s"
proof -
  have "of_char c = (0 :: byte) \<longleftrightarrow> c = CHR 0x00" for c
    using as_bytes_inj [of "[c]" "[CHR 0x00]"] by simp
  then show ?thesis by (induction s) auto
qed

text \<open>The associated data of an object identifies the repository and the key, for repository names
  without a NUL.\<close>

lemma object_aad_inj:
  assumes "CHR 0x00 \<notin> set r" "CHR 0x00 \<notin> set r'"
  shows "object_aad r k = object_aad r' k' \<longleftrightarrow> r = r' \<and> k = k'"
  using assms by (simp add: object_aad_def sep_inj)

text \<open>Finding the key of a repository changes no object, whatever the disk holds.\<close>

lemma repo_dek_keeps_object:
  "valid (\<lambda>w. w_files w (object_path B es q k) = F) (repo_dek B es r)
    (\<lambda>_ w. w_files w (object_path B es q k) = F) (\<lambda>w. w_files w (object_path B es q k) = F)"
proof -
  let ?P = "\<lambda>w. w_files w (object_path B es q k) = F"
  have ne: "object_path B es q k \<noteq> dek_path B es r" "object_path B es q k \<noteq> with_extension (dek_path B es r) ''tmp''"
    unfolding tmp_paths by (auto simp: dek_path_def object_path_def repo_dir_def)
  have steps: "valid ?P (fs_create_dir_all d) (\<lambda>_. ?P) ?P" "valid ?P (fs_read p) (\<lambda>_. ?P) ?P"
    "valid ?P (with_rng c) (\<lambda>_. ?P) ?P" "valid ?P (slift y) (\<lambda>_. ?P) ?P" "valid ?P (sret z) (\<lambda>_. ?P) ?P"
    for d p y z and c :: "(rng, CryptoError, 'c) st"
    by (auto simp: valid_def fs_create_dir_all_def fs_read_def with_rng_def
        split: option.splits sum.splits prod.splits)
  have aw: "valid ?P (atomic_write (dek_path B es r) b) (\<lambda>_. ?P) ?P" for b
    using ne by (auto simp: valid_def atomic_write_def Let_def sbind_def fs_write_def fs_rename_def
        split: option.splits sum.splits prod.splits)
  show ?thesis
    unfolding repo_dek_def
    by (rule valid_bind [OF steps(1)], rule valid_if)
      (rule valid_conseq [where P = ?P and Q = "\<lambda>_. ?P" and E = ?P], (rule valid_bind steps aw)+, auto)+
qed

section \<open>Properties\<close>

definition demo_store :: EncryptedStore where
  "demo_store = \<lparr>es_root = [''data''], es_kek = replicate 32 7, es_aead = DEFAULT_AEAD\<rparr>"

definition demo_disk :: world where
  "demo_disk = \<lparr>w_files = (\<lambda>_. None), w_dirs = (\<lambda>_. False), w_can_read = (\<lambda>_. True), w_can_write = (\<lambda>_. True),
     w_torn = (\<lambda>_. False), w_rng = [replicate 32 1, replicate 12 2, replicate 12 3]\<rparr>"

definition demo_names :: "string set" where
  "demo_names = {''r'', ''k'', ''q''}"

lemma demo_names_inj: "inj_on (\<lambda>s. sha256 ref_backend (as_bytes s)) demo_names"
  by (simp add: inj_on_def ref_selectors demo_names_def) code_simp

lemma demo_store_law: "store_law ref_backend demo_store demo_names"
  using ref_laws demo_names_inj by (simp add: store_law_def demo_store_def)

lemma demo_disk_ok: "store_ok B es N demo_disk" "disk_works demo_disk"
  by (simp_all add: store_ok_def demo_disk_def disk_works_def)

text \<open>C3: the store refines a map. In a well-formed store a \<open>put\<close> that succeeds changes exactly the object
  it names and one that fails changes none; a \<open>get\<close> that succeeds returns what the map has and changes
  nothing; a \<open>delete\<close> that succeeds removes exactly the object it names; each leaves a well-formed store.\<close>

theorem store_refines_map:
  assumes "store_law B es N" "r \<in> N" "k \<in> N" "store_ok B es N w"
  shows "(case store_put B es r k v w of
            (Ok _, w') \<Rightarrow> store_ok B es N w' \<and> store_view B es N w' = upd (store_view B es N w) r k (Some v)
          | (Err _, w') \<Rightarrow> store_ok B es N w' \<and> store_view B es N w' = store_view B es N w)
    \<and> (case store_get B es r k w of
            (Ok x, w') \<Rightarrow> store_ok B es N w' \<and> store_view B es N w' = store_view B es N w \<and> x = store_view B es N w r k
          | (Err _, w') \<Rightarrow> store_ok B es N w' \<and> store_view B es N w' = store_view B es N w)
    \<and> (case store_delete B es r k w of
            (Ok _, w') \<Rightarrow> store_ok B es N w' \<and> store_view B es N w' = upd (store_view B es N w) r k None
          | (Err _, w') \<Rightarrow> store_ok B es N w' \<and> store_view B es N w' = store_view B es N w)"
proof -
  have at: "at_view (enc_ok B es N) (store_view B es N) (store_view B es N w) w"
    using assms(1,4) by (simp add: at_view_def enc_ok_def)
  let ?V = "store_view B es N w"
  note run = enc.put_law [OF assms(2,3), of B es ?V v, unfolded valid_def, rule_format, OF at]
    enc.get_law [OF assms(2,3), of B es ?V, unfolded valid_def, rule_format, OF at]
    enc.delete_law [OF assms(2,3), of B es ?V, unfolded valid_def, rule_format, OF at]
  show ?thesis
    using run(1) run(2) run(3) assms(1) unfolding at_view_def enc_ok_def enc_kv_sel
    by (simp split: prod.splits sum.splits)
qed

theorem store_refines_map_witness:
  "case store_put ref_backend demo_store ''r'' ''k'' [1, 2] demo_disk of
     (Ok _, w') \<Rightarrow> store_view ref_backend demo_store demo_names w' =
       upd (store_view ref_backend demo_store demo_names demo_disk) ''r'' ''k'' (Some [1, 2])
   | (Err _, w') \<Rightarrow> store_view ref_backend demo_store demo_names w' = store_view ref_backend demo_store demo_names demo_disk"
  using store_refines_map [OF demo_store_law _ _ demo_disk_ok(1), of "''r''" "''k''" "[1, 2]"]
  by (auto simp: demo_names_def split: prod.splits sum.splits)

text \<open>On a disk that works, with a well-formed store and randomness at hand, storing an object succeeds
  (making the key of the repository first when it has none) and reading it then returns it.\<close>

theorem store_put_then_get:
  assumes "store_law B es N" "r \<in> N" "k \<in> N" "store_ok B es N w" "disk_works w"
    and "aead_total B v" "aead_total B key"
    and "length key = 32" "length n1 = NONCE_LEN" "length n2 = NONCE_LEN"
    and "w_rng w = (if repo_exists B es r w then n2 # rs else key # n1 # n2 # rs)"
  shows "\<exists>w'. store_put B es r k v w = (Ok (), w') \<and> fst (store_get B es r k w') = Ok (Some v)"
proof -
  have kek: "length (es_kek es) = 32" using assms(1) by (simp add: store_law_def)
  obtain dek w1 where w1: "repo_dek B es r w = (Ok dek, w1)" "disk_works w1" "w_rng w1 = n2 # rs" "length dek = 32"
  proof (cases "repo_exists B es r w")
    case True
    then obtain dek where d: "repo_key B es w r = Some dek"
      using assms(2,4) by (auto simp: repo_exists_def store_ok_def)
    show thesis using repo_dek_returns_old [OF assms(5) d] True assms(11) that repo_key_len [OF d] by metis
  next
    case False
    then show thesis
      using repo_dek_returns_new [OF assms(5), of B es r key n1 "n2 # rs"] assms(7-9,11) kek that
      by (metis repo_exists_def)
  qed
  obtain w' where w': "store_put B es r k v w = (Ok (), w')"
    using store_put_returns_lib [OF assms(5,6,10) w1] by (metis prod.collapse)
  have ok': "store_ok B es N w'" "store_view B es N w' = upd (store_view B es N w) r k (Some v)"
    using valid_Ok [OF store_put_valid [OF assms(1-3)] kept_refl [OF assms(4)] w'] by auto
  have "disk_works w'" using valid_Ok [OF store_put_works assms(5) w'] .
  then show ?thesis using w' store_get_returns_lib [OF assms(1-3) ok'(1)] ok'(2) by simp
qed

theorem store_put_then_get_witness:
  "\<exists>w'. store_put ref_backend demo_store ''r'' ''k'' [1, 2] demo_disk = (Ok (), w')
     \<and> fst (store_get ref_backend demo_store ''r'' ''k'' w') = Ok (Some [1, 2])"
  by (rule store_put_then_get [OF demo_store_law _ _ demo_disk_ok, where key = "replicate 32 1"
        and ?n1.0 = "replicate 12 2" and ?n2.0 = "replicate 12 3" and rs = "[]"])
    (simp_all add: demo_names_def aead_total_def ref_selectors NONCE_LEN_def demo_disk_def repo_exists_def)



text \<open>C25: deleting a repository removes all of its objects and its key, leaves every object of every other
  repository as it was, also when it fails half way.\<close>

theorem delete_repo_wipes:
  assumes "store_law B es N" "r \<in> N" "store_ok B es N w"
  shows "case delete_repo B es r w of
      (Ok _, w') \<Rightarrow> store_ok B es N w' \<and> store_view B es N w' = (store_view B es N w)(r := (\<lambda>k. None))
        \<and> \<not> repo_exists B es r w'
    | (Err _, w') \<Rightarrow> \<forall>q. q \<noteq> r \<longrightarrow> store_view B es N w' q = store_view B es N w q"
  using delete_repo_valid [OF assms(1,2), of w] kept_refl [OF assms(3)]
  by (auto simp: valid_def kept_def split: prod.splits sum.splits)

theorem delete_repo_wipes_witness:
  "case delete_repo ref_backend demo_store ''r'' demo_disk of
      (Ok _, w') \<Rightarrow> store_view ref_backend demo_store demo_names w' =
          (store_view ref_backend demo_store demo_names demo_disk)(''r'' := (\<lambda>k. None))
    | (Err _, w') \<Rightarrow> False"
  using delete_repo_wipes [OF demo_store_law _ demo_disk_ok(1), of "''r''"]
  by (auto simp: demo_names_def delete_repo_def demo_disk_def)

end
