(* ===== verification/Keybroker.thy ===== *)
theory Keybroker
  imports Vcek Replay Store_Refinement
begin

text \<open>
  The attestation-gated key broker: \<open>crates/secgit-keybroker/src/lib.rs\<close> and \<open>trustee.rs\<close>. The state of a
  release is the broker (its replay guard changes), the state \<open>'w\<close> of the verifier's resolver, and the disk
  and generator. The main result composes the parts: a key leaves the broker only for a genuine,
  measured, fresh and unrevoked guest, sealed to the key that guest attested.
\<close>

section \<open>lib.rs\<close>

datatype BrokerError =
    Attestation AttestError
  | Crypto CryptoError
  | UnknownResource string
  | PolicyDenied string
  | NotConfigured string
  | Malformed string
  | Replay
  | StaleEvidence

record ReleaseRequest =
  rq_resource_id :: string
  rq_evidence :: Evidence
  rq_runtime_pubkey :: bytes
  rq_nonce :: bytes
  rq_timestamp :: u64

definition release_report_data :: "tee_lib \<Rightarrow> bytes \<Rightarrow> u64 \<Rightarrow> bytes \<Rightarrow> bytes" where
  "release_report_data T nonce timestamp runtime_pubkey =
    ReportData_bind T (nonce @ le_bytes 8 timestamp) runtime_pubkey"

text \<open>A \<open>ReleaseResponse\<close> is its wrapped key; a \<open>KekProvider\<close> is its lookup.\<close>

type_synonym ReleaseResponse = bytes
type_synonym KekProvider = "string \<Rightarrow> SymKey option"

definition kek_insert :: "string \<Rightarrow> SymKey \<Rightarrow> KekProvider \<Rightarrow> KekProvider" where
  "kek_insert resource_id kek keks = keks(resource_id \<mapsto> kek)"

record 'w LocalKeyBroker =
  kb_verifier :: "'w Verifier"
  kb_policy :: Policy
  kb_keks :: KekProvider
  kb_replay_guard :: "ReplayGuard option"

definition broker_new :: "'w Verifier \<Rightarrow> Policy \<Rightarrow> KekProvider \<Rightarrow> 'w LocalKeyBroker" where
  "broker_new verifier policy keks =
    \<lparr>kb_verifier = verifier, kb_policy = policy, kb_keks = keks, kb_replay_guard = None\<rparr>"

definition with_replay_guard :: "'w LocalKeyBroker \<Rightarrow> ReplayGuard \<Rightarrow> 'w LocalKeyBroker" where
  "with_replay_guard b guard = b\<lparr>kb_replay_guard := Some guard\<rparr>"

record 'w broker_state =
  bs_broker :: "'w LocalKeyBroker"
  bs_resolver :: 'w
  bs_world :: world

record broker_json =
  bj_mock :: "MockReport codec"
  bj_seen :: "SeenState codec"

definition verify_step ::
  "backend \<Rightarrow> tee_lib \<Rightarrow> broker_json \<Rightarrow> ReleaseRequest \<Rightarrow> ('w broker_state, BrokerError, Claims) st" where
  "verify_step B T J req s =
    (let expected = release_report_data T (rq_nonce req) (rq_timestamp req) (rq_runtime_pubkey req);
         b = bs_broker s
     in case verify B T (bj_mock J) (kb_verifier b) (rq_evidence req) expected (kb_policy b) (bs_resolver s) of
          (r, x) \<Rightarrow> (map_err Attestation r, s\<lparr>bs_resolver := x\<rparr>))"

definition guard_step ::
  "backend \<Rightarrow> broker_json \<Rightarrow> u64 \<Rightarrow> ReleaseRequest \<Rightarrow> ('w broker_state, BrokerError, unit) st" where
  "guard_step B J now req s =
    (case kb_replay_guard (bs_broker s) of
       None \<Rightarrow> (Ok (), s)
     | Some guard \<Rightarrow>
         (case check_and_record_at B (bj_seen J) (rq_nonce req) (rq_timestamp req) now (guard, bs_world s) of
            (r, (guard', w')) \<Rightarrow>
              (map_err (\<lambda>e. case e of Replayed \<Rightarrow> Replay | Stale \<Rightarrow> StaleEvidence) r,
               s\<lparr>bs_broker := (bs_broker s)\<lparr>kb_replay_guard := Some guard'\<rparr>, bs_world := w'\<rparr>)))"

definition seal_step :: "backend \<Rightarrow> RecipientPublic \<Rightarrow> bytes \<Rightarrow> ('w broker_state, BrokerError, bytes) st" where
  "seal_step B recipient secret s =
    (case seal_to B recipient secret (w_rng (bs_world s)) of
       (r, rs) \<Rightarrow> (map_err Crypto r, s\<lparr>bs_world := (bs_world s)\<lparr>w_rng := rs\<rparr>\<rparr>))"

definition release ::
  "backend \<Rightarrow> tee_lib \<Rightarrow> broker_json \<Rightarrow> u64 \<Rightarrow> ReleaseRequest \<Rightarrow> ('w broker_state, BrokerError, ReleaseResponse) st" where
  "release B T J now req =
    sbind (verify_step B T J req) (\<lambda>_.
    sbind (guard_step B J now req) (\<lambda>_ s.
    sbind (slift (ok_or (UnknownResource (rq_resource_id req)) (kb_keks (bs_broker s) (rq_resource_id req)))) (\<lambda>kek.
    sbind (slift (map_err (\<lambda>_. BrokerError.Malformed ''bad runtime_pubkey'') (rp_from_bytes (rq_runtime_pubkey req)))) (\<lambda>recipient.
    seal_step B recipient kek)) s))"

text \<open>The guest: its generator and report interface, beside the broker it talks to.\<close>

record 'w guest_state =
  gs_rng :: rng
  gs_tsm :: tsm
  gs_broker :: "'w broker_state"

definition guest_rng :: "(rng, CryptoError, 'a) st \<Rightarrow> ('w guest_state, BrokerError, 'a) st" where
  "guest_rng c s = (case c (gs_rng s) of (r, rs) \<Rightarrow> (map_err Crypto r, s\<lparr>gs_rng := rs\<rparr>))"

definition guest_attest ::
  "backend \<Rightarrow> broker_json \<Rightarrow> string \<Rightarrow> Attester \<Rightarrow> bytes \<Rightarrow> ('w guest_state, BrokerError, Evidence) st" where
  "guest_attest B J unique attester report_data s =
    (case get_evidence B (bj_mock J) unique attester report_data (gs_tsm s) of
       (r, t) \<Rightarrow> (map_err Attestation r, s\<lparr>gs_tsm := t\<rparr>))"

definition ask_broker ::
  "backend \<Rightarrow> tee_lib \<Rightarrow> broker_json \<Rightarrow> u64 \<Rightarrow> ReleaseRequest \<Rightarrow> ('w guest_state, BrokerError, ReleaseResponse) st" where
  "ask_broker B T J now req s =
    (case release B T J now req (gs_broker s) of (r, b) \<Rightarrow> (r, s\<lparr>gs_broker := b\<rparr>))"

definition attest_and_unwrap ::
  "backend \<Rightarrow> tee_lib \<Rightarrow> broker_json \<Rightarrow> string \<Rightarrow> u64 \<Rightarrow> u64 \<Rightarrow> string \<Rightarrow> Attester \<Rightarrow>
    ('w guest_state, BrokerError, SymKey) st" where
  "attest_and_unwrap B T J unique guest_now broker_now resource_id attester =
    sbind (guest_rng (kem_generate B)) (\<lambda>kp.
    let runtime_pubkey = rp_to_bytes (kem_public kp) in
    sbind (guest_rng (random_bytes 32)) (\<lambda>nonce.
    let timestamp = guest_now;
        report_data = release_report_data T nonce timestamp runtime_pubkey in
    sbind (guest_attest B J unique attester report_data) (\<lambda>evidence.
    let req = \<lparr>rq_resource_id = resource_id, rq_evidence = evidence, rq_runtime_pubkey = runtime_pubkey,
               rq_nonce = nonce, rq_timestamp = timestamp\<rparr> in
    sbind (ask_broker B T J broker_now req) (\<lambda>wrapped.
    sbind (slift (map_err Crypto (kem_open B kp wrapped))) (\<lambda>kek_bytes.
    if length kek_bytes \<noteq> 32 then sfail (BrokerError.Malformed ''released KEK wrong length'')
    else sret kek_bytes)))))"

section \<open>trustee.rs\<close>

record TrusteeConfig =
  tc_kbs_url :: string
  tc_drivers :: "string list"

definition TrusteeConfig_new :: "string \<Rightarrow> TrusteeConfig" where
  "TrusteeConfig_new kbs_url = \<lparr>tc_kbs_url = kbs_url, tc_drivers = [''snp'', ''tdx'']\<rparr>"

definition assert_provider_neutral :: "TrusteeConfig \<Rightarrow> (string, unit) result" where
  "assert_provider_neutral cfg =
    (if list_ex (\<lambda>d. contains ''az-'' d \<or> contains ''vtpm'' d \<or> contains ''maa'' d) (tc_drivers cfg)
     then Err ''cloud-specific attestation driver is forbidden'' else Ok ())"

definition TrusteeKbs_new :: "TrusteeConfig \<Rightarrow> (string, TrusteeConfig) result" where
  "TrusteeKbs_new config = rbind (assert_provider_neutral config) (\<lambda>_. Ok config)"

definition trustee_release :: "TrusteeConfig \<Rightarrow> ReleaseRequest \<Rightarrow> (BrokerError, ReleaseResponse) result" where
  "trustee_release kbs req =
    Err (NotConfigured ''Trustee KBS HTTP client not wired yet; use LocalKeyBroker for the slice'')"

section \<open>What a release means\<close>

lemma verify_step_Ok:
  assumes "verify_step B T J req s = (Ok cl, s1)"
  obtains x where "verify B T (bj_mock J) (kb_verifier (bs_broker s)) (rq_evidence req)
      (release_report_data T (rq_nonce req) (rq_timestamp req) (rq_runtime_pubkey req)) (kb_policy (bs_broker s))
      (bs_resolver s) = (Ok cl, x)" "s1 = s\<lparr>bs_resolver := x\<rparr>"
  using assms by (auto simp: verify_step_def Let_def split: prod.splits)

lemma guard_step_Ok:
  assumes "guard_step B J now req s = (Ok u, s1)"
  shows "kb_keks (bs_broker s1) = kb_keks (bs_broker s) \<and>
    (\<forall>g. kb_replay_guard (bs_broker s) = Some g \<longrightarrow>
      fst (check_and_record_at B (bj_seen J) (rq_nonce req) (rq_timestamp req) now (g, bs_world s)) = Ok ())"
  using assms by (auto simp: guard_step_def split: option.splits prod.splits)

lemma release_Ok:
  assumes "release B T J now req s = (Ok wrapped, s')"
  obtains cl x kek rp rs rs' where
    "verify B T (bj_mock J) (kb_verifier (bs_broker s)) (rq_evidence req)
      (release_report_data T (rq_nonce req) (rq_timestamp req) (rq_runtime_pubkey req)) (kb_policy (bs_broker s))
      (bs_resolver s) = (Ok cl, x)"
    "\<forall>g. kb_replay_guard (bs_broker s) = Some g \<longrightarrow>
      fst (check_and_record_at B (bj_seen J) (rq_nonce req) (rq_timestamp req) now (g, bs_world s)) = Ok ()"
    "kb_keks (bs_broker s) (rq_resource_id req) = Some kek" "rp_from_bytes (rq_runtime_pubkey req) = Ok rp"
    "seal_to B rp kek rs = (Ok wrapped, rs')"
proof -
  obtain cl s1 s2 kek rp where a: "verify_step B T J req s = (Ok cl, s1)" "guard_step B J now req s1 = (Ok (), s2)"
    "kb_keks (bs_broker s2) (rq_resource_id req) = Some kek" "rp_from_bytes (rq_runtime_pubkey req) = Ok rp"
    "seal_step B rp kek s2 = (Ok wrapped, s')"
    using assms by (auto simp: release_def sbind_eq_Ok)
  obtain rs rs' where seal: "seal_to B rp kek rs = (Ok wrapped, rs')"
    using a(5) by (auto simp: seal_step_def split: prod.splits)
  show thesis using a(1)
  proof (rule verify_step_Ok)
    fix x assume v: "verify B T (bj_mock J) (kb_verifier (bs_broker s)) (rq_evidence req)
      (release_report_data T (rq_nonce req) (rq_timestamp req) (rq_runtime_pubkey req)) (kb_policy (bs_broker s))
      (bs_resolver s) = (Ok cl, x)" "s1 = s\<lparr>bs_resolver := x\<rparr>"
    then show thesis using that [OF v(1) _ _ a(4) seal] guard_step_Ok [OF a(2)] a(3) by simp
  qed
qed

section \<open>A run to evaluate the properties on\<close>

lemma ref_seal_to_returns:
  assumes "length seed = 32" "length nonce = 12"
  obtains env where "seal_to ref_backend rp secret (seed # coins # nonce # rs) = (Ok env, rs)"
proof -
  let ?x = "x25519_dh ref_backend seed (rp_x25519 rp)" and ?m = "rp_mlkem_ek rp @ pad 32 coins"
  obtain k where k: "combine ref_backend ?x ?m = Ok k"
    using hkdf_sha384_spec [OF ref_hkdf_law] by (simp add: combine_def)
  then have "length k = 32" using length_hkdf_sha384 [OF ref_hkdf_law] by (simp add: combine_def)
  with k assms show thesis
    using that by (simp add: seal_to_def Let_def sbind_def random_bytes_def NONCE_LEN_def ref_selectors kem_aead_key_def)
qed

definition demo_tee :: tee_lib where
  "demo_tee = \<lparr>sha512 = (\<lambda>_. replicate 64 0), p384_verify = (\<lambda>_ _ _. True)\<rparr>"

definition demo_cert :: Certificate where
  "demo_cert = \<lparr>c_sig_alg = OID_RSASSA_PSS, c_spki_alg = OID_EC_PUBLIC_KEY, c_spki_key = 4 # replicate 96 0,
     c_tbs = Some [], c_sig = [], c_issuer = ''AMD'', c_subject = ''AMD'', c_serial = [1]\<rparr>"

definition demo_crl :: CertificateList where
  "demo_crl = \<lparr>crl_sig_alg = OID_RSASSA_PSS, crl_issuer = ''AMD'', crl_tbs = Some [], crl_sig = [],
     crl_revoked = Some [[2]], crl_next_update = None\<rparr>"

definition demo_x509 :: x509_lib where
  "demo_x509 = \<lparr>cert_from_der = (\<lambda>_. Some demo_cert), cert_from_pem = (\<lambda>_. Some demo_cert),
     crl_from_der = (\<lambda>_. Some demo_crl), pss_verify = (\<lambda>_ _ _. True),
     utf8_lossy = (\<lambda>_. ''BEGIN CERTIFICATE END CERTIFICATE''), ark_pem = (\<lambda>_. [])\<rparr>"

lemma demo_chain: "parse_cert_chain_pem demo_x509 (utf8_lossy demo_x509 b) = Ok [demo_cert]"
proof -
  have "str_lines ''BEGIN CERTIFICATE END CERTIFICATE'' = [''BEGIN CERTIFICATE END CERTIFICATE'']" by code_simp
  moreover have "contains ''BEGIN CERTIFICATE'' ''BEGIN CERTIFICATE END CERTIFICATE''"
    "contains ''END CERTIFICATE'' ''BEGIN CERTIFICATE END CERTIFICATE''" by code_simp+
  ultimately show ?thesis by (simp add: parse_cert_chain_pem_def demo_x509_def parse_cert_pem_def Let_def del: contains.simps)
qed

lemma demo_resolve:
  "\<exists>w'. resolve_vcek ref_backend demo_x509 Milan chip tcb (\<lambda>_. Ok []) RevocationConfig_default blank_cache =
    (Ok (4 # replicate 96 0), w')"
proof -
  have v: "verify_vcek demo_x509 Milan demo_cert demo_cert = Ok (4 # replicate 96 0)"
    by (simp add: verify_vcek_def parse_cert_pem_def rsa_pss_sha384_signed_by_def issuer_matches_subject_def ec_p384_vcek_def
        demo_x509_def demo_cert_def P384_POINT_LEN_def)
  have n: "crl_name Milan \<noteq> chain_name Milan" by (simp add: crl_name_def chain_name_def)
  have r: "\<exists>w'. check_revocation demo_x509 Milan demo_cert demo_cert (\<lambda>_. Ok []) RevocationConfig_default w = (Ok (), w')"
    if "vw_files w (crl_name Milan) = None" "vw_can_write w (crl_name Milan)" for w
    using that
    by (simp add: check_revocation_def RevocationConfig_default_def obtain_crl_def usable_cached_crl_def cache_get_with_age_def
        cache_put_def sbind_def crl_signed_by_def demo_x509_def demo_crl_def demo_cert_def serial_revoked_def)
  let ?n = "vcek_name ref_backend Milan chip (Tcb_from_reported tcb)"
  have m: "crl_name Milan \<noteq> ?n" "chain_name Milan \<noteq> ?n" by (metis names_distinct)+
  let ?w2 = "blank_cache\<lparr>vw_files := [?n \<mapsto> ([], 1000), chain_name Milan \<mapsto> ([], 1000)]\<rparr>"
  obtain w' where w': "check_revocation demo_x509 Milan demo_cert demo_cert (\<lambda>_. Ok []) RevocationConfig_default ?w2 = (Ok (), w')"
    using r [of ?w2] n m by (auto simp: blank_cache_def)
  have "cached_or_fetched (chain_name Milan) u (\<lambda>_. Ok []) (blank_cache\<lparr>vw_files := [?n \<mapsto> ([], 1000)]\<rparr>) = (Ok [], ?w2)" for u
    using m by (auto simp: cached_or_fetched_def cache_get_def cache_put_def sbind_def blank_cache_def)
  moreover have "cached_or_fetched ?n u (\<lambda>_. Ok []) blank_cache = (Ok [], blank_cache\<lparr>vw_files := [?n \<mapsto> ([], 1000)]\<rparr>)" for u
    by (simp add: cached_or_fetched_def cache_get_def cache_put_def sbind_def blank_cache_def)
  moreover have "parse_cert_der demo_x509 [] = Ok demo_cert" by (simp add: parse_cert_der_def demo_x509_def)
  ultimately show ?thesis using w' v by (simp add: resolve_vcek_def Let_def sbind_def demo_chain)
qed

lemma le_word_zeros: "le_word (replicate n 0) = 0"
  by (induction n) simp_all

lemma demo_report_parses:
  "\<exists>r. parse_report demo_report = Ok r \<and> sr_vmpl r = 0 \<and> sr_report_data r = replicate 64 0
    \<and> sr_measurement r = replicate 48 0"
  by (simp add: parse_report_Ok demo_report_def snp_offsets slice_def le_word_zeros)

definition demo_public :: RecipientPublic where
  "demo_public = \<lparr>rp_x25519 = replicate 32 1, rp_mlkem_ek = [1, 2]\<rparr>"

lemma demo_public_bytes: "rp_from_bytes (rp_to_bytes demo_public) = Ok demo_public"
  by (rule rp_roundtrip_lib) (simp_all add: demo_public_def)

definition demo_policy :: Policy where
  "demo_policy = \<lparr>allowed_measurements = [replicate 48 0], require_vendor_root = True, expected_vmpl = Some 0\<rparr>"

definition demo_snp :: "vcek_world SnpVerifier" where
  "demo_snp = \<lparr>sv_vcek = None, sv_resolver = Some (\<lambda>chip tcb.
     resolve_vcek ref_backend demo_x509 Milan chip tcb (\<lambda>_. Ok []) RevocationConfig_default)\<rparr>"

definition demo_broker :: "vcek_world broker_state" where
  "demo_broker = \<lparr>bs_broker = broker_new (SnpV demo_snp) demo_policy [''kek'' \<mapsto> replicate 32 9],
     bs_resolver = blank_cache, bs_world = blank_disk\<lparr>w_rng := [replicate 32 3, [4], replicate 12 5]\<rparr>\<rparr>"

definition demo_request :: ReleaseRequest where
  "demo_request = \<lparr>rq_resource_id = ''kek'', rq_evidence = \<lparr>ev_backend = SevSnp, ev_report = demo_report, ev_runtime_pubkey = []\<rparr>,
     rq_runtime_pubkey = rp_to_bytes demo_public, rq_nonce = [7], rq_timestamp = 1000\<rparr>"

lemma demo_release:
  "\<exists>wrapped s'. release ref_backend demo_tee J 1000 demo_request demo_broker = (Ok wrapped, s')"
proof -
  obtain r where r: "parse_report demo_report = Ok r" "sr_vmpl r = 0" "sr_report_data r = replicate 64 0"
    "sr_measurement r = replicate 48 0" using demo_report_parses by blast
  obtain w' where w': "resolve_vcek ref_backend demo_x509 Milan (sr_chip_id r) (sr_reported_tcb r) (\<lambda>_. Ok [])
      RevocationConfig_default blank_cache = (Ok (4 # replicate 96 0), w')" using demo_resolve by blast
  obtain cl where v: "snp_verify ref_backend demo_tee demo_snp (rq_evidence demo_request) (replicate 64 0) demo_policy
      blank_cache = (Ok cl, w')"
    using r w' by (simp add: snp_verify_def demo_request_def sbind_def snp_vcek_def demo_snp_def Let_def
        verify_report_signature_def demo_tee_def demo_policy_def vmpl_allowed_def measurement_allowed_def)
  have step: "verify_step ref_backend demo_tee J demo_request demo_broker = (Ok cl, demo_broker\<lparr>bs_resolver := w'\<rparr>)"
    using v by (simp add: verify_step_def Let_def demo_broker_def broker_new_def verify_def
        release_report_data_def ReportData_bind_def demo_tee_def)
  obtain env where "seal_to ref_backend demo_public (replicate 32 9) [replicate 32 3, [4], replicate 12 5] = (Ok env, [])"
    by (rule ref_seal_to_returns [of "replicate 32 3" "replicate 12 5" demo_public "replicate 32 9" "[4]" "[]"])
      (simp_all only: length_replicate)
  then show ?thesis using step
    by (simp add: release_def sbind_def guard_step_def demo_broker_def broker_new_def demo_request_def demo_public_bytes
        seal_step_def)
qed

text \<open>A guest on the mock backend. The codec knows the one report of this run.\<close>

definition demo_mock_report :: MockReport where
  "demo_mock_report = \<lparr>mr_measurement = hex_encode ref_backend MOCK_MEASUREMENT,
     mr_report_data = hex_encode ref_backend (replicate 64 0),
     mr_mac = hex_encode ref_backend (mac_over ref_backend MOCK_MEASUREMENT (replicate 64 0))\<rparr>"

definition demo_broker_json :: broker_json where
  "demo_broker_json = \<lparr>bj_mock = \<lparr>to_vec = (\<lambda>r. if r = demo_mock_report then Some [1] else None),
       from_slice = (\<lambda>b. if b = [1] then Some demo_mock_report else None)\<rparr>,
     bj_seen = demo_seen_json\<rparr>"

lemma demo_mock_codec: "codec_law (bj_mock demo_broker_json)"
  by (simp add: codec_law_def demo_broker_json_def)

definition demo_guest :: "unit guest_state" where
  "demo_guest = \<lparr>gs_rng = [replicate 32 1, [2], replicate 32 6],
     gs_tsm = \<lparr>tsm_present = False, tsm_entries = {}, tsm_create_ok = False, tsm_write_ok = False, tsm_outblob = (\<lambda>_. None)\<rparr>,
     gs_broker = \<lparr>bs_broker = broker_new MockVerifier dev_permissive [''kek'' \<mapsto> replicate 32 9], bs_resolver = (),
       bs_world = blank_disk\<lparr>w_rng := [replicate 32 3, [4], replicate 12 5]\<rparr>\<rparr>\<rparr>"

lemma demo_guest_run:
  "\<exists>k s'. attest_and_unwrap ref_backend demo_tee demo_broker_json ''e'' 1000 1000 ''kek'' (MockAttester MOCK_MEASUREMENT)
    demo_guest = (Ok k, s')"
proof -
  obtain kp where kp: "kem_generate ref_backend [replicate 32 1, [2], replicate 32 6] = (Ok kp, [replicate 32 6])"
    by (simp add: kem_generate_def sbind_def random_bytes_def draw_coins_def ref_backend_def ref_ek_bytes_def)
  have ok: "rk_ok ref_backend kp" by (rule kem_generate_ok [OF kp])
  have ek: "length (rk_mlkem_ek kp) < 2 ^ 32"
    using kp by (auto simp: kem_generate_def sbind_def random_bytes_def draw_coins_def ref_backend_def ref_ek_bytes_def)
  have rp: "rp_from_bytes (rp_to_bytes (kem_public kp)) = Ok (kem_public kp)"
    using ok ek ref_kem_law by (intro rp_roundtrip_lib) (auto simp: rk_ok_def kem_public_def kem_law_def)
  let ?ev = "\<lparr>ev_backend = Mock, ev_report = [1], ev_runtime_pubkey = []\<rparr>"
  have ev: "mock_get_evidence ref_backend (bj_mock demo_broker_json) MOCK_MEASUREMENT (replicate 64 0) = Ok ?ev"
    by (simp add: mock_get_evidence_def Let_def demo_broker_json_def demo_mock_report_def)
  obtain cl where cl: "mock_verify ref_backend (bj_mock demo_broker_json) ?ev (replicate 64 0) dev_permissive = Ok cl"
    using mock_roundtrip [OF demo_mock_codec ref_hex_law _ _ _ ev, of dev_permissive]
    by (auto simp: dev_permissive_def measurement_allowed_def)
  obtain env where env: "seal_to ref_backend (kem_public kp) (replicate 32 9) [replicate 32 3, [4], replicate 12 5] = (Ok env, [])"
    by (rule ref_seal_to_returns [of "replicate 32 3" "replicate 12 5" "kem_public kp" "replicate 32 9" "[4]" "[]"])
      (simp_all only: length_replicate)
  have op: "kem_open ref_backend kp env = Ok (replicate 32 9)"
    by (rule kem_open_seal_to [OF ref_kem_law ref_aead_law ref_hkdf_law ok env])
  show ?thesis
    using kp ev cl env op rp
    by (simp add: attest_and_unwrap_def Let_def sbind_def guest_rng_def demo_guest_def random_bytes_def guest_attest_def
        get_evidence_def release_report_data_def ReportData_bind_def demo_tee_def ask_broker_def release_def verify_step_def
        broker_new_def verify_def guard_step_def seal_step_def)
qed


section \<open>Properties\<close>

text \<open>C1: what a released key proves. When a broker that demands the vendor root, privilege level 0 and a known
  measurement, and resolves chip keys through the cache, releases a key for a request, then: the report
  parses and is signed by a key that chains to the pinned root of the product and is not revoked; it was made
  at level 0 by a measured image; its report data binds the nonce, the timestamp and the public key of the
  request; the replay guard, when there is one, accepted the nonce; and the answer is the key of that
  resource sealed to that public key.\<close>

theorem release_only_to_genuine_guest:
  assumes "release B T J now req s = (Ok wrapped, s')"
    and "kb_verifier (bs_broker s) = SnpV v" "sv_vcek v = None"
    and "sv_resolver v = Some (\<lambda>chip tcb. resolve_vcek B X product chip tcb fetch cfg)"
    and "require_vendor_root (kb_policy (bs_broker s))" "expected_vmpl (kb_policy (bs_broker s)) = Some 0"
    and "allowed_measurements (kb_policy (bs_broker s)) \<noteq> []"
  shows "\<exists>report key kek rp rs rs'. parse_report (ev_report (rq_evidence req)) = Ok report
    \<and> trusted_vcek X product cfg (vw_now (bs_resolver s)) key \<and> verify_report_signature T report key
    \<and> sr_vmpl report = 0 \<and> sr_measurement report \<in> set (allowed_measurements (kb_policy (bs_broker s)))
    \<and> sr_report_data report = sha512 T (rq_nonce req @ le_bytes 8 (rq_timestamp req) @ rq_runtime_pubkey req)
    \<and> (\<forall>g. kb_replay_guard (bs_broker s) = Some g \<longrightarrow>
        fst (check_and_record_at B (bj_seen J) (rq_nonce req) (rq_timestamp req) now (g, bs_world s)) = Ok ())
    \<and> kb_keks (bs_broker s) (rq_resource_id req) = Some kek \<and> rp_from_bytes (rq_runtime_pubkey req) = Ok rp
    \<and> seal_to B rp kek rs = (Ok wrapped, rs')"
  using assms(1)
proof (rule release_Ok)
  fix cl x kek rp rs rs'
  let ?exp = "release_report_data T (rq_nonce req) (rq_timestamp req) (rq_runtime_pubkey req)"
  assume v: "verify B T (bj_mock J) (kb_verifier (bs_broker s)) (rq_evidence req) ?exp (kb_policy (bs_broker s))
      (bs_resolver s) = (Ok cl, x)"
    and rest: "\<forall>g. kb_replay_guard (bs_broker s) = Some g \<longrightarrow>
        fst (check_and_record_at B (bj_seen J) (rq_nonce req) (rq_timestamp req) now (g, bs_world s)) = Ok ()"
      "kb_keks (bs_broker s) (rq_resource_id req) = Some kek" "rp_from_bytes (rq_runtime_pubkey req) = Ok rp"
      "seal_to B rp kek rs = (Ok wrapped, rs')"
  have "snp_verify B T v (rq_evidence req) ?exp (kb_policy (bs_broker s)) (bs_resolver s) = (Ok cl, x)"
    using v assms(2) by (simp add: verify_def)
  then obtain report vcek where r: "parse_report (ev_report (rq_evidence req)) = Ok report"
    "snp_vcek v report (bs_resolver s) = (Ok vcek, x)" "snp_accepted T vcek ?exp (kb_policy (bs_broker s)) report"
    by (rule snp_verify_Ok)
  obtain key where key: "resolve_vcek B X product (sr_chip_id report) (sr_reported_tcb report) fetch cfg
      (bs_resolver s) = (Ok key, x)" "vcek = Some key"
    using r(2) assms(3,4) by (rule snp_vcek_resolved)
  show ?thesis
    using r(1,3) resolve_vcek_trusted [OF key(1)] key(2) rest assms(5-7)
    by (auto simp: snp_accepted_def vmpl_allowed_def measurement_allowed_def list_ex_iff
        release_report_data_def ReportData_bind_def)
qed

theorem release_only_to_genuine_guest_witness:
  "\<exists>wrapped s' report key kek. release ref_backend demo_tee demo_broker_json 1000 demo_request demo_broker = (Ok wrapped, s')
    \<and> parse_report demo_report = Ok report \<and> trusted_vcek demo_x509 Milan RevocationConfig_default 1000 key
    \<and> verify_report_signature demo_tee report key \<and> kb_keks (bs_broker demo_broker) ''kek'' = Some kek"
proof -
  obtain wrapped s' where run: "release ref_backend demo_tee demo_broker_json 1000 demo_request demo_broker = (Ok wrapped, s')"
    using demo_release by blast
  have "\<exists>report key kek. parse_report demo_report = Ok report
    \<and> trusted_vcek demo_x509 Milan RevocationConfig_default 1000 key
    \<and> verify_report_signature demo_tee report key \<and> kb_keks (bs_broker demo_broker) ''kek'' = Some kek"
    using release_only_to_genuine_guest [OF run, where v = demo_snp and X = demo_x509 and product = Milan
        and fetch = "\<lambda>_. Ok []" and cfg = RevocationConfig_default]
    by (auto simp: demo_broker_def broker_new_def demo_snp_def demo_policy_def demo_request_def blank_cache_def)
  then show ?thesis using run by blast
qed

text \<open>What the guest ends up with. When the guest's run of the protocol returns a key, it is the key the
  broker holds for the resource, whatever the attester and the verifier are.\<close>

lemma attest_and_unwrap_correct:
  assumes "kem_law B" "aead_law B" "hkdf_law B" "\<forall>dk ek. mlkem_ek_bytes B dk = Some ek \<longrightarrow> length ek < 2 ^ 32"
    and "attest_and_unwrap B T J unique guest_now broker_now resource_id attester s = (Ok k, s')"
  shows "kb_keks (bs_broker (gs_broker s)) resource_id = Some k \<and> length k = 32"
proof -
  obtain kp rs1 s1 nonce s2 evidence s3 wrapped s4 where
    gen: "kem_generate B (gs_rng s) = (Ok kp, rs1)" "s1 = s\<lparr>gs_rng := rs1\<rparr>"
    and n: "guest_rng (random_bytes 32) s1 = (Ok nonce, s2)"
    and ev: "guest_attest B J unique attester (release_report_data T nonce guest_now (rp_to_bytes (kem_public kp))) s2
       = (Ok evidence, s3)"
    and ask: "ask_broker B T J broker_now \<lparr>rq_resource_id = resource_id, rq_evidence = evidence,
       rq_runtime_pubkey = rp_to_bytes (kem_public kp), rq_nonce = nonce, rq_timestamp = guest_now\<rparr> s3 = (Ok wrapped, s4)"
    and open': "kem_open B kp wrapped = Ok k" "length k = 32"
    using assms(5)
    by (auto simp: attest_and_unwrap_def Let_def sbind_eq_Ok guest_rng_def split: if_splits prod.splits)
  have same: "gs_broker s3 = gs_broker s"
    using gen n ev by (auto simp: guest_rng_def guest_attest_def split: prod.splits)
  obtain b where rel: "release B T J broker_now \<lparr>rq_resource_id = resource_id, rq_evidence = evidence,
       rq_runtime_pubkey = rp_to_bytes (kem_public kp), rq_nonce = nonce, rq_timestamp = guest_now\<rparr> (gs_broker s)
       = (Ok wrapped, b)"
    using ask same by (auto simp: ask_broker_def split: prod.splits)
  have kp: "rk_ok B kp" by (rule kem_generate_ok [OF gen(1)])
  then have rp: "rp_from_bytes (rp_to_bytes (kem_public kp)) = Ok (kem_public kp)"
    using assms(1,4) by (intro rp_roundtrip_lib) (auto simp: rk_ok_def kem_public_def kem_law_def)
  show ?thesis using rel
  proof (rule release_Ok)
    fix kek rp' rs rs'
    assume a: "kb_keks (bs_broker (gs_broker s)) (rq_resource_id \<lparr>rq_resource_id = resource_id, rq_evidence = evidence,
       rq_runtime_pubkey = rp_to_bytes (kem_public kp), rq_nonce = nonce, rq_timestamp = guest_now\<rparr>) = Some kek"
      "rp_from_bytes (rq_runtime_pubkey \<lparr>rq_resource_id = resource_id, rq_evidence = evidence,
       rq_runtime_pubkey = rp_to_bytes (kem_public kp), rq_nonce = nonce, rq_timestamp = guest_now\<rparr>) = Ok rp'"
      "seal_to B rp' kek rs = (Ok wrapped, rs')"
    then have "kem_open B kp wrapped = Ok kek"
      using rp by (intro kem_open_seal_to [OF assms(1-3) kp]) simp
    then show ?thesis using a(1) open' by simp
  qed
qed

lemma demo_guest_key:
  "\<exists>s'. attest_and_unwrap ref_backend demo_tee demo_broker_json ''e'' 1000 1000 ''kek'' (MockAttester MOCK_MEASUREMENT)
    demo_guest = (Ok (replicate 32 9), s')"
proof -
  obtain k s' where run: "attest_and_unwrap ref_backend demo_tee demo_broker_json ''e'' 1000 1000 ''kek''
      (MockAttester MOCK_MEASUREMENT) demo_guest = (Ok k, s')" using demo_guest_run by blast
  have "k = replicate 32 9"
    using attest_and_unwrap_correct [OF ref_kem_law ref_aead_law ref_hkdf_law _ run]
    by (simp add: demo_guest_def broker_new_def ref_backend_def ref_ek_bytes_def)
  then show ?thesis using run by blast
qed

end
