(* ===== verification/Review.thy ===== *)
theory Review
  imports Store_Refinement Json
begin

text \<open>
  Pull requests and code review (\<open>secgit-review\<close>): every operation of \<open>Reviews\<close> over the object store of
  \<open>KV\<close>, with \<open>serde_json\<close> at each type as a parameter. The merge gate is shown to be the policy it states, and
  the numbering of pull requests is analysed. Numbers are \<open>u64\<close> and wrap around, as in the release profile.
\<close>

section \<open>Data\<close>

datatype PrState = PrOpen | PrMerged | PrClosed

record PullRequest =
  pr_id :: string
  pr_repo_id :: string
  pr_number :: u64
  pr_title :: string
  pr_description :: string
  pr_author_id :: string
  pr_source_branch :: string
  pr_target_branch :: string
  pr_head_sha :: string
  pr_state :: PrState
  pr_created_at :: u64
  pr_updated_at :: u64

datatype IssueState = IssueOpen | IssueClosed

record Comment =
  cm_id :: string
  cm_author_id :: string
  cm_body :: string
  cm_suggestion :: "string option"
  cm_created_at :: u64

record Issue =
  is_id :: string
  is_repo_id :: string
  is_number :: u64
  is_title :: string
  is_body :: string
  is_author_id :: string
  is_state :: IssueState
  is_labels :: "string list"
  is_comments :: "Comment list"
  is_created_at :: u64
  is_updated_at :: u64

record ReviewThread =
  th_id :: string
  th_pr_id :: string
  th_path :: string
  th_line :: u32
  th_resolved :: bool
  th_comments :: "Comment list"

datatype ReviewState = Approved | ChangesRequested | Commented

record Review =
  rv_id :: string
  rv_pr_id :: string
  rv_reviewer_id :: string
  rv_state :: ReviewState
  rv_head_sha :: string
  rv_created_at :: u64

datatype CheckState = CheckPending | CheckSuccess | CheckFailure

record StatusCheck =
  ck_pr_id :: string
  ck_context :: string
  ck_state :: CheckState
  ck_description :: string
  ck_head_sha :: string

record BranchProtection =
  bp_repo_id :: string
  bp_branch :: string
  bp_required_approvals :: u32
  bp_required_checks :: "string list"
  bp_block_direct_push :: bool
  bp_dismiss_stale_approvals :: bool

definition unprotected :: "string \<Rightarrow> string \<Rightarrow> BranchProtection" where
  "unprotected repo_id branch = \<lparr>bp_repo_id = repo_id, bp_branch = branch, bp_required_approvals = 0,
     bp_required_checks = [], bp_block_direct_push = False, bp_dismiss_stale_approvals = False\<rparr>"

datatype ReviewError = RStorage | RSerde | RNotFound string

record MergeStatus =
  ms_mergeable :: bool
  ms_approvals :: u32
  ms_required_approvals :: u32
  ms_changes_requested :: bool
  ms_failing_or_missing_checks :: "string list"
  ms_reasons :: "string list"

record review_json =
  j_pr :: "PullRequest codec"
  j_issue :: "Issue codec"
  j_thread :: "ReviewThread codec"
  j_review :: "Review codec"
  j_check :: "StatusCheck codec"
  j_protection :: "BranchProtection codec"
  j_ids :: "string list codec"
  j_counter :: "u64 codec"

section \<open>Internals\<close>

definition rokey :: "string \<Rightarrow> string \<Rightarrow> string" where
  "rokey kind key = kind @ ''/'' @ key"

definition rput :: "('w, 'e) kv \<Rightarrow> 'a codec \<Rightarrow> string \<Rightarrow> string \<Rightarrow> 'a \<Rightarrow> ('w, ReviewError, unit) st" where
  "rput S c repo_id key v = json_put S c RSerde (\<lambda>_. RStorage) repo_id key v"

definition rget :: "('w, 'e) kv \<Rightarrow> 'a codec \<Rightarrow> string \<Rightarrow> string \<Rightarrow> ('w, ReviewError, 'a option) st" where
  "rget S c repo_id key = json_get S c RSerde (\<lambda>_. RStorage) repo_id key"

definition rindex :: "('w, 'e) kv \<Rightarrow> review_json \<Rightarrow> string \<Rightarrow> string \<Rightarrow> ('w, ReviewError, string list) st" where
  "rindex S J repo_id key = sbind (rget S (j_ids J) repo_id key) (\<lambda>x. sret (unwrap_or x []))"

definition index_add :: "('w, 'e) kv \<Rightarrow> review_json \<Rightarrow> string \<Rightarrow> string \<Rightarrow> string \<Rightarrow> ('w, ReviewError, unit) st" where
  "index_add S J repo_id key i =
    sbind (rindex S J repo_id key) (\<lambda>ids.
    if \<not> list_ex (\<lambda>x. x = i) ids then rput S (j_ids J) repo_id key (ids @ [i]) else sret ())"

definition next_number :: "('w, 'e) kv \<Rightarrow> review_json \<Rightarrow> string \<Rightarrow> ('w, ReviewError, u64) st" where
  "next_number S J repo_id =
    sbind (rget S (j_counter J) repo_id ''pr/counter'') (\<lambda>cur.
    let nxt = unwrap_or cur 0 + 1 in
    sbind (rput S (j_counter J) repo_id ''pr/counter'' nxt) (\<lambda>_. sret nxt))"

text \<open>The loops of the \<open>list_*\<close> operations: the objects the index names, those that are there.\<close>

fun rlist :: "('w, 'e) kv \<Rightarrow> 'a codec \<Rightarrow> string \<Rightarrow> (string \<Rightarrow> string) \<Rightarrow> string list \<Rightarrow> ('w, ReviewError, 'a list) st" where
  "rlist S c repo_id key [] = sret []"
| "rlist S c repo_id key (i # ids) =
    sbind (rget S c repo_id (key i)) (\<lambda>x.
    sbind (rlist S c repo_id key ids) (\<lambda>out. sret (case x of Some v \<Rightarrow> v # out | None \<Rightarrow> out)))"

section \<open>Pull requests and issues\<close>

definition open_pr ::
  "('w, 'e) kv \<Rightarrow> review_json \<Rightarrow> string \<Rightarrow> string \<Rightarrow> string \<Rightarrow> string \<Rightarrow> string \<Rightarrow> string \<Rightarrow> string \<Rightarrow> u64 \<Rightarrow>
    ('w, ReviewError, PullRequest) st" where
  "open_pr S J repo_id author_id title description source_branch target_branch head_sha now =
    sbind (next_number S J repo_id) (\<lambda>number.
    let pr = \<lparr>pr_id = ''pr_'' @ repo_id @ ''_'' @ dec (unat number), pr_repo_id = repo_id, pr_number = number,
          pr_title = title, pr_description = description, pr_author_id = author_id,
          pr_source_branch = source_branch, pr_target_branch = target_branch, pr_head_sha = head_sha,
          pr_state = PrOpen, pr_created_at = now, pr_updated_at = now\<rparr> in
    sbind (rput S (j_pr J) repo_id (rokey ''pr'' (pr_id pr)) pr) (\<lambda>_.
    sbind (index_add S J repo_id ''pr/index'' (pr_id pr)) (\<lambda>_. sret pr)))"

definition get_pr :: "('w, 'e) kv \<Rightarrow> review_json \<Rightarrow> string \<Rightarrow> string \<Rightarrow> ('w, ReviewError, PullRequest option) st" where
  "get_pr S J repo_id i = rget S (j_pr J) repo_id (rokey ''pr'' i)"

definition put_pr :: "('w, 'e) kv \<Rightarrow> review_json \<Rightarrow> PullRequest \<Rightarrow> ('w, ReviewError, unit) st" where
  "put_pr S J pr =
    sbind (rput S (j_pr J) (pr_repo_id pr) (rokey ''pr'' (pr_id pr)) pr) (\<lambda>_.
    index_add S J (pr_repo_id pr) ''pr/index'' (pr_id pr))"

definition list_prs :: "('w, 'e) kv \<Rightarrow> review_json \<Rightarrow> string \<Rightarrow> ('w, ReviewError, PullRequest list) st" where
  "list_prs S J repo_id =
    sbind (rindex S J repo_id ''pr/index'') (\<lambda>ids.
    sbind (rlist S (j_pr J) repo_id (rokey ''pr'') ids) (\<lambda>out.
    sret (sort_key (\<lambda>p. - int (unat (pr_number p))) out)))"

definition update_head :: "('w, 'e) kv \<Rightarrow> review_json \<Rightarrow> string \<Rightarrow> string \<Rightarrow> string \<Rightarrow> u64 \<Rightarrow> ('w, ReviewError, unit) st" where
  "update_head S J repo_id i head_sha now =
    sbind (get_pr S J repo_id i) (\<lambda>x.
    sbind (slift (ok_or (RNotFound i) x)) (\<lambda>pr.
    rput S (j_pr J) repo_id (rokey ''pr'' i) (pr\<lparr>pr_head_sha := head_sha, pr_updated_at := now\<rparr>)))"

definition set_pr_state :: "('w, 'e) kv \<Rightarrow> review_json \<Rightarrow> string \<Rightarrow> string \<Rightarrow> PrState \<Rightarrow> u64 \<Rightarrow> ('w, ReviewError, unit) st" where
  "set_pr_state S J repo_id i state now =
    sbind (get_pr S J repo_id i) (\<lambda>x.
    sbind (slift (ok_or (RNotFound i) x)) (\<lambda>pr.
    rput S (j_pr J) repo_id (rokey ''pr'' i) (pr\<lparr>pr_state := state, pr_updated_at := now\<rparr>)))"

definition put_issue :: "('w, 'e) kv \<Rightarrow> review_json \<Rightarrow> Issue \<Rightarrow> ('w, ReviewError, unit) st" where
  "put_issue S J issue =
    sbind (rput S (j_issue J) (is_repo_id issue) (rokey ''issue'' (is_id issue)) issue) (\<lambda>_.
    index_add S J (is_repo_id issue) ''issue/index'' (is_id issue))"

definition get_issue :: "('w, 'e) kv \<Rightarrow> review_json \<Rightarrow> string \<Rightarrow> string \<Rightarrow> ('w, ReviewError, Issue option) st" where
  "get_issue S J repo_id i = rget S (j_issue J) repo_id (rokey ''issue'' i)"

definition list_issues :: "('w, 'e) kv \<Rightarrow> review_json \<Rightarrow> string \<Rightarrow> ('w, ReviewError, Issue list) st" where
  "list_issues S J repo_id =
    sbind (rindex S J repo_id ''issue/index'') (\<lambda>ids.
    sbind (rlist S (j_issue J) repo_id (rokey ''issue'') ids) (\<lambda>out.
    sret (sort_key (\<lambda>p. - int (unat (is_number p))) out)))"

section \<open>Threads, reviews, checks, protection\<close>

definition add_thread :: "('w, 'e) kv \<Rightarrow> review_json \<Rightarrow> string \<Rightarrow> ReviewThread \<Rightarrow> ('w, ReviewError, unit) st" where
  "add_thread S J repo_id thread =
    sbind (rput S (j_thread J) repo_id (rokey ''thread'' (th_id thread)) thread) (\<lambda>_.
    index_add S J repo_id (''thread/index/'' @ th_pr_id thread) (th_id thread))"

definition add_comment :: "('w, 'e) kv \<Rightarrow> review_json \<Rightarrow> string \<Rightarrow> string \<Rightarrow> Comment \<Rightarrow> ('w, ReviewError, unit) st" where
  "add_comment S J repo_id thread_id comment =
    sbind (rget S (j_thread J) repo_id (rokey ''thread'' thread_id)) (\<lambda>x.
    sbind (slift (ok_or (RNotFound thread_id) x)) (\<lambda>thread.
    rput S (j_thread J) repo_id (rokey ''thread'' thread_id) (thread\<lparr>th_comments := th_comments thread @ [comment]\<rparr>)))"

definition resolve_thread :: "('w, 'e) kv \<Rightarrow> review_json \<Rightarrow> string \<Rightarrow> string \<Rightarrow> bool \<Rightarrow> ('w, ReviewError, unit) st" where
  "resolve_thread S J repo_id thread_id resolved =
    sbind (rget S (j_thread J) repo_id (rokey ''thread'' thread_id)) (\<lambda>x.
    sbind (slift (ok_or (RNotFound thread_id) x)) (\<lambda>thread.
    rput S (j_thread J) repo_id (rokey ''thread'' thread_id) (thread\<lparr>th_resolved := resolved\<rparr>)))"

definition list_threads :: "('w, 'e) kv \<Rightarrow> review_json \<Rightarrow> string \<Rightarrow> string \<Rightarrow> ('w, ReviewError, ReviewThread list) st" where
  "list_threads S J repo_id i =
    sbind (rindex S J repo_id (''thread/index/'' @ i)) (rlist S (j_thread J) repo_id (rokey ''thread''))"

definition submit_review :: "('w, 'e) kv \<Rightarrow> review_json \<Rightarrow> string \<Rightarrow> Review \<Rightarrow> ('w, ReviewError, unit) st" where
  "submit_review S J repo_id review =
    sbind (rput S (j_review J) repo_id (rokey ''review'' (rv_id review)) review) (\<lambda>_.
    index_add S J repo_id (''review/index/'' @ rv_pr_id review) (rv_id review))"

definition list_reviews :: "('w, 'e) kv \<Rightarrow> review_json \<Rightarrow> string \<Rightarrow> string \<Rightarrow> ('w, ReviewError, Review list) st" where
  "list_reviews S J repo_id i =
    sbind (rindex S J repo_id (''review/index/'' @ i)) (rlist S (j_review J) repo_id (rokey ''review''))"

definition report_check :: "('w, 'e) kv \<Rightarrow> review_json \<Rightarrow> string \<Rightarrow> StatusCheck \<Rightarrow> ('w, ReviewError, unit) st" where
  "report_check S J repo_id check =
    sbind (rput S (j_check J) repo_id (''check/'' @ ck_pr_id check @ ''/'' @ ck_context check) check) (\<lambda>_.
    index_add S J repo_id (''check/index/'' @ ck_pr_id check) (ck_context check))"

definition list_checks :: "('w, 'e) kv \<Rightarrow> review_json \<Rightarrow> string \<Rightarrow> string \<Rightarrow> ('w, ReviewError, StatusCheck list) st" where
  "list_checks S J repo_id i =
    sbind (rindex S J repo_id (''check/index/'' @ i)) (rlist S (j_check J) repo_id (\<lambda>ctx. ''check/'' @ i @ ''/'' @ ctx))"

definition set_protection :: "('w, 'e) kv \<Rightarrow> review_json \<Rightarrow> BranchProtection \<Rightarrow> ('w, ReviewError, unit) st" where
  "set_protection S J p = rput S (j_protection J) (bp_repo_id p) (''protection/'' @ bp_branch p) p"

definition get_protection :: "('w, 'e) kv \<Rightarrow> review_json \<Rightarrow> string \<Rightarrow> string \<Rightarrow> ('w, ReviewError, BranchProtection option) st" where
  "get_protection S J repo_id branch = rget S (j_protection J) repo_id (''protection/'' @ branch)"

definition direct_push_allowed :: "('w, 'e) kv \<Rightarrow> review_json \<Rightarrow> string \<Rightarrow> string \<Rightarrow> ('w, ReviewError, bool) st" where
  "direct_push_allowed S J repo_id branch =
    sbind (get_protection S J repo_id branch) (\<lambda>x.
    sret (case x of Some p \<Rightarrow> \<not> bp_block_direct_push p | None \<Rightarrow> True))"

section \<open>The merge gate\<close>

text \<open>One pass of the loop that keeps the latest review of every reviewer.\<close>

definition keep_latest :: "BranchProtection \<Rightarrow> PullRequest \<Rightarrow> Review \<Rightarrow> (string, Review) hmap \<Rightarrow> (string, Review) hmap" where
  "keep_latest p pr r latest =
    (if bp_dismiss_stale_approvals p \<and> rv_head_sha r \<noteq> pr_head_sha pr then latest
     else case map_of latest (rv_reviewer_id r) of
       Some cur \<Rightarrow> if rv_created_at r \<ge> rv_created_at cur then hm_insert (rv_reviewer_id r) r latest else latest
     | None \<Rightarrow> hm_insert (rv_reviewer_id r) r latest)"

definition check_green :: "PullRequest \<Rightarrow> StatusCheck list \<Rightarrow> string \<Rightarrow> bool" where
  "check_green pr checks ctx = list_ex (\<lambda>c. ck_context c = ctx \<and> ck_state c = CheckSuccess \<and> ck_head_sha c = pr_head_sha pr) checks"

definition merge_decide :: "PullRequest \<Rightarrow> BranchProtection \<Rightarrow> Review list \<Rightarrow> StatusCheck list \<Rightarrow> MergeStatus" where
  "merge_decide pr p reviews checks =
    (let latest = map snd (fold (keep_latest p pr) reviews []);
         approvals = word_of_nat (length (filter (\<lambda>r. rv_state r = Approved) latest)) :: u32;
         changes_requested = list_ex (\<lambda>r. rv_state r = ChangesRequested) latest;
         failing = filter (\<lambda>ctx. \<not> check_green pr checks ctx) (bp_required_checks p);
         reasons =
           (if pr_state pr \<noteq> PrOpen then [''pull request is not open''] else [])
           @ (if changes_requested then [''changes requested by a reviewer''] else [])
           @ (if approvals < bp_required_approvals p
              then [''needs '' @ dec (unat (bp_required_approvals p)) @ '' approval(s), has '' @ dec (unat approvals)] else [])
           @ (if failing \<noteq> [] then [''required checks not green: '' @ join_with '', '' failing] else [])
     in \<lparr>ms_mergeable = (reasons = []), ms_approvals = approvals, ms_required_approvals = bp_required_approvals p,
         ms_changes_requested = changes_requested, ms_failing_or_missing_checks = failing, ms_reasons = reasons\<rparr>)"

definition merge_status :: "('w, 'e) kv \<Rightarrow> review_json \<Rightarrow> PullRequest \<Rightarrow> ('w, ReviewError, MergeStatus) st" where
  "merge_status S J pr =
    sbind (get_protection S J (pr_repo_id pr) (pr_target_branch pr)) (\<lambda>x.
    let p = unwrap_or x (unprotected (pr_repo_id pr) (pr_target_branch pr)) in
    sbind (list_reviews S J (pr_repo_id pr) (pr_id pr)) (\<lambda>reviews.
    sbind (list_checks S J (pr_repo_id pr) (pr_id pr)) (\<lambda>checks.
    sret (merge_decide pr p reviews checks))))"

section \<open>The latest verdict\<close>

text \<open>The specification: a review counts unless it is stale and the branch dismisses stale ones; the verdict of
  a reviewer is the counting review with the latest time, the last submitted one among equals.\<close>

definition counts :: "BranchProtection \<Rightarrow> PullRequest \<Rightarrow> Review \<Rightarrow> bool" where
  "counts p pr r \<longleftrightarrow> (bp_dismiss_stale_approvals p \<longrightarrow> rv_head_sha r = pr_head_sha pr)"

definition verdict :: "BranchProtection \<Rightarrow> PullRequest \<Rightarrow> Review list \<Rightarrow> string \<Rightarrow> Review \<Rightarrow> bool" where
  "verdict p pr reviews u r \<longleftrightarrow> counts p pr r \<and> rv_reviewer_id r = u \<and> (\<exists>a b. reviews = a @ r # b
    \<and> (\<forall>x \<in> set a. counts p pr x \<longrightarrow> rv_reviewer_id x = u \<longrightarrow> rv_created_at x \<le> rv_created_at r)
    \<and> (\<forall>x \<in> set b. counts p pr x \<longrightarrow> rv_reviewer_id x = u \<longrightarrow> rv_created_at x < rv_created_at r))"

lemma verdict_Nil [simp]: "\<not> verdict p pr [] u r"
  by (simp add: verdict_def)

lemma snoc_split: "rs @ [x] = a @ r # b \<longleftrightarrow> (b = [] \<and> a = rs \<and> r = x) \<or> (\<exists>b'. b = b' @ [x] \<and> rs = a @ r # b')"
  by (cases b rule: rev_cases) auto

lemma ex_snoc_split:
  "(\<exists>a b. rs @ [x] = a @ r # b \<and> P a b) \<longleftrightarrow> (r = x \<and> P rs []) \<or> (\<exists>a b. rs = a @ r # b \<and> P a (b @ [x]))"
  unfolding snoc_split by blast

lemma verdict_snoc:
  "verdict p pr (rs @ [x]) u r \<longleftrightarrow>
    (r = x \<and> counts p pr x \<and> rv_reviewer_id x = u
       \<and> (\<forall>y \<in> set rs. counts p pr y \<longrightarrow> rv_reviewer_id y = u \<longrightarrow> rv_created_at y \<le> rv_created_at x))
    \<or> (verdict p pr rs u r \<and> (counts p pr x \<longrightarrow> rv_reviewer_id x = u \<longrightarrow> rv_created_at x < rv_created_at r))"
  unfolding verdict_def ex_snoc_split by auto

lemma verdict_max:
  assumes "verdict p pr rs u r" "y \<in> set rs" "counts p pr y" "rv_reviewer_id y = u"
  shows "rv_created_at y \<le> rv_created_at r"
proof -
  obtain a b where "rs = a @ r # b"
    "\<forall>x \<in> set a. counts p pr x \<longrightarrow> rv_reviewer_id x = u \<longrightarrow> rv_created_at x \<le> rv_created_at r"
    "\<forall>x \<in> set b. counts p pr x \<longrightarrow> rv_reviewer_id x = u \<longrightarrow> rv_created_at x < rv_created_at r"
    using assms(1) unfolding verdict_def by blast
  then show ?thesis using assms(2-4) less_imp_le by fastforce
qed

lemma verdict_exists:
  "(\<exists>r. verdict p pr rs u r) \<longleftrightarrow> (\<exists>y \<in> set rs. counts p pr y \<and> rv_reviewer_id y = u)"
proof (induction rs rule: rev_induct)
  case (snoc x rs)
  show ?case
  proof (cases "counts p pr x \<and> rv_reviewer_id x = u")
    case True
    have "\<exists>r. verdict p pr (rs @ [x]) u r"
    proof (cases "\<exists>r. verdict p pr rs u r \<and> rv_created_at x < rv_created_at r")
      case False
      have "rv_created_at y \<le> rv_created_at x" if y: "y \<in> set rs" "counts p pr y" "rv_reviewer_id y = u" for y
      proof -
        obtain r where "verdict p pr rs u r" using snoc y by blast
        then show ?thesis using False verdict_max [OF _ y] by (meson not_less order_trans)
      qed
      then show ?thesis using True by (auto simp: verdict_snoc)
    qed (auto simp: verdict_snoc)
    then show ?thesis using True by auto
  next
    case False
    then have "verdict p pr (rs @ [x]) u r \<longleftrightarrow> verdict p pr rs u r" for r by (auto simp: verdict_snoc)
    then show ?thesis using snoc False by auto
  qed
qed simp

lemma verdict_unique: "verdict p pr rs u r \<Longrightarrow> verdict p pr rs u r' \<Longrightarrow> r = r'"
proof (induction rs rule: rev_induct)
  case (snoc x rs)
  have "False" if v: "verdict p pr rs u q" "counts p pr x \<longrightarrow> rv_reviewer_id x = u \<longrightarrow> rv_created_at x < rv_created_at q"
    and x: "counts p pr x" "rv_reviewer_id x = u"
      "\<forall>y \<in> set rs. counts p pr y \<longrightarrow> rv_reviewer_id y = u \<longrightarrow> rv_created_at y \<le> rv_created_at x" for q
  proof -
    have "q \<in> set rs" "counts p pr q" "rv_reviewer_id q = u" using v(1) by (auto simp: verdict_def)
    then show False using v(2) x by (metis leD)
  qed
  then show ?case using snoc unfolding verdict_snoc by blast
qed simp

lemma verdict_step:
  "\<not> (counts p pr x \<and> rv_reviewer_id x = u) \<Longrightarrow> verdict p pr (rs @ [x]) u r \<longleftrightarrow> verdict p pr rs u r"
  "counts p pr x \<Longrightarrow> rv_reviewer_id x = u \<Longrightarrow> \<nexists>q. verdict p pr rs u q \<Longrightarrow> verdict p pr (rs @ [x]) u r \<longleftrightarrow> r = x"
  "counts p pr x \<Longrightarrow> rv_reviewer_id x = u \<Longrightarrow> verdict p pr rs u q \<Longrightarrow> rv_created_at q \<le> rv_created_at x \<Longrightarrow>
    verdict p pr (rs @ [x]) u r \<longleftrightarrow> r = x"
  "counts p pr x \<Longrightarrow> rv_reviewer_id x = u \<Longrightarrow> verdict p pr rs u q \<Longrightarrow> rv_created_at x < rv_created_at q \<Longrightarrow>
    verdict p pr (rs @ [x]) u r \<longleftrightarrow> r = q"
proof -
  show "\<not> (counts p pr x \<and> rv_reviewer_id x = u) \<Longrightarrow> verdict p pr (rs @ [x]) u r \<longleftrightarrow> verdict p pr rs u r"
    by (auto simp: verdict_snoc)
  assume x: "counts p pr x" "rv_reviewer_id x = u"
  show "\<nexists>q. verdict p pr rs u q \<Longrightarrow> verdict p pr (rs @ [x]) u r \<longleftrightarrow> r = x"
    using x verdict_exists [of p pr rs u] unfolding verdict_snoc by blast
  assume q: "verdict p pr rs u q"
  show "verdict p pr (rs @ [x]) u r \<longleftrightarrow> r = x" if le: "rv_created_at q \<le> rv_created_at x"
  proof -
    have "\<forall>y \<in> set rs. counts p pr y \<longrightarrow> rv_reviewer_id y = u \<longrightarrow> rv_created_at y \<le> rv_created_at x"
      using verdict_max [OF q] le by (meson order_trans)
    then have "verdict p pr (rs @ [x]) u x" using x by (simp add: verdict_snoc)
    then show ?thesis using verdict_unique by blast
  qed
  show "verdict p pr (rs @ [x]) u r \<longleftrightarrow> r = q" if "rv_created_at x < rv_created_at q"
  proof -
    have "verdict p pr (rs @ [x]) u q" using q that by (simp add: verdict_snoc)
    then show ?thesis using verdict_unique by blast
  qed
qed

lemma latest_verdict:
  "hm_ok (fold (keep_latest p pr) rs [])
    \<and> (\<forall>u r. map_of (fold (keep_latest p pr) rs []) u = Some r \<longleftrightarrow> verdict p pr rs u r)"
proof (induction rs rule: rev_induct)
  case Nil
  then show ?case by simp
next
  case (snoc x rs)
  define m where "m = fold (keep_latest p pr) rs []"
  have IH: "hm_ok m" "\<And>u r. map_of m u = Some r \<longleftrightarrow> verdict p pr rs u r" using snoc by (auto simp: m_def)
  have "map_of (keep_latest p pr x m) u = Some r \<longleftrightarrow> verdict p pr (rs @ [x]) u r" for u r
  proof (cases "counts p pr x \<and> rv_reviewer_id x = u")
    case False
    then have "map_of (keep_latest p pr x m) u = map_of m u"
      by (auto simp: keep_latest_def counts_def split: option.splits)
    then show ?thesis using verdict_step(1) [OF False] IH by simp
  next
    case True
    then have k: "keep_latest p pr x m = (case map_of m u of
           Some cur \<Rightarrow> if rv_created_at x \<ge> rv_created_at cur then hm_insert u x m else m
         | None \<Rightarrow> hm_insert u x m)"
      by (auto simp: keep_latest_def counts_def split: option.splits)
    show ?thesis
    proof (cases "map_of m u")
      case None
      then have "\<nexists>q. verdict p pr rs u q" using IH(2) by (metis option.distinct(1))
      then show ?thesis using verdict_step(2) True None unfolding k by auto
    next
      case (Some cur)
      then have q: "verdict p pr rs u cur" using IH(2) by simp
      show ?thesis
      proof (cases "rv_created_at cur \<le> rv_created_at x")
        case le: True
        then show ?thesis using verdict_step(3) [OF _ _ q le] True Some unfolding k by auto
      next
        case False
        then have "rv_created_at x < rv_created_at cur" by simp
        then show ?thesis using verdict_step(4) [OF _ _ q] True Some False unfolding k by auto
      qed
    qed
  qed
  moreover have "hm_ok (keep_latest p pr x m)" using IH(1) by (auto simp: keep_latest_def split: option.splits)
  ultimately show ?case by (simp add: m_def)
qed

lemma hm_count:
  assumes "hm_ok m"
  shows "length (filter P (map snd m)) = card {k. \<exists>v. map_of m k = Some v \<and> P v}"
proof -
  have "{k. \<exists>v. map_of m k = Some v \<and> P v} = fst ` set (filter (P \<circ> snd) m)"
    using assms by (force simp: hm_ok_def dest: map_of_SomeD)
  moreover have "distinct (map fst (filter (P \<circ> snd) m))" using assms by (simp add: hm_ok_def distinct_map_filter)
  ultimately show ?thesis by (metis distinct_card filter_map length_map set_map)
qed

text \<open>The policy of the gate.\<close>

definition may_merge :: "PullRequest \<Rightarrow> BranchProtection \<Rightarrow> Review list \<Rightarrow> StatusCheck list \<Rightarrow> bool" where
  "may_merge pr p reviews checks \<longleftrightarrow> pr_state pr = PrOpen
    \<and> (\<nexists>u r. verdict p pr reviews u r \<and> rv_state r = ChangesRequested)
    \<and> unat (bp_required_approvals p) \<le> card {u. \<exists>r. verdict p pr reviews u r \<and> rv_state r = Approved}
    \<and> (\<forall>ctx \<in> set (bp_required_checks p). \<exists>c \<in> set checks. ck_context c = ctx \<and> ck_state c = CheckSuccess \<and> ck_head_sha c = pr_head_sha pr)"

lemma length_latest: "length (fold (keep_latest p pr) rs m) \<le> length m + length rs"
proof (induction rs arbitrary: m)
  case (Cons r rs)
  have "length (keep_latest p pr r m) \<le> Suc (length m)"
    by (auto simp: keep_latest_def hm_insert_def hm_remove_def le_SucI split: option.splits)
  then show ?case using Cons [of "keep_latest p pr r m"] by simp
qed simp

lemma merge_decide_policy:
  assumes "length reviews < 2 ^ 32"
  shows "ms_mergeable (merge_decide pr p reviews checks) \<longleftrightarrow> may_merge pr p reviews checks"
proof -
  let ?m = "fold (keep_latest p pr) reviews []"
  have ok: "hm_ok ?m" and lv: "\<And>u r. map_of ?m u = Some r \<longleftrightarrow> verdict p pr reviews u r"
    using latest_verdict [of p pr reviews] by auto
  have n: "length (filter (\<lambda>r. rv_state r = Approved) (map snd ?m)) = card {u. \<exists>r. verdict p pr reviews u r \<and> rv_state r = Approved}"
    using hm_count [OF ok] lv by simp
  have "length (filter (\<lambda>r. rv_state r = Approved) (map snd ?m)) < 2 ^ 32"
    using length_latest [of p pr reviews "[]"] assms length_filter_le [of "\<lambda>r. rv_state r = Approved" "map snd ?m"]
    unfolding length_map list.size(3) add_0 by linarith
  then have a: "unat (word_of_nat (length (filter (\<lambda>r. rv_state r = Approved) (map snd ?m))) :: u32) =
      card {u. \<exists>r. verdict p pr reviews u r \<and> rv_state r = Approved}"
    unfolding n by (simp add: unat_of_nat)
  have c: "list_ex (\<lambda>r. rv_state r = ChangesRequested) (map snd ?m) \<longleftrightarrow>
      (\<exists>u r. verdict p pr reviews u r \<and> rv_state r = ChangesRequested)"
    using hm_values [OF ok] lv unfolding list_ex_iff by blast
  define ap where "ap = (word_of_nat (length (filter (\<lambda>r. rv_state r = Approved) (map snd ?m))) :: u32)"
  define ch where "ch = list_ex (\<lambda>r. rv_state r = ChangesRequested) (map snd ?m)"
  have "ms_mergeable (merge_decide pr p reviews checks) \<longleftrightarrow> pr_state pr = PrOpen \<and> \<not> ch \<and> \<not> ap < bp_required_approvals p
      \<and> filter (\<lambda>ctx. \<not> check_green pr checks ctx) (bp_required_checks p) = []"
    unfolding merge_decide_def Let_def ap_def [symmetric] ch_def [symmetric] by simp
  also have "\<dots> \<longleftrightarrow> may_merge pr p reviews checks"
    using a c unfolding ap_def [symmetric] ch_def [symmetric] may_merge_def
    by (auto simp: word_less_nat_alt filter_empty_conv check_green_def list_ex_iff not_less)
  finally show ?thesis .
qed

section \<open>What the store has\<close>

definition stored :: "'a codec \<Rightarrow> view \<Rightarrow> string \<Rightarrow> string \<Rightarrow> 'a option" where
  "stored c V repo_id key = Option.bind (V repo_id key) (from_slice c)"

definition stored_ids :: "review_json \<Rightarrow> view \<Rightarrow> string \<Rightarrow> string \<Rightarrow> string list" where
  "stored_ids J V repo_id key = unwrap_or (stored (j_ids J) V repo_id key) []"

definition stored_list :: "'a codec \<Rightarrow> view \<Rightarrow> string \<Rightarrow> (string \<Rightarrow> string) \<Rightarrow> string list \<Rightarrow> 'a list" where
  "stored_list c V repo_id key ids = List.map_filter (\<lambda>i. stored c V repo_id (key i)) ids"

lemma length_stored_list: "length (stored_list c V r key ids) \<le> length ids"
  by (induction ids) (auto simp: stored_list_def map_filter_simps split: option.splits)

lemma reads_stored: "reads c V r k x \<Longrightarrow> stored c V r k = x"
  by (auto simp: reads_def stored_def split: option.splits)

context kv_store begin

lemma rget_Ok:
  assumes "rget S c r k w = (Ok x, w')" "ok w" "r \<in> N" "k \<in> N"
  shows "ok w' \<and> view_of w' = view_of w \<and> x = stored c (view_of w) r k"
  using json_get_Ok [OF assms(1) [unfolded rget_def] assms(2-4)] reads_stored by metis

lemma rput_Ok:
  assumes "rput S c r k v w = (Ok u, w')" "ok w" "codec_law c" "r \<in> N" "k \<in> N"
  shows "ok w' \<and> stored c (view_of w') r k = Some v \<and> (\<forall>r' k'. (r', k') \<noteq> (r, k) \<longrightarrow> view_of w' r' k' = view_of w r' k')"
  using assms unfolding rput_def by (elim json_put_Ok) (auto simp: stored_def)

lemma rindex_Ok:
  assumes "rindex S J r k w = (Ok ids, w')" "ok w" "r \<in> N" "k \<in> N"
  shows "ok w' \<and> view_of w' = view_of w \<and> ids = stored_ids J (view_of w) r k"
  using assms rget_Ok [of "j_ids J" r k w] by (auto simp: rindex_def sbind_eq_Ok stored_ids_def)

lemma index_add_Ok:
  assumes "index_add S J r k i w = (Ok u, w')" "ok w" "codec_law (j_ids J)" "r \<in> N" "k \<in> N"
  shows "ok w' \<and> (\<forall>r' k'. (r', k') \<noteq> (r, k) \<longrightarrow> view_of w' r' k' = view_of w r' k')"
proof -
  obtain ids w1 where i: "rindex S J r k w = (Ok ids, w1)"
    "(if \<not> list_ex (\<lambda>x. x = i) ids then rput S (j_ids J) r k (ids @ [i]) else sret ()) w1 = (Ok u, w')"
    using assms(1) by (auto simp: index_add_def sbind_eq_Ok)
  have w1: "ok w1" "view_of w1 = view_of w" using rindex_Ok [OF i(1) assms(2,4,5)] by auto
  show ?thesis
  proof (cases "list_ex (\<lambda>x. x = i) ids")
    case True
    then show ?thesis using i(2) w1 by simp
  next
    case False
    then show ?thesis using i(2) w1 rput_Ok [OF _ w1(1) assms(3-5)] by simp
  qed
qed

lemma rlist_Ok:
  assumes "rlist S c r key ids w = (Ok xs, w')" "ok w" "r \<in> N" "key ` set ids \<subseteq> N"
  shows "ok w' \<and> view_of w' = view_of w \<and> xs = stored_list c (view_of w) r key ids"
  using assms
proof (induction ids arbitrary: w xs)
  case (Cons i ids)
  obtain x w1 ys where s: "rget S c r (key i) w = (Ok x, w1)" "rlist S c r key ids w1 = (Ok ys, w')"
    "xs = (case x of Some v \<Rightarrow> v # ys | None \<Rightarrow> ys)"
    using Cons.prems(1) by (auto simp: sbind_eq_Ok)
  have w1: "ok w1" "view_of w1 = view_of w" "x = stored c (view_of w) r (key i)"
    using rget_Ok [OF s(1) Cons.prems(2,3)] Cons.prems(4) by auto
  then show ?case using Cons.IH [OF s(2)] Cons.prems(3,4) s(3)
    by (auto simp: stored_list_def map_filter_simps split: option.splits)
qed (simp add: stored_list_def map_filter_simps)

end

text \<open>The protection, reviews and checks a pull request is judged by.\<close>

definition gate_protection :: "review_json \<Rightarrow> view \<Rightarrow> PullRequest \<Rightarrow> BranchProtection" where
  "gate_protection J V pr = unwrap_or (stored (j_protection J) V (pr_repo_id pr) (''protection/'' @ pr_target_branch pr))
    (unprotected (pr_repo_id pr) (pr_target_branch pr))"

definition gate_reviews :: "review_json \<Rightarrow> view \<Rightarrow> PullRequest \<Rightarrow> Review list" where
  "gate_reviews J V pr = stored_list (j_review J) V (pr_repo_id pr) (rokey ''review'')
    (stored_ids J V (pr_repo_id pr) (''review/index/'' @ pr_id pr))"

definition gate_checks :: "review_json \<Rightarrow> view \<Rightarrow> PullRequest \<Rightarrow> StatusCheck list" where
  "gate_checks J V pr = stored_list (j_check J) V (pr_repo_id pr) (\<lambda>ctx. ''check/'' @ pr_id pr @ ''/'' @ ctx)
    (stored_ids J V (pr_repo_id pr) (''check/index/'' @ pr_id pr))"

definition gate_names :: "review_json \<Rightarrow> view \<Rightarrow> PullRequest \<Rightarrow> string set" where
  "gate_names J V pr = {pr_repo_id pr, ''protection/'' @ pr_target_branch pr, ''review/index/'' @ pr_id pr, ''check/index/'' @ pr_id pr}
    \<union> rokey ''review'' ` set (stored_ids J V (pr_repo_id pr) (''review/index/'' @ pr_id pr))
    \<union> (\<lambda>ctx. ''check/'' @ pr_id pr @ ''/'' @ ctx) ` set (stored_ids J V (pr_repo_id pr) (''check/index/'' @ pr_id pr))"

context kv_store begin

lemma merge_status_Ok:
  assumes "merge_status S J pr w = (Ok ms, w')" "ok w" "gate_names J (view_of w) pr \<subseteq> N"
  shows "ms = merge_decide pr (gate_protection J (view_of w) pr) (gate_reviews J (view_of w) pr) (gate_checks J (view_of w) pr)"
proof -
  obtain x w1 i1 w2 reviews w3 i2 w4 checks where s:
    "rget S (j_protection J) (pr_repo_id pr) (''protection/'' @ pr_target_branch pr) w = (Ok x, w1)"
    "rindex S J (pr_repo_id pr) (''review/index/'' @ pr_id pr) w1 = (Ok i1, w2)"
    "rlist S (j_review J) (pr_repo_id pr) (rokey ''review'') i1 w2 = (Ok reviews, w3)"
    "rindex S J (pr_repo_id pr) (''check/index/'' @ pr_id pr) w3 = (Ok i2, w4)"
    "rlist S (j_check J) (pr_repo_id pr) (\<lambda>ctx. ''check/'' @ pr_id pr @ ''/'' @ ctx) i2 w4 = (Ok checks, w')"
    "ms = merge_decide pr (unwrap_or x (unprotected (pr_repo_id pr) (pr_target_branch pr))) reviews checks"
    using assms(1)
    by (auto simp: merge_status_def get_protection_def list_reviews_def list_checks_def sbind_eq_Ok Let_def)
  have n: "pr_repo_id pr \<in> N" "''protection/'' @ pr_target_branch pr \<in> N" "''review/index/'' @ pr_id pr \<in> N"
    "''check/index/'' @ pr_id pr \<in> N" using assms(3) unfolding gate_names_def by blast+
  have w1: "ok w1" "view_of w1 = view_of w" "x = stored (j_protection J) (view_of w) (pr_repo_id pr) (''protection/'' @ pr_target_branch pr)"
    using rget_Ok [OF s(1) assms(2) n(1,2)] by auto
  have w2: "ok w2" "view_of w2 = view_of w" "i1 = stored_ids J (view_of w) (pr_repo_id pr) (''review/index/'' @ pr_id pr)"
    using rindex_Ok [OF s(2) w1(1) n(1,3)] w1(2) by auto
  have "rokey ''review'' ` set i1 \<subseteq> N" using assms(3) unfolding gate_names_def w2(3) by blast
  then have w3: "ok w3" "view_of w3 = view_of w" "reviews = gate_reviews J (view_of w) pr"
    using rlist_Ok [OF s(3) w2(1) n(1)] w2(2,3) by (auto simp: gate_reviews_def)
  have w4: "ok w4" "view_of w4 = view_of w" "i2 = stored_ids J (view_of w) (pr_repo_id pr) (''check/index/'' @ pr_id pr)"
    using rindex_Ok [OF s(4) w3(1) n(1,4)] w3(2) by auto
  have "(\<lambda>ctx. ''check/'' @ pr_id pr @ ''/'' @ ctx) ` set i2 \<subseteq> N" using assms(3) unfolding gate_names_def w4(3) by blast
  then have "checks = gate_checks J (view_of w) pr"
    using rlist_Ok [OF s(5) w4(1) n(1)] w4(2,3) by (auto simp: gate_checks_def)
  then show ?thesis using s(6) w1(3) w3(3) by (simp add: gate_protection_def)
qed

end

text \<open>C19: the merge gate is the stated policy. When the gate answers, on the encrypted store, it says that a pull
  request may be merged exactly when the request is open; no reviewer's verdict asks for changes; at least the
  required number of different reviewers have a verdict that approves; and every required check has reported
  success for the current head. A reviewer's verdict is the latest of the reviews the store has of them for
  this request, where a branch that dismisses stale approvals counts only reviews of the current head.\<close>

theorem merge_gate_policy:
  assumes "store_law B es N" "store_ok B es N w" "gate_names J (store_view B es N w) pr \<subseteq> N"
    and "merge_status (enc_kv B es) J pr w = (Ok ms, w')"
    and "length (gate_reviews J (store_view B es N w) pr) < 2 ^ 32"
  shows "ms_mergeable ms \<longleftrightarrow> may_merge pr (gate_protection J (store_view B es N w) pr)
    (gate_reviews J (store_view B es N w) pr) (gate_checks J (store_view B es N w) pr)"
  using enc.merge_status_Ok [OF assms(4) _ assms(3)] assms(1,2,5) merge_decide_policy by (simp add: enc_ok_def)

definition demo_pr :: PullRequest where
  "demo_pr = \<lparr>pr_id = ''pr_r_1'', pr_repo_id = ''r'', pr_number = 1, pr_title = ''t'', pr_description = [], pr_author_id = ''a'',
     pr_source_branch = ''f'', pr_target_branch = ''m'', pr_head_sha = ''h1'', pr_state = PrOpen, pr_created_at = 5, pr_updated_at = 5\<rparr>"

definition demo_protection :: BranchProtection where
  "demo_protection = (unprotected ''r'' ''m'')\<lparr>bp_required_approvals := 1, bp_dismiss_stale_approvals := True\<rparr>"

definition demo_review :: Review where
  "demo_review = \<lparr>rv_id = ''v1'', rv_pr_id = ''pr_r_1'', rv_reviewer_id = ''bob'', rv_state = Approved, rv_head_sha = ''h1'', rv_created_at = 7\<rparr>"

text \<open>A codec for the values the examples store.\<close>

definition one_codec :: "'a \<Rightarrow> byte \<Rightarrow> 'a codec" where
  "one_codec v t = \<lparr>to_vec = (\<lambda>x. if x = v then Some [t] else None), from_slice = (\<lambda>b. if b = [t] then Some v else None)\<rparr>"

lemma one_codec_law [simp]: "codec_law (one_codec v t)"
  by (simp add: codec_law_def one_codec_def)

definition no_codec :: "'a codec" where
  "no_codec = \<lparr>to_vec = (\<lambda>_. None), from_slice = (\<lambda>_. None)\<rparr>"

definition demo_review_json :: review_json where
  "demo_review_json = \<lparr>j_pr = one_codec demo_pr 1, j_issue = no_codec, j_thread = no_codec,
     j_review = one_codec demo_review 4, j_check = no_codec, j_protection = one_codec demo_protection 6,
     j_ids = one_codec [''v1''] 7, j_counter = one_codec 1 8\<rparr>"

definition review_names :: "string set" where
  "review_names = {''r'', ''protection/m'', ''review/index/pr_r_1'', ''check/index/pr_r_1'', ''review/v1'', ''check/pr_r_1/v1''}"

definition review_disk :: world where
  "review_disk = demo_disk\<lparr>w_rng := [replicate 32 1, replicate 12 2, replicate 12 3, replicate 12 4, replicate 12 5, replicate 12 6, replicate 12 7]\<rparr>"

lemma review_demo_law: "store_law ref_backend demo_store review_names"
proof -
  have "inj_on (\<lambda>s. sha256 ref_backend (as_bytes s)) review_names"
    by (simp add: inj_on_def ref_selectors review_names_def) code_simp
  then show ?thesis using ref_laws by (simp add: store_law_def demo_store_def)
qed

abbreviation demo_gate_run :: "(world, ReviewError, MergeStatus) st" where
  "demo_gate_run \<equiv> sbind (set_protection (enc_kv ref_backend demo_store) demo_review_json demo_protection) (\<lambda>_.
     sbind (submit_review (enc_kv ref_backend demo_store) demo_review_json ''r'' demo_review) (\<lambda>_.
     merge_status (enc_kv ref_backend demo_store) demo_review_json demo_pr))"

lemma demo_gate_runs: "case fst (demo_gate_run review_disk) of Ok ms \<Rightarrow> ms_mergeable ms | Err e \<Rightarrow> False"
  by code_simp

lemma demo_stored_ids: "set (stored_ids demo_review_json V r k) \<subseteq> {''v1''}" "length (stored_ids demo_review_json V r k) \<le> 1"
  by (cases "V r k"; simp add: stored_ids_def stored_def demo_review_json_def one_codec_def)+

lemma demo_gate_steps:
  obtains ms u1 u2 u3 w1 w2 w3 w' where "ms_mergeable ms"
    "rput (enc_kv ref_backend demo_store) (j_protection demo_review_json) ''r'' ''protection/m'' demo_protection review_disk = (Ok u1, w1)"
    "rput (enc_kv ref_backend demo_store) (j_review demo_review_json) ''r'' ''review/v1'' demo_review w1 = (Ok u2, w2)"
    "index_add (enc_kv ref_backend demo_store) demo_review_json ''r'' ''review/index/pr_r_1'' ''v1'' w2 = (Ok u3, w3)"
    "merge_status (enc_kv ref_backend demo_store) demo_review_json demo_pr w3 = (Ok ms, w')"
proof -
  obtain ms where f: "fst (demo_gate_run review_disk) = Ok ms" "ms_mergeable ms"
    using demo_gate_runs by (cases "fst (demo_gate_run review_disk)") (simp_all only: sum.case)
  then obtain w' where r: "demo_gate_run review_disk = (Ok ms, w')" unfolding fst_eq_Ok by (elim exE)
  have p: "set_protection (enc_kv ref_backend demo_store) demo_review_json demo_protection =
      rput (enc_kv ref_backend demo_store) (j_protection demo_review_json) ''r'' ''protection/m'' demo_protection"
    by (simp add: set_protection_def demo_protection_def unprotected_def)
  have q: "rokey ''review'' ''v1'' = ''review/v1''" "''review/index/'' @ rv_pr_id demo_review = ''review/index/pr_r_1''"
    "rv_id demo_review = ''v1''" by (simp_all add: demo_review_def rokey_def)
  show thesis using r that f(2) unfolding sbind_eq_Ok submit_review_def p q
    unfolding q(1) by (elim exE conjE)
qed

lemma demo_gate_names: "gate_names demo_review_json V demo_pr \<subseteq> review_names"
proof -
  have "rokey ''review'' ''v1'' = ''review/v1''" "''check/'' @ ''pr_r_1'' @ ''/'' @ ''v1'' = ''check/pr_r_1/v1''"
    "pr_id demo_pr = ''pr_r_1''" "pr_repo_id demo_pr = ''r''" "pr_target_branch demo_pr = ''m''"
    by (simp_all add: rokey_def demo_pr_def)
  then show ?thesis using demo_stored_ids(1) unfolding gate_names_def review_names_def by fastforce
qed

theorem merge_gate_policy_witness:
  "\<exists>w ms w'. merge_status (enc_kv ref_backend demo_store) demo_review_json demo_pr w = (Ok ms, w') \<and> ms_mergeable ms
    \<and> may_merge demo_pr (gate_protection demo_review_json (store_view ref_backend demo_store review_names w) demo_pr)
        (gate_reviews demo_review_json (store_view ref_backend demo_store review_names w) demo_pr)
        (gate_checks demo_review_json (store_view ref_backend demo_store review_names w) demo_pr)"
proof (rule demo_gate_steps)
  let ?J = demo_review_json and ?V = "store_view ref_backend demo_store review_names"
  fix ms u1 u2 u3 w1 w2 w3 w'
  assume ms: "ms_mergeable ms" and s:
    "rput (enc_kv ref_backend demo_store) (j_protection demo_review_json) ''r'' ''protection/m'' demo_protection review_disk = (Ok u1, w1)"
    "rput (enc_kv ref_backend demo_store) (j_review demo_review_json) ''r'' ''review/v1'' demo_review w1 = (Ok u2, w2)"
    "index_add (enc_kv ref_backend demo_store) demo_review_json ''r'' ''review/index/pr_r_1'' ''v1'' w2 = (Ok u3, w3)"
    "merge_status (enc_kv ref_backend demo_store) demo_review_json demo_pr w3 = (Ok ms, w')"
  have n: "''r'' \<in> review_names" "''protection/m'' \<in> review_names" "''review/v1'' \<in> review_names" "''review/index/pr_r_1'' \<in> review_names"
    by (simp_all add: review_names_def)
  have l: "codec_law (j_protection ?J)" "codec_law (j_review ?J)" "codec_law (j_ids ?J)" by (simp_all add: demo_review_json_def)
  have o0: "enc_ok ref_backend demo_store review_names review_disk"
    by (simp add: enc_ok_def review_demo_law store_ok_def review_disk_def demo_disk_def)
  have o1: "enc_ok ref_backend demo_store review_names w1" using enc.rput_Ok [OF s(1) o0 l(1) n(1,2)] by (rule conjunct1)
  have o2: "enc_ok ref_backend demo_store review_names w2" using enc.rput_Ok [OF s(2) o1 l(2) n(1,3)] by (rule conjunct1)
  have ok: "enc_ok ref_backend demo_store review_names w3" using enc.index_add_Ok [OF s(3) o2 l(3) n(1,4)] by (rule conjunct1)
  have "length (gate_reviews ?J (?V w3) demo_pr) \<le> 1"
    unfolding gate_reviews_def by (rule le_trans [OF length_stored_list demo_stored_ids(2)])
  then have len: "length (gate_reviews ?J (?V w3) demo_pr) < 2 ^ 32" by simp
  have "may_merge demo_pr (gate_protection ?J (?V w3) demo_pr) (gate_reviews ?J (?V w3) demo_pr) (gate_checks ?J (?V w3) demo_pr)"
    using merge_gate_policy [OF review_demo_law _ demo_gate_names s(4) len] ok ms by (simp only: enc_ok_def)
  with s(4) ms show ?thesis by blast
qed

section \<open>Numbering\<close>

context kv_store begin

lemma next_number_Ok:
  assumes "next_number S J r w = (Ok n, w')" "ok w" "codec_law (j_counter J)" "r \<in> N" "''pr/counter'' \<in> N"
  shows "ok w' \<and> n = unwrap_or (stored (j_counter J) (view_of w) r ''pr/counter'') 0 + 1
    \<and> stored (j_counter J) (view_of w') r ''pr/counter'' = Some n
    \<and> (\<forall>r' k'. (r', k') \<noteq> (r, ''pr/counter'') \<longrightarrow> view_of w' r' k' = view_of w r' k')"
proof -
  obtain cur w1 where s: "rget S (j_counter J) r ''pr/counter'' w = (Ok cur, w1)" "n = unwrap_or cur 0 + 1"
    "rput S (j_counter J) r ''pr/counter'' n w1 = (Ok (), w')"
    using assms(1) by (auto simp: next_number_def sbind_eq_Ok Let_def)
  have w1: "ok w1" "view_of w1 = view_of w" "cur = stored (j_counter J) (view_of w) r ''pr/counter''"
    using rget_Ok [OF s(1) assms(2,4,5)] by auto
  show ?thesis using rput_Ok [OF s(3) w1(1) assms(3-5)] s(2) w1(2,3) by simp
qed

lemma open_pr_Ok:
  assumes "open_pr S J r a t d sb tb h now w = (Ok pr, w')" "ok w" "codec_law (j_counter J)" "codec_law (j_pr J)" "codec_law (j_ids J)"
    and n: "{r, ''pr/counter'', ''pr/index'', rokey ''pr'' (pr_id pr)} \<subseteq> N" and i: "pr_id pr \<noteq> ''index''"
  shows "pr_number pr = unwrap_or (stored (j_counter J) (view_of w) r ''pr/counter'') 0 + 1
    \<and> pr_id pr = ''pr_'' @ r @ ''_'' @ dec (unat (pr_number pr)) \<and> pr_title pr = t
    \<and> stored (j_pr J) (view_of w') r (rokey ''pr'' (pr_id pr)) = Some pr"
proof -
  obtain nm w1 w2 where s: "next_number S J r w = (Ok nm, w1)"
    "rput S (j_pr J) r (rokey ''pr'' (pr_id pr)) pr w1 = (Ok (), w2)"
    "index_add S J r ''pr/index'' (pr_id pr) w2 = (Ok (), w')"
    "pr_number pr = nm" "pr_id pr = ''pr_'' @ r @ ''_'' @ dec (unat nm)" "pr_title pr = t"
    using assms(1) by (auto simp: open_pr_def sbind_eq_Ok Let_def)
  have w1: "ok w1" "nm = unwrap_or (stored (j_counter J) (view_of w) r ''pr/counter'') 0 + 1"
    using next_number_Ok [OF s(1) assms(2,3)] n by auto
  have w2: "ok w2" "stored (j_pr J) (view_of w2) r (rokey ''pr'' (pr_id pr)) = Some pr"
    using rput_Ok [OF s(2) w1(1) assms(4)] n by auto
  have "rokey ''pr'' (pr_id pr) \<noteq> ''pr/index''" using i by (simp add: rokey_def)
  then have "view_of w' r (rokey ''pr'' (pr_id pr)) = view_of w2 r (rokey ''pr'' (pr_id pr))"
    using index_add_Ok [OF s(3) w2(1) assms(5)] n by auto
  then show ?thesis using w1 w2 s by (simp add: stored_def)
qed

end

text \<open>C40: numbers of imported pull requests are not reserved. When a repository with no counter yet has a pull
  request put verbatim under the name of number 1 (as the importer does, with the number it had upstream), the
  next pull request opened is given number 1 and the same name, and replaces the imported one in the store.\<close>

theorem open_pr_replaces_imported:
  assumes "store_law B es N" "store_ok B es N w"
    and "codec_law (j_counter J)" "codec_law (j_pr J)" "codec_law (j_ids J)"
    and "{r, ''pr/counter'', ''pr/index'', rokey ''pr'' (''pr_'' @ r @ ''_1'')} \<subseteq> N"
    and "store_view B es N w r ''pr/counter'' = None"
    and "pr_repo_id imported = r" "pr_id imported = ''pr_'' @ r @ ''_1''"
    and "put_pr (enc_kv B es) J imported w = (Ok (), w1)"
    and "open_pr (enc_kv B es) J r author title desc src tgt head now w1 = (Ok pr, w2)"
  shows "pr_id pr = pr_id imported \<and> pr_number pr = 1
    \<and> stored (j_pr J) (store_view B es N w1) r (rokey ''pr'' (pr_id imported)) = Some imported
    \<and> stored (j_pr J) (store_view B es N w2) r (rokey ''pr'' (pr_id imported)) = Some pr \<and> pr_title pr = title"
proof -
  let ?V = "store_view B es N" and ?k = "rokey ''pr'' (''pr_'' @ r @ ''_1'')"
  have n: "r \<in> N" "''pr/counter'' \<in> N" "''pr/index'' \<in> N" "?k \<in> N" using assms(6) by auto
  have ok: "enc_ok B es N w" using assms(1,2) by (simp add: enc_ok_def)
  obtain w0 where p: "rput (enc_kv B es) (j_pr J) r ?k imported w = (Ok (), w0)"
    "index_add (enc_kv B es) J r ''pr/index'' (''pr_'' @ r @ ''_1'') w0 = (Ok (), w1)"
    using assms(10) by (auto simp: put_pr_def sbind_eq_Ok assms(8,9))
  have w0: "enc_ok B es N w0" "stored (j_pr J) (?V w0) r ?k = Some imported" "\<forall>r' k'. (r', k') \<noteq> (r, ?k) \<longrightarrow> ?V w0 r' k' = ?V w r' k'"
    using enc.rput_Ok [OF p(1) ok assms(4) n(1,4)] by auto
  have w1: "enc_ok B es N w1" "\<forall>r' k'. (r', k') \<noteq> (r, ''pr/index'') \<longrightarrow> ?V w1 r' k' = ?V w0 r' k'"
    using enc.index_add_Ok [OF p(2) w0(1) assms(5) n(1,3)] by auto
  have ne: "?k \<noteq> ''pr/index''" "?k \<noteq> ''pr/counter''" by (simp_all add: rokey_def)
  have c: "stored (j_counter J) (?V w1) r ''pr/counter'' = None" using w0(3) w1(2) ne assms(7) by (simp add: stored_def)
  have id1: "pr_id pr = ''pr_'' @ r @ ''_1'' \<and> pr_number pr = 1"
  proof -
    obtain nm w' where "next_number (enc_kv B es) J r w1 = (Ok nm, w')" "pr_number pr = nm" "pr_id pr = ''pr_'' @ r @ ''_'' @ dec (unat nm)"
      using assms(11) by (auto simp: open_pr_def sbind_eq_Ok Let_def)
    moreover from this(1) have "nm = 1" using enc.next_number_Ok [OF _ w1(1) assms(3) n(1,2)] c by fastforce
    moreover have "dec (unat (1 :: u64)) = ''1''" by code_simp
    ultimately show ?thesis by simp
  qed
  have "stored (j_pr J) (?V w2) r (rokey ''pr'' (pr_id pr)) = Some pr \<and> pr_title pr = title"
  proof -
    have m: "{r, ''pr/counter'', ''pr/index'', rokey ''pr'' (pr_id pr)} \<subseteq> N" "pr_id pr \<noteq> ''index''"
      using assms(6) unfolding conjunct1 [OF id1] by simp_all
    show ?thesis using enc.open_pr_Ok [OF assms(11) w1(1) assms(3-5) m] by blast
  qed
  moreover have "stored (j_pr J) (?V w1) r ?k = Some imported" using w0(2) w1(2) ne by (simp add: stored_def)
  ultimately show ?thesis using id1 assms(9) by simp
qed

definition opened_pr :: PullRequest where
  "opened_pr = demo_pr\<lparr>pr_title := ''new'', pr_created_at := 9, pr_updated_at := 9\<rparr>"

definition demo_import_json :: review_json where
  "demo_import_json = demo_review_json\<lparr>
     j_pr := \<lparr>to_vec = (\<lambda>x. if x = demo_pr then Some [1] else if x = opened_pr then Some [2] else None),
       from_slice = (\<lambda>b. if b = [1] then Some demo_pr else if b = [2] then Some opened_pr else None)\<rparr>,
     j_ids := one_codec [''pr_r_1''] 9\<rparr>"

definition import_names :: "string set" where
  "import_names = {''r'', ''pr/counter'', ''pr/index'', ''pr/pr_r_1''}"

lemma import_demo_law: "store_law ref_backend demo_store import_names"
proof -
  have "inj_on (\<lambda>s. sha256 ref_backend (as_bytes s)) import_names"
    by (simp add: inj_on_def ref_selectors import_names_def) code_simp
  then show ?thesis using ref_laws by (simp add: store_law_def demo_store_def)
qed

abbreviation demo_import_run :: "(world, ReviewError, PullRequest) st" where
  "demo_import_run \<equiv> sbind (put_pr (enc_kv ref_backend demo_store) demo_import_json demo_pr) (\<lambda>_.
     open_pr (enc_kv ref_backend demo_store) demo_import_json ''r'' ''a'' ''new'' [] ''f'' ''m'' ''h1'' 9)"

lemma demo_import_runs: "fst (demo_import_run review_disk) = Ok opened_pr"
  by code_simp

theorem open_pr_replaces_imported_witness:
  "\<exists>w1 w2. put_pr (enc_kv ref_backend demo_store) demo_import_json demo_pr review_disk = (Ok (), w1)
    \<and> open_pr (enc_kv ref_backend demo_store) demo_import_json ''r'' ''a'' ''new'' [] ''f'' ''m'' ''h1'' 9 w1 = (Ok opened_pr, w2)
    \<and> stored (j_pr demo_import_json) (store_view ref_backend demo_store import_names w1) ''r'' ''pr/pr_r_1'' = Some demo_pr
    \<and> stored (j_pr demo_import_json) (store_view ref_backend demo_store import_names w2) ''r'' ''pr/pr_r_1'' = Some opened_pr"
proof -
  obtain w2 where "demo_import_run review_disk = (Ok opened_pr, w2)" using demo_import_runs unfolding fst_eq_Ok by fast
  then obtain w1 where s: "put_pr (enc_kv ref_backend demo_store) demo_import_json demo_pr review_disk = (Ok (), w1)"
    "open_pr (enc_kv ref_backend demo_store) demo_import_json ''r'' ''a'' ''new'' [] ''f'' ''m'' ''h1'' 9 w1 = (Ok opened_pr, w2)"
    by (auto simp: sbind_eq_Ok)
  have ok: "store_ok ref_backend demo_store import_names review_disk"
    and v: "store_view ref_backend demo_store import_names review_disk ''r'' ''pr/counter'' = None"
    by (simp_all add: store_ok_def store_view_def review_disk_def demo_disk_def split: option.splits)
  have l: "codec_law (j_counter demo_import_json)" "codec_law (j_pr demo_import_json)" "codec_law (j_ids demo_import_json)"
    by (simp_all add: demo_import_json_def demo_review_json_def codec_law_def one_codec_def opened_pr_def demo_pr_def)
  have "stored (j_pr demo_import_json) (store_view ref_backend demo_store import_names w1) ''r'' (rokey ''pr'' (pr_id demo_pr)) = Some demo_pr
    \<and> stored (j_pr demo_import_json) (store_view ref_backend demo_store import_names w2) ''r'' (rokey ''pr'' (pr_id demo_pr)) = Some opened_pr"
    using open_pr_replaces_imported [OF import_demo_law ok l _ v _ _ s]
    by (simp add: import_names_def demo_pr_def rokey_def)
  moreover have "rokey ''pr'' (pr_id demo_pr) = ''pr/pr_r_1''" by (simp add: demo_pr_def rokey_def)
  ultimately have st: "stored (j_pr demo_import_json) (store_view ref_backend demo_store import_names w1) ''r'' ''pr/pr_r_1'' = Some demo_pr"
    "stored (j_pr demo_import_json) (store_view ref_backend demo_store import_names w2) ''r'' ''pr/pr_r_1'' = Some opened_pr"
    by (simp_all only:)
  show ?thesis by (rule exI [of _ w1], rule exI [of _ w2]) (intro conjI s st)
qed

end
