(* ===== verification/Calendar.thy ===== *)
theory Calendar
  imports Strings "HOL-Library.Signed_Division"
begin

text \<open>
  Dates: \<open>days_from_civil\<close> and \<open>parse_instant\<close> of \<open>secgit-sso/src/saml.rs\<close> and \<open>instant_to_unix\<close> of
  \<open>secgit-import/src/lib.rs\<close>, which has the same computation inline. \<open>days_from_civil_counts\<close> shows that the
  closed formula counts days as the calendar does. Division truncates towards zero, as in Rust; the values
  are at most four decimal digits and stay far from the bounds of \<open>i64\<close>.
\<close>

text \<open>\<open>str::parse::<i64>\<close>.\<close>

definition all_digits :: "string \<Rightarrow> bool" where
  "all_digits s \<longleftrightarrow> s \<noteq> [] \<and> list_all is_digit s"

definition parse_i64 :: "string \<Rightarrow> int option" where
  "parse_i64 s =
    (let (neg, ds) = (case s of CHR ''-'' # r \<Rightarrow> (True, r) | CHR ''+'' # r \<Rightarrow> (False, r) | _ \<Rightarrow> (False, s));
         v = (if neg then - int (undec ds) else int (undec ds))
     in if all_digits ds \<and> - (2 ^ 63) \<le> v \<and> v < 2 ^ 63 then Some v else None)"

definition days_from_civil :: "int \<Rightarrow> int \<Rightarrow> int \<Rightarrow> int" where
  "days_from_civil y0 m d =
    (let y = (if m \<le> 2 then y0 - 1 else y0);
         era = (if y \<ge> 0 then y else y - 399) sdiv 400;
         yoe = y - era * 400;
         doy = (153 * (if m > 2 then m - 3 else m + 9) + 2) sdiv 5 + d - 1;
         doe = yoe * 365 + yoe sdiv 4 - yoe sdiv 100 + doy
     in era * 146097 + doe - 719468)"

text \<open>Slicing a string panics when an end is inside a multi-byte character, that is at a continuation byte.\<close>

datatype instant_error = BadTimestamp | Panicked

definition is_char_boundary :: "string \<Rightarrow> nat \<Rightarrow> bool" where
  "is_char_boundary s i \<longleftrightarrow> i = 0 \<or> i = length s \<or> i < length s \<and> \<not> (128 \<le> (of_char (s ! i) :: nat) \<and> (of_char (s ! i) :: nat) < 192)"

definition instant_num :: "string \<Rightarrow> nat \<Rightarrow> nat \<Rightarrow> (instant_error, int) result" where
  "instant_num s a b =
    (if \<not> is_char_boundary s a \<or> \<not> is_char_boundary s b then Err Panicked
     else ok_or BadTimestamp (parse_i64 (sub_range a b s)))"

definition parse_instant :: "string \<Rightarrow> (instant_error, int) result" where
  "parse_instant s0 =
    (let s = trim s0 in
     if length s < 19 \<or> s ! 4 \<noteq> CHR ''-'' \<or> s ! 7 \<noteq> CHR ''-'' \<or> s ! 10 \<noteq> CHR ''T'' then Err BadTimestamp
     else
       rbind (instant_num s 0 4) (\<lambda>year.
       rbind (instant_num s 5 7) (\<lambda>month.
       rbind (instant_num s 8 10) (\<lambda>day.
       rbind (instant_num s 11 13) (\<lambda>hour.
       rbind (instant_num s 14 16) (\<lambda>min.
       rbind (instant_num s 17 19) (\<lambda>sec.
       Ok (days_from_civil year month day * 86400 + hour * 3600 + min * 60 + sec))))))))"

definition instant_to_unix :: "string \<Rightarrow> u64" where
  "instant_to_unix s =
    (if length s < 19 \<or> s ! 4 \<noteq> CHR ''-'' \<or> s ! 10 \<noteq> CHR ''T'' then 0
     else
       let n = (\<lambda>a c. case parse_i64 (sub_range a c s) of Some v \<Rightarrow> v | None \<Rightarrow> 0);
           days = days_from_civil (n 0 4) (n 5 7) (n 8 10)
       in word_of_int (max (days * 86400 + n 11 13 * 3600 + n 14 16 * 60 + n 17 19) 0))"

section \<open>The calendar\<close>

definition leap :: "int \<Rightarrow> bool" where
  "leap y \<longleftrightarrow> 4 dvd y \<and> (\<not> 100 dvd y \<or> 400 dvd y)"

definition year_days :: "int \<Rightarrow> int" where
  "year_days y = (if leap y then 366 else 365)"

definition month_days :: "int \<Rightarrow> nat \<Rightarrow> int" where
  "month_days y m = (if m = 2 then (if leap y then 29 else 28) else if m \<in> {4, 6, 9, 11} then 30 else 31)"

text \<open>The days from 1 January 1970 to a date, counted year by year and month by month.\<close>

primrec days_before_year :: "nat \<Rightarrow> int" where
  "days_before_year 0 = 0"
| "days_before_year (Suc n) = days_before_year n + year_days (1970 + int n)"

definition days_before_month :: "int \<Rightarrow> nat \<Rightarrow> int" where
  "days_before_month y m = sum_list (map (month_days y) [1..<m])"

lemma sdiv_pos: "0 \<le> (a :: int) \<Longrightarrow> 0 < b \<Longrightarrow> a sdiv b = a div b"
  by (simp add: signed_divide_int_def sgn_if)

lemma div_Suc_dvd:
  fixes y k :: int
  assumes "0 < k"
  shows "(y + 1) div k = y div k + (if k dvd y + 1 then 1 else 0)"
proof (cases "k dvd y + 1")
  case True
  then obtain q where q: "y + 1 = k * q" by blast
  then have "y = k * (q - 1) + (k - 1)" by (simp add: algebra_simps)
  then have "y div k = q - 1" using assms int_div_pos_eq [of y k "q - 1" "k - 1"] by simp
  then show ?thesis using True q assms by simp
next
  case False
  have y: "y + 1 = k * (y div k) + (y mod k + 1)" by simp
  have "y mod k + 1 \<noteq> k"
  proof
    assume "y mod k + 1 = k"
    then have "y + 1 = k * (y div k + 1)" using y by (simp add: algebra_simps)
    then show False using False by (metis dvd_triv_left)
  qed
  then have "y mod k + 1 < k" using pos_mod_bound [OF assms, of y] by linarith
  then show ?thesis using False int_div_pos_eq [OF y] pos_mod_sign [OF assms, of y] by simp
qed

definition gregorian :: "int \<Rightarrow> int" where
  "gregorian y = 365 * y + y div 4 - y div 100 + y div 400"

lemma gregorian_Suc: "gregorian (y + 1) = gregorian y + year_days (y + 1)"
proof -
  have n: "(100 :: int) dvd 400" "(4 :: int) dvd 100" by simp_all
  have i: "400 dvd y + 1 \<longrightarrow> 100 dvd y + 1" "100 dvd y + 1 \<longrightarrow> 4 dvd y + 1"
    by (rule impI, rule dvd_trans [OF n(1)], assumption) (rule impI, rule dvd_trans [OF n(2)], assumption)
  have d: "(y + 1) div 4 = y div 4 + (if 4 dvd y + 1 then 1 else 0)"
    "(y + 1) div 100 = y div 100 + (if 100 dvd y + 1 then 1 else 0)"
    "(y + 1) div 400 = y div 400 + (if 400 dvd y + 1 then 1 else 0)"
    by (rule div_Suc_dvd, simp)+
  have "(C \<longrightarrow> B) \<Longrightarrow> (B \<longrightarrow> A) \<Longrightarrow> 365 * (y + 1) + (p + (if A then 1 else 0)) - (q + (if B then 1 else 0)) + (r + (if C then 1 else 0)) =
      365 * y + p - q + r + (if A \<and> (\<not> B \<or> C) then 366 else 365)" for A B C and p q r :: int
    by (cases A; cases B; cases C) simp_all
  from this [OF i] show ?thesis unfolding gregorian_def d year_days_def leap_def .
qed

lemma era_closed:
  fixes y :: int
  assumes "0 \<le> y"
  shows "(y div 400) * 146097 + (y mod 400) * 365 + (y mod 400) div 4 - (y mod 400) div 100 =
    gregorian y"
proof -
  define e r where "e = y div 400" "r = y mod 400"
  then have y: "y = 400 * e + r" "0 \<le> r" "r < 400" by auto
  have "(r + 4 * (100 * e)) div 4 = 100 * e + r div 4" "(r + 100 * (4 * e)) div 100 = 4 * e + r div 100"
    by (rule div_mult_self2, simp)+
  moreover have "r + 4 * (100 * e) = y" "r + 100 * (4 * e) = y" using y(1) by linarith+
  ultimately have d: "y div 4 = 100 * e + r div 4" "y div 100 = 4 * e + r div 100" by simp_all
  show ?thesis unfolding gregorian_def d e_r_def [symmetric] using y(1) by linarith
qed

lemma days_from_civil_closed:
  assumes "1 \<le> y"
  shows "days_from_civil y m d =
    (let Y = (if m \<le> 2 then y - 1 else y) in gregorian Y + (153 * (if m > 2 then m - 3 else m + 9) + 2) sdiv 5 + d - 1 - 719468)"
proof -
  define Y where "Y = (if m \<le> 2 then y - 1 else y)"
  have p: "0 \<le> Y" using assms by (simp add: Y_def)
  have m: "Y - Y div 400 * 400 = Y mod 400" by (simp add: minus_div_mult_eq_mod)
  show ?thesis
    using era_closed [OF p] p m
    unfolding days_from_civil_def Let_def Y_def [symmetric] by (simp add: sdiv_pos)
qed

text \<open>The date formula counts days. For every date from 1970 on, \<open>days_from_civil\<close> is the number of days
  from 1 January 1970, counted year by year with the Gregorian leap years and month by month.\<close>

theorem days_from_civil_counts:
  assumes "1 \<le> m" "m \<le> 12"
  shows "days_from_civil (1970 + int n) (int m) d = days_before_year n + days_before_month (1970 + int n) m + d - 1"
proof -
  let ?Y = "1970 + int n"
  have base: "gregorian 1969 = 719162" by code_simp
  have "gregorian (1969 + int n) = 719162 + days_before_year n"
  proof (induction n)
    case (Suc n)
    then show ?case using gregorian_Suc [of "1969 + int n"] by (simp add: add.commute)
  qed (simp add: base)
  moreover have "gregorian ?Y = gregorian (1969 + int n) + year_days ?Y" using gregorian_Suc [of "1969 + int n"] by simp
  moreover have "m = 1 \<or> m = 2 \<or> m = 3 \<or> m = 4 \<or> m = 5 \<or> m = 6 \<or> m = 7 \<or> m = 8 \<or> m = 9 \<or> m = 10 \<or> m = 11 \<or> m = 12"
    using assms by presburger
  ultimately show ?thesis
    unfolding days_before_month_def
    by (elim disjE; simp add: days_from_civil_closed Let_def sdiv_pos month_days_def year_days_def upt_rec)
qed

theorem days_from_civil_counts_witness:
  "days_from_civil 2026 6 28 = days_before_year 56 + days_before_month 2026 6 + 27
    \<and> parse_instant ''2026-06-28T17:00:00Z'' = Ok 1782666000"
proof -
  have "parse_instant ''2026-06-28T17:00:00Z'' = Ok 1782666000" by code_simp
  then show ?thesis using days_from_civil_counts [of 6 56 28] by simp
qed

end
