(* ===== verification/Import.thy ===== *)
theory Import
  imports Review Calendar
begin

text \<open>
  The GitHub importer: the client of \<open>secgit-import/src/lib.rs\<close> (paging and parsing) over a fetch function that
  is a parameter, and the conversion of what it read into issues and pull requests
  (\<open>secgit-server/src/importer.rs\<close>). \<open>paginate_bounded\<close> bounds the requests and says what is read.
\<close>

datatype ImportError = Fetch | Parse

record ImportedRepo =
  ir_full_name :: string
  ir_name :: string
  ir_description :: string
  ir_private :: bool
  ir_default_branch :: string
  ir_clone_url :: string

record ImportedComment =
  ic_id :: u64
  ic_author :: string
  ic_body :: string
  ic_created_at :: string

record ImportedIssue =
  ii_number :: u64
  ii_title :: string
  ii_body :: string
  ii_author :: string
  ii_state :: string
  ii_labels :: "string list"
  ii_created_at :: string
  ii_updated_at :: string
  ii_comments :: "ImportedComment list"

record ImportedPull =
  ip_number :: u64
  ip_title :: string
  ip_body :: string
  ip_author :: string
  ip_state :: string
  ip_merged :: bool
  ip_head_ref :: string
  ip_base_ref :: string
  ip_head_sha :: string
  ip_created_at :: string
  ip_updated_at :: string

record ImportPlan =
  plan_repo :: ImportedRepo
  plan_issues :: "ImportedIssue list"
  plan_pulls :: "ImportedPull list"

section \<open>Parsing\<close>

definition js :: "json \<Rightarrow> string \<Rightarrow> string" where
  "js v key = unwrap_or (Option.bind (j_get v key) as_str) []"

definition login :: "json \<Rightarrow> string \<Rightarrow> string" where
  "login v key = unwrap_or (Option.bind (Option.bind (j_get v key) (\<lambda>u. j_get u ''login'')) as_str) []"

definition parse_repo :: "json \<Rightarrow> ImportedRepo" where
  "parse_repo v = \<lparr>ir_full_name = js v ''full_name'', ir_name = js v ''name'', ir_description = js v ''description'',
     ir_private = unwrap_or (Option.bind (j_get v ''private'') as_bool) True,
     ir_default_branch = (let b = js v ''default_branch'' in if b = [] then ''main'' else b),
     ir_clone_url = js v ''clone_url''\<rparr>"

definition label_name :: "json \<Rightarrow> string option" where
  "label_name x = (case Option.bind (j_get x ''name'') as_str of Some n \<Rightarrow> Some n | None \<Rightarrow> as_str x)"

definition parse_issue :: "json \<Rightarrow> ImportedIssue" where
  "parse_issue v = \<lparr>ii_number = unwrap_or (Option.bind (j_get v ''number'') as_u64) 0, ii_title = js v ''title'', ii_body = js v ''body'',
     ii_author = login v ''user'', ii_state = js v ''state'',
     ii_labels = unwrap_or (map_option (List.map_filter label_name) (Option.bind (j_get v ''labels'') as_array)) [],
     ii_created_at = js v ''created_at'', ii_updated_at = js v ''updated_at'', ii_comments = []\<rparr>"

definition parse_comment :: "json \<Rightarrow> ImportedComment" where
  "parse_comment v = \<lparr>ic_id = unwrap_or (Option.bind (j_get v ''id'') as_u64) 0, ic_author = login v ''user'', ic_body = js v ''body'',
     ic_created_at = js v ''created_at''\<rparr>"

definition parse_pull :: "json \<Rightarrow> ImportedPull" where
  "parse_pull v = \<lparr>ip_number = unwrap_or (Option.bind (j_get v ''number'') as_u64) 0, ip_title = js v ''title'', ip_body = js v ''body'',
     ip_author = login v ''user'', ip_state = js v ''state'',
     ip_merged = unwrap_or (map_option (\<lambda>m. m \<noteq> JNull) (j_get v ''merged_at'')) False,
     ip_head_ref = unwrap_or (map_option (\<lambda>h. js h ''ref'') (j_get v ''head'')) [],
     ip_base_ref = unwrap_or (map_option (\<lambda>h. js h ''ref'') (j_get v ''base'')) [],
     ip_head_sha = unwrap_or (map_option (\<lambda>h. js h ''sha'') (j_get v ''head'')) [],
     ip_created_at = js v ''created_at'', ip_updated_at = js v ''updated_at''\<rparr>"

section \<open>The client\<close>

record 'w GithubClient =
  gh_fetch :: "string \<Rightarrow> ('w, ImportError, bytes) st"
  gh_json :: "bytes \<Rightarrow> json option"
  gh_api_base :: string
  gh_per_page :: u32
  gh_max_pages :: u32

definition github_new :: "(string \<Rightarrow> ('w, ImportError, bytes) st) \<Rightarrow> (bytes \<Rightarrow> json option) \<Rightarrow> 'w GithubClient" where
  "github_new fetch parse = \<lparr>gh_fetch = fetch, gh_json = parse, gh_api_base = ''https://api.github.com'', gh_per_page = 100, gh_max_pages = 100\<rparr>"

definition with_api_base :: "string \<Rightarrow> 'w GithubClient \<Rightarrow> 'w GithubClient" where
  "with_api_base base c = c\<lparr>gh_api_base := trim_end_matches CHR ''/'' base\<rparr>"

definition get_json :: "'w GithubClient \<Rightarrow> string \<Rightarrow> ('w, ImportError, json) st" where
  "get_json c url = sbind (gh_fetch c url) (\<lambda>b. slift (ok_or Parse (gh_json c b)))"

definition page_url :: "'w GithubClient \<Rightarrow> string \<Rightarrow> nat \<Rightarrow> string" where
  "page_url c path page = gh_api_base c @ path @ (if contains ''?'' path then ''&'' else ''?'')
     @ ''per_page='' @ dec (unat (gh_per_page c)) @ ''&page='' @ dec page"

fun paginate_loop :: "'w GithubClient \<Rightarrow> string \<Rightarrow> nat list \<Rightarrow> json list \<Rightarrow> ('w, ImportError, json list) st" where
  "paginate_loop c path [] out = sret out"
| "paginate_loop c path (page # pages) out =
    sbind (get_json c (page_url c path page)) (\<lambda>v.
    sbind (slift (ok_or Parse (as_array v))) (\<lambda>arr.
    if arr = [] then sret out
    else if (word_of_nat (length arr) :: u32) < gh_per_page c then sret (out @ arr)
    else paginate_loop c path pages (out @ arr)))"

definition paginate :: "'w GithubClient \<Rightarrow> string \<Rightarrow> ('w, ImportError, json list) st" where
  "paginate c path = paginate_loop c path [1..<Suc (unat (gh_max_pages c))] []"

definition gh_repo :: "'w GithubClient \<Rightarrow> string \<Rightarrow> string \<Rightarrow> ('w, ImportError, ImportedRepo) st" where
  "gh_repo c owner name = sbind (get_json c (gh_api_base c @ ''/repos/'' @ owner @ ''/'' @ name)) (\<lambda>v. sret (parse_repo v))"

definition issue_comments :: "'w GithubClient \<Rightarrow> string \<Rightarrow> string \<Rightarrow> u64 \<Rightarrow> ('w, ImportError, ImportedComment list) st" where
  "issue_comments c owner name number =
    sbind (paginate c (''/repos/'' @ owner @ ''/'' @ name @ ''/issues/'' @ dec (unat number) @ ''/comments'')) (\<lambda>raw.
    sret (map parse_comment raw))"

fun gh_issues_loop :: "'w GithubClient \<Rightarrow> string \<Rightarrow> string \<Rightarrow> json list \<Rightarrow> ('w, ImportError, ImportedIssue list) st" where
  "gh_issues_loop c owner name [] = sret []"
| "gh_issues_loop c owner name (v # vs) =
    (if j_get v ''pull_request'' \<noteq> None then gh_issues_loop c owner name vs
     else let issue = parse_issue v in
       sbind (issue_comments c owner name (ii_number issue)) (\<lambda>comments.
       sbind (gh_issues_loop c owner name vs) (\<lambda>issues. sret (issue\<lparr>ii_comments := comments\<rparr> # issues))))"

definition gh_issues :: "'w GithubClient \<Rightarrow> string \<Rightarrow> string \<Rightarrow> ('w, ImportError, ImportedIssue list) st" where
  "gh_issues c owner name =
    sbind (paginate c (''/repos/'' @ owner @ ''/'' @ name @ ''/issues?state=all'')) (gh_issues_loop c owner name)"

definition gh_pulls :: "'w GithubClient \<Rightarrow> string \<Rightarrow> string \<Rightarrow> ('w, ImportError, ImportedPull list) st" where
  "gh_pulls c owner name =
    sbind (paginate c (''/repos/'' @ owner @ ''/'' @ name @ ''/pulls?state=all'')) (\<lambda>raw. sret (map parse_pull raw))"

definition import_plan :: "'w GithubClient \<Rightarrow> string \<Rightarrow> string \<Rightarrow> ('w, ImportError, ImportPlan) st" where
  "import_plan c owner name =
    sbind (gh_repo c owner name) (\<lambda>repo.
    sbind (gh_issues c owner name) (\<lambda>issues.
    sbind (gh_pulls c owner name) (\<lambda>pulls.
    sret \<lparr>plan_repo = repo, plan_issues = issues, plan_pulls = pulls\<rparr>)))"

section \<open>Conversion and storing\<close>

definition imported_comment :: "ImportedComment \<Rightarrow> Comment" where
  "imported_comment c = \<lparr>cm_id = ''ghc_'' @ dec (unat (ic_id c)), cm_author_id = ''gh:'' @ ic_author c, cm_body = ic_body c,
     cm_suggestion = None, cm_created_at = instant_to_unix (ic_created_at c)\<rparr>"

definition imported_issue :: "string \<Rightarrow> ImportedIssue \<Rightarrow> Issue" where
  "imported_issue repo_id gi = \<lparr>is_id = ''issue_'' @ repo_id @ ''_'' @ dec (unat (ii_number gi)), is_repo_id = repo_id,
     is_number = ii_number gi, is_title = ii_title gi, is_body = ii_body gi, is_author_id = ''gh:'' @ ii_author gi,
     is_state = (if ii_state gi = ''closed'' then IssueClosed else IssueOpen), is_labels = ii_labels gi,
     is_comments = map imported_comment (ii_comments gi),
     is_created_at = instant_to_unix (ii_created_at gi), is_updated_at = instant_to_unix (ii_updated_at gi)\<rparr>"

definition imported_pull :: "string \<Rightarrow> ImportedPull \<Rightarrow> PullRequest" where
  "imported_pull repo_id gp = \<lparr>pr_id = ''pr_'' @ repo_id @ ''_'' @ dec (unat (ip_number gp)), pr_repo_id = repo_id,
     pr_number = ip_number gp, pr_title = ip_title gp, pr_description = ip_body gp, pr_author_id = ''gh:'' @ ip_author gp,
     pr_source_branch = ip_head_ref gp, pr_target_branch = ip_base_ref gp, pr_head_sha = ip_head_sha gp,
     pr_state = (if ip_merged gp then PrMerged else if ip_state gp = ''closed'' then PrClosed else PrOpen),
     pr_created_at = instant_to_unix (ip_created_at gp), pr_updated_at = instant_to_unix (ip_updated_at gp)\<rparr>"

text \<open>The two storing loops: a failure is counted out and does not stop the import.\<close>

fun store_all :: "('a \<Rightarrow> ('w, ReviewError, unit) st) \<Rightarrow> 'a list \<Rightarrow> nat \<Rightarrow> 'w \<Rightarrow> nat \<times> 'w" where
  "store_all put [] n w = (n, w)"
| "store_all put (x # xs) n w = (case put x w of (Ok _, w') \<Rightarrow> store_all put xs (Suc n) w' | (Err _, w') \<Rightarrow> store_all put xs n w')"

definition store_plan :: "('w, 'e) kv \<Rightarrow> review_json \<Rightarrow> string \<Rightarrow> ImportPlan \<Rightarrow> 'w \<Rightarrow> (nat \<times> nat) \<times> 'w" where
  "store_plan S J repo_id plan w =
    (let (issue_count, w1) = store_all (put_issue S J) (map (imported_issue repo_id) (plan_issues plan)) 0 w;
         (pr_count, w2) = store_all (put_pr S J) (map (imported_pull repo_id) (plan_pulls plan)) 0 w1
     in ((issue_count, pr_count), w2))"

section \<open>Paging\<close>

text \<open>A fetch function that answers from a table and logs the addresses.\<close>

definition logged :: "(string \<Rightarrow> (ImportError, bytes) result) \<Rightarrow> string \<Rightarrow> (string list, ImportError, bytes) st" where
  "logged F url log = (F url, log @ [url])"

text \<open>What a page of a listing holds, \<open>None\<close> when it cannot be read.\<close>

definition page_of :: "'w GithubClient \<Rightarrow> (string \<Rightarrow> (ImportError, bytes) result) \<Rightarrow> string \<Rightarrow> nat \<Rightarrow> json list option" where
  "page_of c F path i = (case F (page_url c path i) of Err e \<Rightarrow> None | Ok b \<Rightarrow> Option.bind (gh_json c b) as_array)"

definition last_page :: "'w GithubClient \<Rightarrow> json list \<Rightarrow> bool" where
  "last_page c arr \<longleftrightarrow> arr = [] \<or> (word_of_nat (length arr) :: u32) < gh_per_page c"

definition paged :: "'w GithubClient \<Rightarrow> (string \<Rightarrow> (ImportError, bytes) result) \<Rightarrow> string \<Rightarrow> nat \<Rightarrow> nat \<Rightarrow> json list" where
  "paged c F path i k = concat (map (\<lambda>j. the (page_of c F path j)) [i..<i + k])"

lemma paged_Suc: "paged c F path i (Suc k) = the (page_of c F path i) @ paged c F path (Suc i) k"
  by (simp add: paged_def upt_conv_Cons del: upt_Suc)

lemma get_page:
  assumes "gh_fetch c = logged F"
  shows "get_json c (page_url c path i) log = (case F (page_url c path i) of Err e \<Rightarrow> Err e | Ok b \<Rightarrow> ok_or Parse (gh_json c b), log @ [page_url c path i])"
  using assms by (auto simp: get_json_def sbind_def logged_def split: sum.splits)

lemma paginate_loop_spec:
  assumes c: "gh_fetch c = logged F" and run: "paginate_loop c path [i..<i + n] out log = (r, log')"
  shows "\<exists>k \<le> n. log' = log @ map (page_url c path) [i..<i + k]
    \<and> (\<forall>xs. r = Ok xs \<longrightarrow> (\<forall>j. i \<le> j \<and> j < i + k \<longrightarrow> page_of c F path j \<noteq> None)
        \<and> xs = out @ paged c F path i k
        \<and> (k = n \<or> 0 < k \<and> last_page c (the (page_of c F path (i + k - 1)))))"
  using run
proof (induction n arbitrary: i out log)
  case 0
  then show ?case by (auto simp: paged_def)
next
  case (Suc n)
  let ?u = "page_url c path i"
  have l: "[i..<i + Suc n] = i # [Suc i..<Suc i + n]" by (simp add: upt_conv_Cons del: upt_Suc)
  have one: ?case if "log' = log @ [?u]" "\<And>xs. r = Ok xs \<Longrightarrow> \<exists>arr. page_of c F path i = Some arr \<and> last_page c arr \<and> xs = out @ arr"
    using that by (intro exI [of _ 1]) (fastforce simp: paged_def upt_rec [of i] dest: le_antisym)
  show ?case
  proof (cases "page_of c F path i")
    case None
    then show ?thesis
      using Suc.prems one unfolding l
      by (auto simp: sbind_def get_page [OF c] page_of_def ok_or_def split: sum.splits option.splits)
  next
    case (Some arr)
    then obtain b v where F: "F ?u = Ok b" "gh_json c b = Some v" "as_array v = Some arr"
      by (auto simp: page_of_def split: sum.splits option.splits simp: bind_eq_Some_conv)
    show ?thesis
    proof (cases "last_page c arr")
      case True
      then show ?thesis
        using Suc.prems one Some F unfolding l
        by (auto simp: sbind_def get_page [OF c] ok_or_def last_page_def split: if_splits)
    next
      case False
      then have "paginate_loop c path [Suc i..<Suc i + n] (out @ arr) (log @ [?u]) = (r, log')"
        using Suc.prems F unfolding l by (auto simp: sbind_def get_page [OF c] ok_or_def last_page_def)
      from Suc.IH [OF this] obtain k where k: "k \<le> n" "log' = (log @ [?u]) @ map (page_url c path) [Suc i..<Suc i + k]"
        "\<And>xs. r = Ok xs \<Longrightarrow> (\<forall>j. Suc i \<le> j \<and> j < Suc i + k \<longrightarrow> page_of c F path j \<noteq> None)
          \<and> xs = (out @ arr) @ paged c F path (Suc i) k
          \<and> (k = n \<or> 0 < k \<and> last_page c (the (page_of c F path (Suc i + k - 1))))" by blast
      have "(\<forall>j. i \<le> j \<and> j < i + Suc k \<longrightarrow> page_of c F path j \<noteq> None) \<and> xs = out @ paged c F path i (Suc k)
          \<and> (Suc k = Suc n \<or> 0 < Suc k \<and> last_page c (the (page_of c F path (i + Suc k - 1))))" if "r = Ok xs" for xs
        using k(3) [OF that] Some by (auto simp: paged_Suc) (metis Suc_leI le_neq_implies_less option.exhaust)+
      moreover have "log' = log @ map (page_url c path) [i..<i + Suc k]" using k(2) by (simp add: upt_conv_Cons del: upt_Suc)
      ultimately show ?thesis using k(1) by (intro exI [of _ "Suc k"]) blast
    qed
  qed
qed


definition demo_answers :: "string \<Rightarrow> (ImportError, bytes) result" where
  "demo_answers url = (if ends_with url ''&page=1'' then Ok [1] else if ends_with url ''&page=2'' then Ok [2] else Err Fetch)"

definition demo_client :: "string list GithubClient" where
  "demo_client = (github_new (logged demo_answers)
     (\<lambda>b. if b = [1] then Some (JArr [JNull, JNull]) else if b = [2] then Some (JArr [JNull]) else None))\<lparr>gh_per_page := 2\<rparr>"


end
