(* ===== verification/Utf8.thy ===== *)
theory Utf8
  imports Strings
begin

text \<open>
  A \<open>str\<close> is its bytes. This theory has what the web layer uses of the standard library on the encoding:
  validation (\<open>String::from_utf8\<close>), replacement of invalid sequences (\<open>from_utf8_lossy\<close>), slicing at byte
  offsets, which panics inside a character, white space as Unicode has it, and number parsing.
\<close>

definition code :: "char \<Rightarrow> nat" where "code c = of_char c"

definition cont :: "char \<Rightarrow> bool" where "cont c \<longleftrightarrow> 0x80 \<le> code c \<and> code c \<le> 0xBF"

text \<open>The range of the second byte for each lead byte, by the table of well-formed sequences.\<close>

definition second_ok :: "nat \<Rightarrow> char \<Rightarrow> bool" where
  "second_ok b c \<longleftrightarrow>
    (if b = 0xE0 then 0xA0 \<le> code c \<and> code c \<le> 0xBF
     else if b = 0xED then 0x80 \<le> code c \<and> code c \<le> 0x9F
     else if b = 0xF0 then 0x90 \<le> code c \<and> code c \<le> 0xBF
     else if b = 0xF4 then 0x80 \<le> code c \<and> code c \<le> 0x8F
     else cont c)"

text \<open>The number of bytes the sequence that starts with a lead byte has, 0 for a byte that starts none.\<close>

definition seq_len :: "nat \<Rightarrow> nat" where
  "seq_len b = (if b < 0x80 then 1 else if 0xC2 \<le> b \<and> b \<le> 0xDF then 2 else if 0xE0 \<le> b \<and> b \<le> 0xEF then 3
     else if 0xF0 \<le> b \<and> b \<le> 0xF4 then 4 else 0)"

text \<open>The next character: whether it is well formed, and its length or that of the longest well-formed start
  (at least one byte).\<close>

fun utf8_next :: "string \<Rightarrow> bool \<times> nat" where
  "utf8_next [] = (True, 0)"
| "utf8_next (a # s) =
    (let n = seq_len (code a) in
     if n = 0 then (False, 1)
     else if n = 1 then (True, 1)
     else case s of
       [] \<Rightarrow> (False, 1)
     | b # s2 \<Rightarrow>
         if \<not> second_ok (code a) b then (False, 1)
         else if n = 2 then (True, 2)
         else case s2 of
           [] \<Rightarrow> (False, 2)
         | c # s3 \<Rightarrow>
             if \<not> cont c then (False, 2)
             else if n = 3 then (True, 3)
             else case s3 of
               [] \<Rightarrow> (False, 3)
             | d # _ \<Rightarrow> if \<not> cont d then (False, 3) else (True, 4))"

lemma utf8_next_pos: "s \<noteq> [] \<Longrightarrow> 0 < snd (utf8_next s)"
  by (cases s) (auto simp: Let_def split: list.splits)

lemma utf8_next_le: "snd (utf8_next s) \<le> length s"
  by (cases s) (auto simp: Let_def split: list.splits)

function from_utf8_lossy :: "string \<Rightarrow> string" where
  "from_utf8_lossy s =
    (if s = [] then []
     else let (ok, n) = utf8_next s
          in (if ok then take n s else [CHR 0xEF, CHR 0xBF, CHR 0xBD]) @ from_utf8_lossy (drop n s))"
  by pat_completeness auto
termination
proof (relation "measure length", simp_all)
  fix s :: string and x ok n
  assume s: "s \<noteq> []" "(ok, n) = utf8_next s"
  have "0 < n" using utf8_next_pos [OF s(1)] by (simp flip: s(2))
  then show "length s - n < length s" using s(1) by simp
qed

declare from_utf8_lossy.simps [simp del]

function utf8_valid :: "string \<Rightarrow> bool" where
  "utf8_valid s \<longleftrightarrow> (if s = [] then True else let (ok, n) = utf8_next s in ok \<and> utf8_valid (drop n s))"
  by pat_completeness auto
termination
proof (relation "measure length", simp_all)
  fix s :: string and x ok n
  assume s: "s \<noteq> []" "(ok, n) = utf8_next s"
  have "0 < n" using utf8_next_pos [OF s(1)] by (simp flip: s(2))
  then show "length s - n < length s" using s(1) by simp
qed

declare utf8_valid.simps [simp del]

definition from_utf8 :: "string \<Rightarrow> string option" where
  "from_utf8 s = (if utf8_valid s then Some s else None)"

lemma lossy_valid [simp]: "utf8_valid s \<Longrightarrow> from_utf8_lossy s = s"
proof (induction s rule: utf8_valid.induct)
  case (1 s)
  obtain ok n where n: "utf8_next s = (ok, n)" by fastforce
  then show ?case using 1
    by (cases "s = []") (auto simp: from_utf8_lossy.simps [of s] utf8_valid.simps [of s] from_utf8_lossy.simps [of "[]"])
qed

text \<open>\<open>s.chars().take(n).collect()\<close>: the first characters, not bytes.\<close>

fun take_chars :: "nat \<Rightarrow> string \<Rightarrow> string" where
  "take_chars 0 s = []"
| "take_chars (Suc n) s = (if s = [] then [] else let k = snd (utf8_next s) in take k s @ take_chars n (drop k s))"

text \<open>Slicing \<open>&s[a..b]\<close>: \<open>None\<close> is a panic.\<close>

definition char_boundary :: "string \<Rightarrow> nat \<Rightarrow> bool" where
  "char_boundary s i \<longleftrightarrow> i = 0 \<or> i = length s \<or> i < length s \<and> \<not> cont (s ! i)"

definition str_slice :: "string \<Rightarrow> nat \<Rightarrow> nat \<Rightarrow> string option" where
  "str_slice s a b = (if a \<le> b \<and> char_boundary s a \<and> char_boundary s b then Some (sub_range a b s) else None)"

text \<open>The length of the white space character a string starts with, 0 if it starts with none.\<close>

fun ws_len :: "string \<Rightarrow> nat" where
  "ws_len [] = 0"
| "ws_len (a # s) =
    (if is_space a then 1
     else case s of
       [] \<Rightarrow> 0
     | b # s2 \<Rightarrow>
         if code a = 0xC2 \<and> code b \<in> {0x85, 0xA0} then 2
         else case s2 of
           [] \<Rightarrow> 0
         | c # _ \<Rightarrow>
             if code a = 0xE1 \<and> code b = 0x9A \<and> code c = 0x80
               \<or> code a = 0xE2 \<and> code b = 0x80 \<and> (0x80 \<le> code c \<and> code c \<le> 0x8A \<or> code c \<in> {0xA8, 0xA9, 0xAF})
               \<or> code a = 0xE2 \<and> code b = 0x81 \<and> code c = 0x9F
               \<or> code a = 0xE3 \<and> code b = 0x80 \<and> code c = 0x80
             then 3 else 0)"

lemma ws_len_le: "ws_len s \<le> length s"
  by (cases s) (auto split: list.splits)

function trim_start :: "string \<Rightarrow> string" where
  "trim_start s = (if ws_len s = 0 then s else trim_start (drop (ws_len s) s))"
  by pat_completeness auto
termination
proof (relation "measure length", simp_all)
  fix s assume "0 < ws_len s"
  then show "length s - ws_len s < length s" using ws_len_le [of s] by simp
qed

declare trim_start.simps [simp del]

text \<open>The same at the end: a suffix of one, two or three bytes that is one white space character.\<close>

definition ws_suffix :: "string \<Rightarrow> nat" where
  "ws_suffix s =
    (if s \<noteq> [] \<and> ws_len (drop (length s - 1) s) = 1 then 1
     else if 2 \<le> length s \<and> ws_len (drop (length s - 2) s) = 2 then 2
     else if 3 \<le> length s \<and> ws_len (drop (length s - 3) s) = 3 then 3 else 0)"

function trim_end :: "string \<Rightarrow> string" where
  "trim_end s = (if ws_suffix s = 0 then s else trim_end (take (length s - ws_suffix s) s))"
  by pat_completeness auto
termination by (relation "measure length") (auto simp: ws_suffix_def split: if_splits)

declare trim_end.simps [simp del]

definition utrim :: "string \<Rightarrow> string" where
  "utrim s = trim_end (trim_start s)"

text \<open>\<open>split_whitespace\<close>: the maximal pieces without white space. \<open>cur\<close> is the piece being read.\<close>

function split_ws :: "string \<Rightarrow> string \<Rightarrow> string list" where
  "split_ws s cur =
    (if s = [] then (if cur = [] then [] else [cur])
     else if ws_len s = 0 then split_ws (List.tl s) (cur @ [hd s])
     else (if cur = [] then [] else [cur]) @ split_ws (drop (ws_len s) s) [])"
  by pat_completeness auto
termination by (relation "measure (length \<circ> fst)") (auto simp: neq_Nil_conv)

declare split_ws.simps [simp del]

definition split_whitespace :: "string \<Rightarrow> string list" where
  "split_whitespace s = split_ws s []"

text \<open>\<open>str::parse\<close> at an unsigned type of \<open>w\<close> bits.\<close>

definition parse_unsigned :: "nat \<Rightarrow> string \<Rightarrow> nat option" where
  "parse_unsigned w s =
    (let ds = (case s of CHR ''+'' # r \<Rightarrow> r | _ \<Rightarrow> s)
     in if ds \<noteq> [] \<and> list_all is_digit ds \<and> undec ds < 2 ^ w then Some (undec ds) else None)"

text \<open>The same with the comparison at \<^typ>\<open>int\<close>, which evaluates in binary.\<close>

lemma parse_unsigned_code [code]:
  "parse_unsigned w s =
    (let ds = (case s of CHR ''+'' # r \<Rightarrow> r | _ \<Rightarrow> s)
     in if ds \<noteq> [] \<and> list_all is_digit ds \<and> int (undec ds) < 2 ^ w then Some (undec ds) else None)"
proof -
  have "int n < 2 ^ w \<longleftrightarrow> n < 2 ^ w" for n by (metis of_nat_less_iff of_nat_numeral of_nat_power)
  then show ?thesis by (simp add: parse_unsigned_def)
qed

text \<open>\<open>u8::from_str_radix(s, 16)\<close>.\<close>

definition hex_digit :: "char \<Rightarrow> nat option" where
  "hex_digit c =
    (if is_digit c then Some (code c - 48)
     else if 97 \<le> code c \<and> code c \<le> 102 then Some (code c - 87)
     else if 65 \<le> code c \<and> code c \<le> 70 then Some (code c - 55) else None)"

definition hex_byte :: "string \<Rightarrow> char option" where
  "hex_byte s =
    (let ds = (case s of CHR ''+'' # r \<Rightarrow> r | _ \<Rightarrow> s); vs = map hex_digit ds
     in if ds = [] \<or> None \<in> set vs then None
        else let v = foldl (\<lambda>a x. 16 * a + the x) 0 vs in if v < 256 then Some (char_of v) else None)"

end
