(* ===== verification/Http.thy ===== *)
theory Http
  imports Utf8 Json
begin

text \<open>
  The HTTP/1.1 reader and writer of the server (\<open>secgit-server/src/http.rs\<close>). A connection is the bytes that
  will arrive and whether it then ends or fails. The parser is total on every input, bounded in what it reads
  and keeps (\<open>parse_request_bounded\<close>), but not free of panics (\<open>request_target_panics\<close>): decoding a percent
  escape slices the text at a byte offset. A panic is an outcome of the model.
\<close>

section \<open>Requests and responses\<close>

record Request =
  rq_method :: string
  rq_path :: string
  rq_query :: "(string, string) hmap"
  rq_headers :: "(string, string) hmap"
  rq_body :: bytes
  rq_peer_ip :: string

record HttpLimits =
  max_header_bytes :: nat
  max_header_count :: nat
  max_body_bytes :: nat

definition http_limits_default :: HttpLimits where
  "http_limits_default = \<lparr>max_header_bytes = 64 * 1024, max_header_count = 100, max_body_bytes = 128 * 1024 * 1024\<rparr>"

record Response =
  rs_status :: u16
  rs_reason :: string
  rs_content_type :: string
  rs_body :: bytes
  rs_extra_headers :: "(string \<times> string) list"

datatype ParseOutcome = Parsed Request | Closed | Reject Response

definition response_new :: "u16 \<Rightarrow> string \<Rightarrow> string \<Rightarrow> bytes \<Rightarrow> Response" where
  "response_new status reason content_type body = \<lparr>rs_status = status, rs_reason = reason,
     rs_content_type = content_type, rs_body = body, rs_extra_headers = []\<rparr>"

definition response_text :: "u16 \<Rightarrow> string \<Rightarrow> string \<Rightarrow> Response" where
  "response_text status reason body = response_new status reason ''text/plain; charset=utf-8'' (as_bytes body)"

definition with_header :: "string \<Rightarrow> string \<Rightarrow> Response \<Rightarrow> Response" where
  "with_header k v r = r\<lparr>rs_extra_headers := rs_extra_headers r @ [(k, v)]\<rparr>"

definition write_response :: "Response \<Rightarrow> bytes" where
  "write_response r =
    as_bytes (''HTTP/1.1 '' @ dec (unat (rs_status r)) @ '' '' @ rs_reason r @ [CR, NL]
      @ ''Content-Type: '' @ rs_content_type r @ [CR, NL]
      @ ''Content-Length: '' @ dec (length (rs_body r)) @ [CR, NL]
      @ ''Connection: close'' @ [CR, NL]
      @ concat (map (\<lambda>(k, v). k @ '': '' @ v @ [CR, NL]) (rs_extra_headers r)) @ [CR, NL])
    @ rs_body r"

section \<open>Percent decoding\<close>

text \<open>\<open>None\<close> is a panic of the slice. \<open>fuel\<close> bounds the loop; the index grows in every turn, so the length of
  the text is enough.\<close>

fun url_decode_loop :: "nat \<Rightarrow> string \<Rightarrow> nat \<Rightarrow> string \<Rightarrow> string option" where
  "url_decode_loop 0 s i out = Some out"
| "url_decode_loop (Suc fuel) s i out =
    (if length s \<le> i then Some out
     else if s ! i = CHR ''%'' \<and> i + 2 < length s then
       (case str_slice s (i + 1) (i + 3) of
          None \<Rightarrow> None
        | Some h \<Rightarrow>
            (case hex_byte h of
               Some b \<Rightarrow> url_decode_loop fuel s (i + 3) (out @ [b])
             | None \<Rightarrow> url_decode_loop fuel s (i + 1) (out @ [s ! i])))
     else if s ! i = CHR ''+'' then url_decode_loop fuel s (i + 1) (out @ '' '')
     else url_decode_loop fuel s (i + 1) (out @ [s ! i]))"

definition url_decode :: "string \<Rightarrow> string option" where
  "url_decode s = map_option from_utf8_lossy (url_decode_loop (length s) s 0 [])"

text \<open>The pairs of a query or a form.\<close>

definition decode_pair :: "string \<Rightarrow> (string \<times> string) option" where
  "decode_pair pair =
    (case split_once CHR ''='' pair of
       Some (k, v) \<Rightarrow> Option.bind (url_decode k) (\<lambda>k'. map_option (\<lambda>v'. (k', v')) (url_decode v))
     | None \<Rightarrow> map_option (\<lambda>k'. (k', [])) (url_decode pair))"

fun decode_pairs :: "string list \<Rightarrow> (string, string) hmap \<Rightarrow> (string, string) hmap option" where
  "decode_pairs [] m = Some m"
| "decode_pairs (p # ps) m = Option.bind (decode_pair p) (\<lambda>(k, v). decode_pairs ps (hm_insert k v m))"

definition split_target :: "string \<Rightarrow> (string \<times> (string, string) hmap) option" where
  "split_target target =
    (case split_once CHR ''?'' target of
       Some (path, qs) \<Rightarrow> map_option (\<lambda>q. (path, q)) (decode_pairs (split_on CHR ''&'' qs) [])
     | None \<Rightarrow> Some (target, []))"

definition form :: "Request \<Rightarrow> (string, string) hmap option" where
  "form r = decode_pairs (filter (\<lambda>p. p \<noteq> []) (split_on CHR ''&'' (from_utf8_lossy (of_bytes (rq_body r))))) []"

section \<open>Credentials in a request\<close>

definition header :: "Request \<Rightarrow> string \<Rightarrow> string option" where
  "header r name = map_of (rq_headers r) (ascii_lower name)"

definition bearer_token :: "Request \<Rightarrow> string option" where
  "bearer_token r =
    (case Option.bind (header r ''authorization'') (\<lambda>v. strip_prefix v ''Bearer '') of
       Some t \<Rightarrow> Some (utrim t)
     | None \<Rightarrow> map_of (rq_query r) ''token'')"

definition B64_ALPHABET :: string where
  "B64_ALPHABET = ''ABCDEFGHIJKLMNOPQRSTUVWXYZabcdefghijklmnopqrstuvwxyz0123456789+/''"

text \<open>The decoding table: the position of a byte in the alphabet.\<close>

definition std_b64_value :: "byte \<Rightarrow> nat option" where
  "std_b64_value c = find (\<lambda>i. as_bytes B64_ALPHABET ! i = c) [0..<length B64_ALPHABET]"

fun base64_loop :: "bytes \<Rightarrow> u32 \<Rightarrow> nat \<Rightarrow> bytes \<Rightarrow> bytes option" where
  "base64_loop [] buf bits out = Some out"
| "base64_loop (c # cs) buf bits out =
    (if c = of_char (CHR ''='') then Some out
     else case std_b64_value c of
       None \<Rightarrow> None
     | Some v \<Rightarrow>
         (let buf' = push_bit 6 buf OR word_of_nat v; bits' = bits + 6
          in if 8 \<le> bits' then base64_loop cs buf' (bits' - 8) (out @ [ucast (drop_bit (bits' - 8) buf')])
             else base64_loop cs buf' bits' out))"

definition base64_decode :: "string \<Rightarrow> bytes option" where
  "base64_decode s = base64_loop (as_bytes s) 0 0 []"

definition basic_auth :: "Request \<Rightarrow> (string \<times> string) option" where
  "basic_auth r =
    Option.bind (header r ''authorization'') (\<lambda>v.
    Option.bind (strip_prefix v ''Basic '') (\<lambda>b64.
    Option.bind (base64_decode (utrim b64)) (\<lambda>decoded.
    Option.bind (from_utf8 (of_bytes decoded)) (split_once CHR '':''))))"

section \<open>The parser\<close>

datatype LineOutcome = Line string | Eof | TooLong

text \<open>The rest of a connection: what will arrive, and whether it then fails (with an I/O error, as a read
  timeout does) rather than ends.\<close>

record conn =
  cn_input :: bytes
  cn_fails :: bool

text \<open>\<open>None\<close> is an I/O error.\<close>

fun read_line_loop :: "bytes \<Rightarrow> bool \<Rightarrow> nat \<Rightarrow> bytes \<Rightarrow> LineOutcome option \<times> bytes \<times> nat" where
  "read_line_loop [] fails budget buf =
    (if fails then None else if buf = [] then Some Eof else Some (Line (from_utf8_lossy (of_bytes buf))), [], budget)"
| "read_line_loop (b # input) fails budget buf =
    (if budget = 0 then (Some TooLong, input, budget)
     else if b = of_char NL then (Some (Line (from_utf8_lossy (of_bytes buf))), input, budget - 1)
     else read_line_loop input fails (budget - 1) (buf @ [b]))"

definition read_capped_line :: "conn \<Rightarrow> nat \<Rightarrow> LineOutcome option \<times> conn \<times> nat" where
  "read_capped_line c budget =
    (case read_line_loop (cn_input c) (cn_fails c) budget [] of (l, rest, budget') \<Rightarrow> (l, c\<lparr>cn_input := rest\<rparr>, budget'))"

definition headers_too_large :: Response where
  "headers_too_large = response_text 431 ''Request Header Fields Too Large'' ''headers too large''"

text \<open>What a call returns: an I/O error, a panic, or an outcome.\<close>

datatype parse_result = Io_Error | Panic | Done ParseOutcome

text \<open>The loop over the header lines; \<open>left\<close> is how many more header lines the limit allows.\<close>

datatype header_result = H_Io | H_Reject | H_Done "(string, string) hmap"

fun header_loop :: "nat \<Rightarrow> conn \<Rightarrow> nat \<Rightarrow> (string, string) hmap \<Rightarrow> header_result \<times> conn" where
  "header_loop left c budget headers =
    (case read_capped_line c budget of
       (None, c', _) \<Rightarrow> (H_Io, c')
     | (Some Eof, c', _) \<Rightarrow> (H_Done headers, c')
     | (Some TooLong, c', _) \<Rightarrow> (H_Reject, c')
     | (Some (Line l), c', budget') \<Rightarrow>
         let line = trim_end l in
         if line = [] then (H_Done headers, c')
         else case left of
           0 \<Rightarrow> (H_Reject, c')
         | Suc k \<Rightarrow>
             header_loop k c' budget'
               (case split_once CHR '':'' line of
                  Some (k', v) \<Rightarrow> hm_insert (ascii_lower (utrim k')) (utrim v) headers
                | None \<Rightarrow> headers))"

declare header_loop.simps [simp del]

definition read_body :: "HttpLimits \<Rightarrow> string \<Rightarrow> string \<Rightarrow> (string, string) hmap \<Rightarrow> (string, string) hmap \<Rightarrow> conn \<Rightarrow> parse_result \<times> conn" where
  "read_body limits meth path query headers c =
    (if (case map_of headers ''transfer-encoding'' of Some te \<Rightarrow> contains ''chunked'' (ascii_lower te) | None \<Rightarrow> False)
     then (Done (Reject (response_text 400 ''Bad Request'' ''chunked transfer-encoding is not supported'')), c)
     else
       let content_length = unwrap_or (Option.bind (map_of headers ''content-length'') (parse_unsigned 64)) 0 in
       if content_length > max_body_bytes limits
       then (Done (Reject (response_text 413 ''Payload Too Large'' ''request body exceeds the configured limit'')), c)
       else if length (cn_input c) < content_length then (Done Closed, c\<lparr>cn_input := []\<rparr>)
       else (Done (Parsed \<lparr>rq_method = meth, rq_path = path, rq_query = query, rq_headers = headers,
               rq_body = take content_length (cn_input c), rq_peer_ip = []\<rparr>),
             c\<lparr>cn_input := drop content_length (cn_input c)\<rparr>))"

definition parse_request :: "HttpLimits \<Rightarrow> conn \<Rightarrow> parse_result \<times> conn" where
  "parse_request limits c =
    (case read_capped_line c (max_header_bytes limits) of
       (None, c1, _) \<Rightarrow> (Io_Error, c1)
     | (Some Eof, c1, _) \<Rightarrow> (Done Closed, c1)
     | (Some TooLong, c1, _) \<Rightarrow> (Done (Reject headers_too_large), c1)
     | (Some (Line request_line), c1, budget) \<Rightarrow>
         (case split_whitespace request_line of
            meth # raw_target # _ \<Rightarrow>
              (case split_target raw_target of
                 None \<Rightarrow> (Panic, c1)
               | Some (path, query) \<Rightarrow>
                   (case header_loop (max_header_count limits) c1 budget [] of
                      (H_Io, c2) \<Rightarrow> (Io_Error, c2)
                    | (H_Reject, c2) \<Rightarrow> (Done (Reject headers_too_large), c2)
                    | (H_Done headers, c2) \<Rightarrow> read_body limits meth path query headers c2))
          | _ \<Rightarrow> (Done (Reject (response_text 400 ''Bad Request'' ''malformed request line'')), c1)))"

section \<open>Bounds\<close>

lemma read_line_loop_bound:
  assumes "read_line_loop input fails budget buf = (r, rest, budget')"
  shows "\<exists>used. input = used @ rest \<and> length used + budget' \<le> Suc budget
    \<and> (\<forall>l. r = Some (Line l) \<or> r = Some Eof \<longrightarrow> length used + budget' = budget)"
  using assms
proof (induction input arbitrary: budget buf)
  case Nil
  then show ?case by auto
next
  case (Cons b input)
  show ?case
  proof (cases "budget = 0 \<or> b = of_char NL")
    case True
    then have "input = rest" "budget' = budget - 1 \<or> budget' = 0 \<and> budget = 0" "budget = 0 \<longrightarrow> r = Some TooLong"
      using Cons.prems by (auto split: if_splits)
    then show ?thesis by (intro exI [of _ "[b]"]) auto
  next
    case False
    then have "read_line_loop input fails (budget - 1) (buf @ [b]) = (r, rest, budget')" using Cons.prems by simp
    from Cons.IH [OF this] obtain used where "input = used @ rest" "length used + budget' \<le> Suc (budget - 1)"
      "\<forall>l. r = Some (Line l) \<or> r = Some Eof \<longrightarrow> length used + budget' = budget - 1" by blast
    then show ?thesis using False by (intro exI [of _ "b # used"]) auto
  qed
qed

lemma read_capped_line_bound:
  assumes "read_capped_line c budget = (r, c', budget')"
  shows "\<exists>used. cn_input c = used @ cn_input c' \<and> length used + budget' \<le> Suc budget \<and> cn_fails c' = cn_fails c
    \<and> (\<forall>l. r = Some (Line l) \<or> r = Some Eof \<longrightarrow> length used + budget' = budget)"
proof -
  obtain rest where r: "read_line_loop (cn_input c) (cn_fails c) budget [] = (r, rest, budget')" "c' = c\<lparr>cn_input := rest\<rparr>"
    using assms by (auto simp: read_capped_line_def split: prod.splits)
  then show ?thesis using read_line_loop_bound [OF r(1)] by simp
qed

text \<open>A turn of the loop ends it, or goes on after a line with at most one more header.\<close>

lemma header_loop_cases:
  assumes "header_loop left c budget headers = (r, c')" "read_capped_line c budget = (o', c1, b1)"
  shows "c' = c1 \<and> (\<forall>hs. r = H_Done hs \<longrightarrow> hs = headers \<and> (o' = Some Eof \<or> (\<exists>l. o' = Some (Line l))))
    \<or> (\<exists>line hs' k. left = Suc k \<and> o' = Some (Line line) \<and> length hs' \<le> Suc (length headers)
          \<and> header_loop k c1 b1 hs' = (r, c'))"
proof (cases "\<exists>l k. left = Suc k \<and> o' = Some (Line l) \<and> trim_end l \<noteq> []")
  case True
  then obtain l k where l: "left = Suc k" "o' = Some (Line l)" "trim_end l \<noteq> []" by blast
  let ?hs = "case split_once CHR '':'' (trim_end l) of
    Some (k', v) \<Rightarrow> hm_insert (ascii_lower (utrim k')) (utrim v) headers | None \<Rightarrow> headers"
  have "header_loop k c1 b1 ?hs = (r, c')"
    using assms l by (simp add: header_loop.simps [of "Suc k"])
  moreover have "length ?hs \<le> Suc (length headers)"
    by (simp add: length_hm_insert split: option.split prod.split)
  ultimately show ?thesis using l(1,2) by blast
next
  case False
  show ?thesis
  proof (cases left)
    case 0
    show ?thesis using assms by (auto simp: 0 header_loop.simps [of 0] Let_def split: option.splits LineOutcome.splits if_splits)
  next
    case (Suc k)
    show ?thesis using assms False
      by (auto simp: Suc header_loop.simps [of "Suc k"] split: option.splits LineOutcome.splits if_splits)
  qed
qed

lemma header_loop_bound:
  assumes "header_loop left c budget headers = (r, c')"
  shows "\<exists>used. cn_input c = used @ cn_input c' \<and> length used \<le> Suc budget
    \<and> (\<forall>hs. r = H_Done hs \<longrightarrow> length used \<le> budget \<and> length hs \<le> length headers + left)"
  using assms
proof (induction left arbitrary: c budget headers rule: less_induct)
  case (less left)
  obtain o' c1 b1 where l: "read_capped_line c budget = (o', c1, b1)" by (cases "read_capped_line c budget") auto
  obtain used where u: "cn_input c = used @ cn_input c1" "length used + b1 \<le> Suc budget"
    "\<And>l. o' = Some (Line l) \<or> o' = Some Eof \<Longrightarrow> length used + b1 = budget" using read_capped_line_bound [OF l] by metis
  from header_loop_cases [OF less.prems l] show ?case
  proof (elim disjE exE conjE)
    assume "c' = c1" and r: "\<forall>hs. r = H_Done hs \<longrightarrow> hs = headers \<and> (o' = Some Eof \<or> (\<exists>l. o' = Some (Line l)))"
    have "length used \<le> budget \<and> length hs \<le> length headers + left" if "r = H_Done hs" for hs
      using r that u(3) by fastforce
    then show ?thesis using u(1,2) \<open>c' = c1\<close> by (intro exI [of _ used]) simp
  next
    fix line hs' k assume k: "left = Suc k" "o' = Some (Line line)" "length hs' \<le> Suc (length headers)"
      "header_loop k c1 b1 hs' = (r, c')"
    have eq: "length used + b1 = budget" by (rule u(3) [of line]) (simp add: k(2))
    obtain used' where u': "cn_input c1 = used' @ cn_input c'" "length used' \<le> Suc b1"
      "\<And>hs. r = H_Done hs \<Longrightarrow> length used' \<le> b1 \<and> length hs \<le> length hs' + k"
      using less.IH [OF _ k(4)] k(1) by auto
    have "length (used @ used') \<le> budget \<and> length hs \<le> length headers + left" if "r = H_Done hs" for hs
      using u'(3) [OF that] k(1,3) eq by simp
    then show ?thesis using u(1) u'(1,2) eq by (intro exI [of _ "used @ used'"]) simp
  qed
qed

lemma read_body_bound:
  assumes "read_body limits meth path query headers c = (r, c')"
  shows "\<exists>used. cn_input c = used @ cn_input c' \<and> (\<forall>req. r = Done (Parsed req) \<longrightarrow>
    rq_headers req = headers \<and> rq_body req = used \<and> length used \<le> max_body_bytes limits
    \<and> length used = unwrap_or (Option.bind (map_of headers ''content-length'') (parse_unsigned 64)) 0)"
  using assms by (auto simp: read_body_def Let_def split: if_splits option.splits)

lemma parse_request_line:
  assumes "parse_request limits c = (Done (Parsed req), c')"
  obtains l c1 b1 headers c2 meth pth query where
    "read_capped_line c (max_header_bytes limits) = (Some (Line l), c1, b1)"
    "header_loop (max_header_count limits) c1 b1 [] = (H_Done headers, c2)"
    "read_body limits meth pth query headers c2 = (Done (Parsed req), c')"
  using assms
  by (auto simp: parse_request_def split: option.splits LineOutcome.splits prod.splits list.splits header_result.splits)

text \<open>C23: a request that the parser accepts stays inside the limits of the configuration. What it read of the
  connection is a header block of at most \<open>max_header_bytes\<close> bytes followed by the body. The body is exactly the
  number of bytes the \<open>Content-Length\<close> header says (none without a valid one), at most \<open>max_body_bytes\<close>, and the
  map of headers has at most \<open>max_header_count\<close> entries.\<close>

theorem parse_request_bounded:
  assumes "parse_request limits c = (Done (Parsed req), c')"
  shows "\<exists>head. cn_input c = head @ rq_body req @ cn_input c' \<and> length head \<le> max_header_bytes limits
    \<and> length (rq_headers req) \<le> max_header_count limits \<and> length (rq_body req) \<le> max_body_bytes limits
    \<and> length (rq_body req) = unwrap_or (Option.bind (header req ''Content-Length'') (parse_unsigned 64)) 0"
proof -
  obtain l c1 b1 headers c2 meth pth query where
    l: "read_capped_line c (max_header_bytes limits) = (Some (Line l), c1, b1)" and
    h: "header_loop (max_header_count limits) c1 b1 [] = (H_Done headers, c2)" and
    b: "read_body limits meth pth query headers c2 = (Done (Parsed req), c')"
    by (rule parse_request_line [OF assms])
  obtain u where u: "cn_input c = u @ cn_input c1" "length u + b1 = max_header_bytes limits"
    using read_capped_line_bound [OF l] by auto
  obtain v where v: "cn_input c1 = v @ cn_input c2" "length v \<le> b1" "length headers \<le> max_header_count limits"
    using header_loop_bound [OF h] by auto
  obtain w where w: "cn_input c2 = w @ cn_input c'" "rq_headers req = headers" "rq_body req = w"
    "length w \<le> max_body_bytes limits"
    "length w = unwrap_or (Option.bind (map_of headers ''content-length'') (parse_unsigned 64)) 0"
    using read_body_bound [OF b] by auto
  have "ascii_lower ''Content-Length'' = ''content-length''" by code_simp
  then show ?thesis using u v w by (intro exI [of _ "u @ v"]) (simp add: header_def)
qed

definition demo_limits :: HttpLimits where
  "demo_limits = \<lparr>max_header_bytes = 60, max_header_count = 2, max_body_bytes = 4\<rparr>"

definition demo_conn :: conn where
  "demo_conn = \<lparr>cn_input = as_bytes (''PUT /x?a=b HTTP/1.1'' @ [CR, NL] @ ''content-length: 3'' @ [CR, NL, CR, NL] @ ''abcd''),
     cn_fails = False\<rparr>"

theorem parse_request_bounded_witness:
  "\<exists>req c'. parse_request demo_limits demo_conn = (Done (Parsed req), c') \<and> rq_body req = as_bytes ''abc''
    \<and> length (rq_body req) \<le> 4"
proof -
  have e: "case parse_request demo_limits demo_conn of (Done (Parsed req), c') \<Rightarrow> rq_body req = as_bytes ''abc'' | _ \<Rightarrow> False"
    by code_simp
  then obtain req c' where r: "parse_request demo_limits demo_conn = (Done (Parsed req), c')" "rq_body req = as_bytes ''abc''"
    by (auto split: prod.splits parse_result.splits ParseOutcome.splits)
  then show ?thesis using parse_request_bounded [OF r(1)] by (auto simp: demo_limits_def)
qed

text \<open>A line that fits in the budget is read whole.\<close>

lemma read_line_loop_line:
  assumes "of_char NL \<notin> set line" "length line < budget"
  shows "read_line_loop (line @ of_char NL # rest) fails budget buf
    = (Some (Line (from_utf8_lossy (of_bytes (buf @ line)))), rest, budget - Suc (length line))"
  using assms by (induction line arbitrary: budget buf) auto

text \<open>A request line whose target has the two bytes of one character after a percent sign and a digit.\<close>

definition panic_target :: string where
  "panic_target = ''/?%1'' @ [CHR 0xC3, CHR 0xA9]"

definition panic_line :: string where
  "panic_line = ''GET '' @ panic_target"

lemma panic_line_parts: "split_whitespace (from_utf8_lossy panic_line) = [''GET'', panic_target]"
  by code_simp

lemma panic_target_None: "split_target panic_target = None"
  by code_simp

text \<open>C31: the parser is not free of panics. Whatever the limits are, so long as they admit a request line of
  eleven bytes, and whatever follows, the request line \<open>panic_line\<close> makes percent decoding slice the text inside a
  character: the call panics before any header is read, so before any authentication.\<close>

theorem request_target_panics:
  assumes "11 \<le> max_header_bytes limits"
  shows "fst (parse_request limits \<lparr>cn_input = as_bytes (panic_line @ [NL]) @ rest, cn_fails = fails\<rparr>) = Panic"
proof -
  have "of_char NL \<notin> set (as_bytes panic_line)" "length (as_bytes panic_line) = 10" by code_simp+
  then have "read_capped_line \<lparr>cn_input = as_bytes (panic_line @ [NL]) @ rest, cn_fails = fails\<rparr> (max_header_bytes limits)
    = (Some (Line (from_utf8_lossy panic_line)), \<lparr>cn_input = rest, cn_fails = fails\<rparr>, max_header_bytes limits - 11)"
    using assms read_line_loop_line [of "as_bytes panic_line" "max_header_bytes limits" rest fails "[]"]
    by (simp add: read_capped_line_def)
  then show ?thesis by (simp add: parse_request_def panic_line_parts panic_target_None)
qed

theorem request_target_panics_witness:
  "11 \<le> max_header_bytes http_limits_default
   \<and> fst (parse_request http_limits_default \<lparr>cn_input = as_bytes (panic_line @ [NL]) @ [], cn_fails = False\<rparr>) = Panic"
proof -
  have "11 \<le> max_header_bytes http_limits_default" by (simp add: http_limits_default_def)
  then show ?thesis using request_target_panics [of http_limits_default] by blast
qed

end
