(* ===== verification/Identity.thy ===== *)
theory Identity
  imports SecGit_Prelude
begin

text \<open>
  The identity model and the access-control resolver: \<open>crates/secgit-identity/src/model.rs\<close> and \<open>lib.rs\<close>.
  The result is that the resolver computes the maximum of the grants a user has, whatever the order in
  which the teams are visited.
\<close>

section \<open>model.rs\<close>

datatype Role = Read | Write | Admin

primrec role_rank :: "Role \<Rightarrow> nat" where
  "role_rank Read = 1"
| "role_rank Write = 2"
| "role_rank Admin = 3"

lemma role_rank_inj: "role_rank r = role_rank s \<Longrightarrow> r = s"
  by (cases r; cases s) simp_all

instantiation Role :: linorder
begin

definition less_eq_Role :: "Role \<Rightarrow> Role \<Rightarrow> bool" where
  "r \<le> s \<longleftrightarrow> role_rank r \<le> role_rank s"

definition less_Role :: "Role \<Rightarrow> Role \<Rightarrow> bool" where
  "r < s \<longleftrightarrow> role_rank r < role_rank s"

instance
  by standard (auto simp: less_eq_Role_def less_Role_def intro: role_rank_inj)

end

datatype OrgRole = Member | Owner

record User =
  u_id :: string
  u_username :: string
  u_email :: string

record Org =
  o_id :: string
  o_slug :: string
  o_members :: "(string \<times> OrgRole) list"

record Team =
  t_id :: string
  t_org_id :: string
  t_name :: string
  t_member_ids :: "string list"
  t_repo_grants :: "(string \<times> Role) list"

datatype RepoOwner = OwnerUser string | OwnerOrg string

record Repo =
  r_id :: string
  r_owner :: RepoOwner
  r_name :: string
  r_private :: bool
  r_collaborators :: "(string \<times> Role) list"

definition resource_id :: "Repo \<Rightarrow> string" where
  "resource_id r =
    (case r_owner r of OwnerUser u \<Rightarrow> ''user:'' @ u @ ''/'' @ r_name r
     | OwnerOrg o' \<Rightarrow> ''org:'' @ o' @ ''/'' @ r_name r)"

definition kek_owner :: "Repo \<Rightarrow> string" where
  "kek_owner r = (case r_owner r of OwnerUser u \<Rightarrow> ''user:'' @ u | OwnerOrg o' \<Rightarrow> ''org:'' @ o')"

section \<open>The directory\<close>

datatype IdentityError = AuthFailed | NotFound string | Exists string | Crypto | Storage | Serde

record Directory =
  d_users :: "(string, User) hmap"
  d_orgs :: "(string, Org) hmap"
  d_teams :: "(string, Team) hmap"
  d_repos :: "(string, Repo) hmap"

definition directory_new :: Directory where
  "directory_new = \<lparr>d_users = [], d_orgs = [], d_teams = [], d_repos = []\<rparr>"

definition add_user :: "User \<Rightarrow> Directory \<Rightarrow> (IdentityError, Directory) result" where
  "add_user user d =
    (if map_of (d_users d) (u_id user) \<noteq> None then Err (Exists (u_id user))
     else Ok (d\<lparr>d_users := hm_insert (u_id user) user (d_users d)\<rparr>))"

definition add_org :: "Org \<Rightarrow> Directory \<Rightarrow> (IdentityError, Directory) result" where
  "add_org org d =
    (if map_of (d_orgs d) (o_id org) \<noteq> None then Err (Exists (o_id org))
     else Ok (d\<lparr>d_orgs := hm_insert (o_id org) org (d_orgs d)\<rparr>))"

definition add_team :: "Team \<Rightarrow> Directory \<Rightarrow> (IdentityError, Directory) result" where
  "add_team team d = Ok (d\<lparr>d_teams := hm_insert (t_id team) team (d_teams d)\<rparr>)"

definition add_repo :: "Repo \<Rightarrow> Directory \<Rightarrow> (IdentityError, Directory) result" where
  "add_repo repo d =
    (if map_of (d_repos d) (r_id repo) \<noteq> None then Err (Exists (r_id repo))
     else Ok (d\<lparr>d_repos := hm_insert (r_id repo) repo (d_repos d)\<rparr>))"

definition dir_user :: "Directory \<Rightarrow> string \<Rightarrow> User option" where "dir_user d key = map_of (d_users d) key"
definition dir_org :: "Directory \<Rightarrow> string \<Rightarrow> Org option" where "dir_org d key = map_of (d_orgs d) key"
definition dir_team :: "Directory \<Rightarrow> string \<Rightarrow> Team option" where "dir_team d key = map_of (d_teams d) key"
definition dir_repo :: "Directory \<Rightarrow> string \<Rightarrow> Repo option" where "dir_repo d key = map_of (d_repos d) key"

definition update_user :: "User \<Rightarrow> Directory \<Rightarrow> (IdentityError, Directory) result" where
  "update_user user d =
    (if map_of (d_users d) (u_id user) = None then Err (NotFound (u_id user))
     else Ok (d\<lparr>d_users := hm_insert (u_id user) user (d_users d)\<rparr>))"

definition update_org :: "Org \<Rightarrow> Directory \<Rightarrow> (IdentityError, Directory) result" where
  "update_org org d =
    (if map_of (d_orgs d) (o_id org) = None then Err (NotFound (o_id org))
     else Ok (d\<lparr>d_orgs := hm_insert (o_id org) org (d_orgs d)\<rparr>))"

definition update_team :: "Team \<Rightarrow> Directory \<Rightarrow> (IdentityError, Directory) result" where
  "update_team team d =
    (if map_of (d_teams d) (t_id team) = None then Err (NotFound (t_id team))
     else Ok (d\<lparr>d_teams := hm_insert (t_id team) team (d_teams d)\<rparr>))"

definition update_repo :: "Repo \<Rightarrow> Directory \<Rightarrow> (IdentityError, Directory) result" where
  "update_repo repo d =
    (if map_of (d_repos d) (r_id repo) = None then Err (NotFound (r_id repo))
     else Ok (d\<lparr>d_repos := hm_insert (r_id repo) repo (d_repos d)\<rparr>))"

definition remove_user :: "string \<Rightarrow> Directory \<Rightarrow> (IdentityError, Directory) result" where
  "remove_user key d =
    (if map_of (d_users d) key = None then Err (NotFound key) else Ok (d\<lparr>d_users := hm_remove key (d_users d)\<rparr>))"

definition remove_org :: "string \<Rightarrow> Directory \<Rightarrow> (IdentityError, Directory) result" where
  "remove_org key d =
    (if map_of (d_orgs d) key = None then Err (NotFound key) else Ok (d\<lparr>d_orgs := hm_remove key (d_orgs d)\<rparr>))"

definition remove_team :: "string \<Rightarrow> Directory \<Rightarrow> (IdentityError, Directory) result" where
  "remove_team key d =
    (if map_of (d_teams d) key = None then Err (NotFound key) else Ok (d\<lparr>d_teams := hm_remove key (d_teams d)\<rparr>))"

definition remove_repo :: "string \<Rightarrow> Directory \<Rightarrow> (IdentityError, Directory) result" where
  "remove_repo key d =
    (if map_of (d_repos d) key = None then Err (NotFound key) else Ok (d\<lparr>d_repos := hm_remove key (d_repos d)\<rparr>))"

definition list_users :: "Directory \<Rightarrow> User list" where "list_users d = map snd (d_users d)"
definition list_orgs :: "Directory \<Rightarrow> Org list" where "list_orgs d = map snd (d_orgs d)"
definition list_teams :: "Directory \<Rightarrow> Team list" where "list_teams d = map snd (d_teams d)"
definition list_repos :: "Directory \<Rightarrow> Repo list" where "list_repos d = map snd (d_repos d)"

section \<open>Authorisation\<close>

definition org_role :: "Directory \<Rightarrow> string \<Rightarrow> string \<Rightarrow> OrgRole option" where
  "org_role d org_id user_id =
    (case map_of (d_orgs d) org_id of
       Some org \<Rightarrow> map_option snd (find (\<lambda>(u, _). u = user_id) (o_members org))
     | None \<Rightarrow> None)"

definition bump :: "Role \<Rightarrow> Role option \<Rightarrow> Role option" where
  "bump r best = (case best of Some b \<Rightarrow> if r > b then Some r else best | None \<Rightarrow> Some r)"

definition owner_bump :: "Directory \<Rightarrow> string \<Rightarrow> Repo \<Rightarrow> Role option \<Rightarrow> Role option" where
  "owner_bump d user_id repo best =
    (case r_owner repo of
       OwnerUser owner \<Rightarrow> if owner = user_id then bump Admin best else best
     | OwnerOrg org_id \<Rightarrow> if org_role d org_id user_id = Some Owner then bump Admin best else best)"

definition collab_bump :: "string \<Rightarrow> (string \<times> Role) list \<Rightarrow> Role option \<Rightarrow> Role option" where
  "collab_bump key grants best = fold (\<lambda>(u, r) b. if u = key then bump r b else b) grants best"

definition team_bump :: "string \<Rightarrow> string \<Rightarrow> Repo \<Rightarrow> Team \<Rightarrow> Role option \<Rightarrow> Role option" where
  "team_bump user_id repo_id repo team best =
    (if \<not> list_ex (\<lambda>m. m = user_id) (t_member_ids team) then best
     else case r_owner repo of
       OwnerOrg org_id \<Rightarrow>
         if t_org_id team \<noteq> org_id then best else collab_bump repo_id (t_repo_grants team) best
     | OwnerUser _ \<Rightarrow> best)"

definition effective_role :: "Directory \<Rightarrow> string \<Rightarrow> string \<Rightarrow> Role option" where
  "effective_role d user_id repo_id =
    (case map_of (d_repos d) repo_id of
       None \<Rightarrow> None
     | Some repo \<Rightarrow>
         fold (team_bump user_id repo_id repo) (map snd (d_teams d))
           (collab_bump user_id (r_collaborators repo) (owner_bump d user_id repo None)))"

definition can :: "Directory \<Rightarrow> string \<Rightarrow> string \<Rightarrow> Role \<Rightarrow> bool" where
  "can d user_id repo_id required =
    (case effective_role d user_id repo_id of Some r \<Rightarrow> required \<le> r | None \<Rightarrow> False)"

definition repos_visible_to :: "Directory \<Rightarrow> string \<Rightarrow> Repo list" where
  "repos_visible_to d user_id = filter (\<lambda>r. can d user_id (r_id r) Read) (map snd (d_repos d))"

section \<open>The resolver computes the maximum grant\<close>

text \<open>The specification: the set of the roles a user is granted on a repository.\<close>

definition grants :: "Directory \<Rightarrow> string \<Rightarrow> string \<Rightarrow> Role set" where
  "grants d user_id repo_id = {r. \<exists>repo. map_of (d_repos d) repo_id = Some repo \<and>
     (r = Admin \<and> r_owner repo = OwnerUser user_id
      \<or> r = Admin \<and> (\<exists>org. r_owner repo = OwnerOrg org \<and> org_role d org user_id = Some Owner)
      \<or> (user_id, r) \<in> set (r_collaborators repo)
      \<or> (\<exists>team tid. map_of (d_teams d) tid = Some team \<and> user_id \<in> set (t_member_ids team)
            \<and> r_owner repo = OwnerOrg (t_org_id team) \<and> (repo_id, r) \<in> set (t_repo_grants team)))}"

text \<open>\<open>best_of b R\<close>: \<open>b\<close> is the maximum of \<open>R\<close>, if there is one.\<close>

definition best_of :: "Role option \<Rightarrow> Role set \<Rightarrow> bool" where
  "best_of b R \<longleftrightarrow> (case b of None \<Rightarrow> R = {} | Some m \<Rightarrow> m \<in> R \<and> (\<forall>r \<in> R. r \<le> m))"

lemma best_of_bump: "best_of b R \<Longrightarrow> best_of (bump r b) (insert r R)"
  by (auto simp: best_of_def bump_def split: option.splits)

lemma best_of_collab:
  "best_of b R \<Longrightarrow> best_of (collab_bump key gs b) (R \<union> {r. (key, r) \<in> set gs})"
proof (induction gs arbitrary: b R)
  case (Cons g gs)
  obtain u r where g: "g = (u, r)" by fastforce
  show ?case
  proof (cases "u = key")
    case True
    have "R \<union> {r'. (key, r') \<in> set (g # gs)} = insert r R \<union> {r. (key, r) \<in> set gs}" using True g by auto
    moreover have "best_of (collab_bump key gs (bump r b)) (insert r R \<union> {r. (key, r) \<in> set gs})"
      by (rule Cons.IH [OF best_of_bump [OF Cons.prems]])
    ultimately show ?thesis using True g by (simp add: collab_bump_def)
  next
    case False
    with Cons g show ?thesis by (simp add: collab_bump_def)
  qed
qed (simp add: collab_bump_def)

definition team_grants :: "string \<Rightarrow> string \<Rightarrow> Repo \<Rightarrow> Team \<Rightarrow> Role set" where
  "team_grants user_id repo_id repo team = {r. user_id \<in> set (t_member_ids team)
     \<and> r_owner repo = OwnerOrg (t_org_id team) \<and> (repo_id, r) \<in> set (t_repo_grants team)}"

lemma best_of_team:
  assumes "best_of b R"
  shows "best_of (team_bump user_id repo_id repo team b) (R \<union> team_grants user_id repo_id repo team)"
proof (cases "user_id \<in> set (t_member_ids team) \<and> r_owner repo = OwnerOrg (t_org_id team)")
  case True
  then show ?thesis using best_of_collab [OF assms]
    by (simp add: team_bump_def team_grants_def list_ex_iff)
next
  case False
  then have "team_grants user_id repo_id repo team = {}" "team_bump user_id repo_id repo team b = b"
    by (auto simp: team_bump_def team_grants_def list_ex_iff split: RepoOwner.splits)
  then show ?thesis using assms by simp
qed

lemma best_of_teams:
  "best_of b R \<Longrightarrow> best_of (fold (team_bump user_id repo_id repo) ts b)
    (R \<union> (\<Union>team \<in> set ts. team_grants user_id repo_id repo team))"
proof (induction ts arbitrary: b R)
  case (Cons t ts)
  from Cons.IH [OF best_of_team [OF Cons.prems]] show ?case by (simp add: Un_assoc)
qed simp

lemma best_of_owner:
  "best_of (owner_bump d user_id repo None)
    {r. r = Admin \<and> (r_owner repo = OwnerUser user_id
       \<or> (\<exists>org. r_owner repo = OwnerOrg org \<and> org_role d org user_id = Some Owner))}"
  by (auto simp: owner_bump_def best_of_def bump_def split: RepoOwner.splits)

lemma effective_role_best:
  assumes "hm_ok (d_teams d)"
  shows "best_of (effective_role d user_id repo_id) (grants d user_id repo_id)"
proof (cases "map_of (d_repos d) repo_id")
  case None
  then show ?thesis by (simp add: effective_role_def grants_def best_of_def)
next
  case (Some repo)
  let ?o = "{r. r = Admin \<and> (r_owner repo = OwnerUser user_id
       \<or> (\<exists>org. r_owner repo = OwnerOrg org \<and> org_role d org user_id = Some Owner))}"
  have g: "{r. \<exists>team tid. map_of (d_teams d) tid = Some team \<and> user_id \<in> set (t_member_ids team)
      \<and> r_owner repo = OwnerOrg (t_org_id team) \<and> (repo_id, r) \<in> set (t_repo_grants team)} =
    (\<Union>team \<in> set (map snd (d_teams d)). team_grants user_id repo_id repo team)"
    unfolding team_grants_def using hm_values [OF assms] by blast
  have "grants d user_id repo_id = ?o \<union> {r. (user_id, r) \<in> set (r_collaborators repo)} \<union>
      (\<Union>team \<in> set (map snd (d_teams d)). team_grants user_id repo_id repo team)" (is "_ = ?g")
    unfolding g [symmetric] grants_def using Some by auto
  moreover have "best_of (effective_role d user_id repo_id) ?g"
    unfolding effective_role_def Some option.case by (rule best_of_teams [OF best_of_collab [OF best_of_owner]])
  ultimately show ?thesis by simp
qed

lemma finite_Role [simp]: "finite (R :: Role set)"
proof (rule finite_subset)
  show "R \<subseteq> {Read, Write, Admin}" using Role.exhaust by blast
qed simp

lemma best_of_Max: "best_of b R \<longleftrightarrow> b = (if R = {} then None else Some (Max R))"
  by (auto simp: best_of_def split: option.splits intro: Max_eqI [symmetric] Max_in)

lemma can_iff_grant:
  assumes "hm_ok (d_teams d)"
  shows "can d user_id repo_id required \<longleftrightarrow> (\<exists>r \<in> grants d user_id repo_id. required \<le> r)"
  using effective_role_best [OF assms, of user_id repo_id]
  by (auto simp: can_def best_of_def split: option.splits intro: order_trans)

text \<open>C11: the effective role of a user on a repository is the greatest role that ownership, membership of the
  owning organisation as an owner, direct collaboration or a team of the owning organisation grants, and none
  when nothing grants one; an action is authorised exactly when some grant suffices for it. The order in
  which teams are visited does not matter.\<close>

theorem effective_role_is_max_grant:
  assumes "hm_ok (d_teams d)"
  shows "effective_role d user_id repo_id =
      (if grants d user_id repo_id = {} then None else Some (Max (grants d user_id repo_id)))
    \<and> (can d user_id repo_id required \<longleftrightarrow> (\<exists>r \<in> grants d user_id repo_id. required \<le> r))"
proof
  have b: "best_of (effective_role d user_id repo_id) (grants d user_id repo_id)"
    by (rule effective_role_best [OF assms])
  show "effective_role d user_id repo_id =
      (if grants d user_id repo_id = {} then None else Some (Max (grants d user_id repo_id)))"
    using b by (simp only: best_of_Max)
  show "can d user_id repo_id required \<longleftrightarrow> (\<exists>r \<in> grants d user_id repo_id. required \<le> r)"
    by (rule can_iff_grant [OF assms])
qed

definition demo_directory :: Directory where
  "demo_directory = \<lparr>d_users = [],
     d_orgs = [(''acme'', \<lparr>o_id = ''acme'', o_slug = ''acme'', o_members = [(''alice'', Owner), (''bob'', Member)]\<rparr>)],
     d_teams = [(''t'', \<lparr>t_id = ''t'', t_org_id = ''acme'', t_name = ''devs'', t_member_ids = [''bob''],
        t_repo_grants = [(''r'', Read), (''r'', Write)]\<rparr>)],
     d_repos = [(''r'', \<lparr>r_id = ''r'', r_owner = OwnerOrg ''acme'', r_name = ''widgets'', r_private = True,
        r_collaborators = []\<rparr>)]\<rparr>"

theorem effective_role_is_max_grant_witness:
  "effective_role demo_directory ''bob'' ''r'' = Some Write \<and> Max (grants demo_directory ''bob'' ''r'') = Write"
proof -
  have "effective_role demo_directory ''bob'' ''r'' = Some Write" by code_simp
  then show ?thesis using effective_role_is_max_grant [of demo_directory "''bob''" "''r''" Read]
    by (simp add: hm_ok_def demo_directory_def split: if_splits)
qed

end
