(* ===== verification/Identity_Auth.thy ===== *)
theory Identity_Auth
  imports Identity Reference_Backend Json
begin

text \<open>
  Authentication: sessions (\<open>secgit-identity/src/session.rs\<close>), time-based one-time passwords (\<open>totp.rs\<close>),
  passwords and OIDC tokens (\<open>auth.rs\<close>). Clocks are arguments; a function that reads the clock twice has
  two. Third-party code is the record \<open>authlib\<close> and the hash and the hex coding of \<open>backend\<close>.
  \<open>sessions_refine_history\<close> shows that the session table, which forgets expired entries as it goes, answers
  exactly as the whole history of logins, second factors and revocations says.
\<close>

section \<open>Parameters\<close>

record Jwk =
  k_kid :: string
  k_n :: string
  k_e :: string
  k_alg :: "string option"

record JwtHeader =
  h_alg :: string
  h_kid :: "string option"

record JwtClaims =
  c_iss :: string
  c_sub :: string
  c_aud :: json
  c_exp :: "u64 option"
  c_nbf :: "u64 option"
  c_email :: "string option"

record authlib =
  pbkdf2_derive :: "u32 \<Rightarrow> bytes \<Rightarrow> bytes \<Rightarrow> nat \<Rightarrow> bytes"
  pbkdf2_verify :: "u32 \<Rightarrow> bytes \<Rightarrow> bytes \<Rightarrow> bytes \<Rightarrow> bool"
  hmac_sha1 :: "bytes \<Rightarrow> bytes \<Rightarrow> bytes"
  rsa_verify :: "bytes \<Rightarrow> bytes \<Rightarrow> bytes \<Rightarrow> bytes \<Rightarrow> bool"
  jwks_from_slice :: "bytes \<Rightarrow> Jwk list option"
  header_from_slice :: "bytes \<Rightarrow> JwtHeader option"
  claims_from_slice :: "bytes \<Rightarrow> JwtClaims option"

text \<open>An HMAC-SHA1 tag has 20 bytes.\<close>

definition sha1_law :: "authlib \<Rightarrow> bool" where
  "sha1_law L \<longleftrightarrow> (\<forall>k m. length (hmac_sha1 L k m) = 20)"

text \<open>Verifying a derived key is deriving it again and comparing.\<close>

definition pbkdf2_law :: "authlib \<Rightarrow> bool" where
  "pbkdf2_law L \<longleftrightarrow>
    (\<forall>it salt pw n. length (pbkdf2_derive L it salt pw n) = n)
    \<and> (\<forall>it salt pw b. b \<noteq> [] \<longrightarrow> (pbkdf2_verify L it salt pw b \<longleftrightarrow> pbkdf2_derive L it salt pw (length b) = b))"

definition random_vec :: "nat \<Rightarrow> ('s \<times> rng, IdentityError, bytes) st" where
  "random_vec n s = (case random_bytes n (snd s) of (r, rs) \<Rightarrow> (map_err (\<lambda>_. IdentityError.Crypto) r, (fst s, rs)))"

section \<open>Sessions\<close>

record Session =
  s_user_id :: string
  s_expires_at :: u64
  s_mfa_satisfied :: bool

record SessionStore =
  ss_ttl_secs :: u64
  ss_by_hash :: "(string, Session) hmap"

definition session_new :: "u64 \<Rightarrow> SessionStore" where
  "session_new ttl = \<lparr>ss_ttl_secs = ttl, ss_by_hash = []\<rparr>"

definition session_hash :: "backend \<Rightarrow> string \<Rightarrow> string" where
  "session_hash B token = hex_encode B (sha256 B (as_bytes token))"

definition session_create :: "backend \<Rightarrow> u64 \<Rightarrow> string \<Rightarrow> bool \<Rightarrow> (SessionStore \<times> rng, IdentityError, string) st" where
  "session_create B now user_id mfa =
    sbind (random_vec 32) (\<lambda>r.
    let token = hex_encode B r in
    (\<lambda>(s, rs).
      let session = \<lparr>s_user_id = user_id, s_expires_at = sat_add now (ss_ttl_secs s), s_mfa_satisfied = mfa\<rparr>
      in (Ok token, (s\<lparr>ss_by_hash := hm_insert (session_hash B token) session (ss_by_hash s)\<rparr>, rs))))"

definition session_gc :: "u64 \<Rightarrow> SessionStore \<Rightarrow> SessionStore" where
  "session_gc t s = s\<lparr>ss_by_hash := hm_retain (\<lambda>_ x. s_expires_at x > t) (ss_by_hash s)\<rparr>"

definition session_validate :: "backend \<Rightarrow> u64 \<Rightarrow> u64 \<Rightarrow> string \<Rightarrow> SessionStore \<Rightarrow> Session option \<times> SessionStore" where
  "session_validate B t now token s =
    (let s' = session_gc t s in
     case map_of (ss_by_hash s') (session_hash B token) of
       None \<Rightarrow> (None, s')
     | Some x \<Rightarrow> (if s_expires_at x \<le> now \<or> \<not> s_mfa_satisfied x then None else Some x, s'))"

definition complete_mfa :: "backend \<Rightarrow> string \<Rightarrow> SessionStore \<Rightarrow> (IdentityError, unit) result \<times> SessionStore" where
  "complete_mfa B token s =
    (case map_of (ss_by_hash s) (session_hash B token) of
       None \<Rightarrow> (Err IdentityError.AuthFailed, s)
     | Some x \<Rightarrow> (Ok (), s\<lparr>ss_by_hash := hm_insert (session_hash B token) (x\<lparr>s_mfa_satisfied := True\<rparr>) (ss_by_hash s)\<rparr>))"

definition session_revoke :: "backend \<Rightarrow> string \<Rightarrow> SessionStore \<Rightarrow> SessionStore" where
  "session_revoke B token s = s\<lparr>ss_by_hash := hm_remove (session_hash B token) (ss_by_hash s)\<rparr>"

definition revoke_all_for :: "string \<Rightarrow> SessionStore \<Rightarrow> SessionStore" where
  "revoke_all_for user_id s = s\<lparr>ss_by_hash := hm_retain (\<lambda>_ x. s_user_id x \<noteq> user_id) (ss_by_hash s)\<rparr>"

definition session_len :: "SessionStore \<Rightarrow> nat" where "session_len s = length (ss_by_hash s)"
definition session_is_empty :: "SessionStore \<Rightarrow> bool" where "session_is_empty s \<longleftrightarrow> ss_by_hash s = []"

section \<open>One-time passwords\<close>

definition DIGITS :: nat where "DIGITS = 6"
definition STEP_SECS :: u64 where "STEP_SECS = 30"
definition SECRET_LEN :: nat where "SECRET_LEN = 20"

type_synonym TotpSecret = bytes

definition totp_generate :: "('s \<times> rng, IdentityError, TotpSecret) st" where
  "totp_generate = random_vec SECRET_LEN"

text \<open>\<open>None\<close> is a panic on an index out of range.\<close>

definition hotp :: "authlib \<Rightarrow> TotpSecret \<Rightarrow> u64 \<Rightarrow> string option" where
  "hotp L secret counter =
    (let digest = hmac_sha1 L secret (rev (le_bytes 8 counter)) in
     if digest = [] then None else
     let offset = unat (last digest AND 0x0f) in
     if length digest \<le> offset + 3 then None else
     let bin = push_bit 24 (ucast (digest ! offset) AND 0x7f :: u32)
        OR push_bit 16 (ucast (digest ! (offset + 1)))
        OR push_bit 8 (ucast (digest ! (offset + 2)))
        OR ucast (digest ! (offset + 3))
     in Some (dec_pad DIGITS (unat bin mod 10 ^ DIGITS)))"

definition code_at :: "authlib \<Rightarrow> TotpSecret \<Rightarrow> u64 \<Rightarrow> string option" where
  "code_at L secret unix_secs = hotp L secret (unix_secs div STEP_SECS)"

fun try_codes :: "authlib \<Rightarrow> TotpSecret \<Rightarrow> bytes \<Rightarrow> nat list \<Rightarrow> bool option" where
  "try_codes L secret code_bytes [] = Some False"
| "try_codes L secret code_bytes (c # cs) =
    (case hotp L secret (word_of_nat c) of
       None \<Rightarrow> None
     | Some expected \<Rightarrow> if ct_eq (as_bytes expected) code_bytes then Some True else try_codes L secret code_bytes cs)"

definition totp_verify_at :: "authlib \<Rightarrow> TotpSecret \<Rightarrow> string \<Rightarrow> u64 \<Rightarrow> u64 \<Rightarrow> bool option" where
  "totp_verify_at L secret code unix_secs window =
    (let counter = unix_secs div STEP_SECS;
         lo = sat_sub counter window;
         hi = sat_add counter window
     in try_codes L secret (as_bytes code) [unat lo..<Suc (unat hi)])"

definition BASE32_ALPHABET :: string where "BASE32_ALPHABET = ''ABCDEFGHIJKLMNOPQRSTUVWXYZ234567''"

text \<open>The inner loop of the encoder takes one character for every five bits in the buffer.\<close>

function base32_drain :: "u32 \<Rightarrow> nat \<Rightarrow> string \<Rightarrow> nat \<times> string" where
  "base32_drain buffer bits out =
    (if 5 \<le> bits
     then base32_drain buffer (bits - 5) (out @ [BASE32_ALPHABET ! unat (drop_bit (bits - 5) buffer AND 0x1f)])
     else (bits, out))"
  by pat_completeness auto
termination by (relation "measure (\<lambda>(_, bits, _). bits)") auto

declare base32_drain.simps [simp del]

fun base32_loop :: "bytes \<Rightarrow> u32 \<Rightarrow> nat \<Rightarrow> string \<Rightarrow> u32 \<times> nat \<times> string" where
  "base32_loop [] buffer bits out = (buffer, bits, out)"
| "base32_loop (b # bs) buffer bits out =
    (let buffer' = push_bit 8 buffer OR ucast b; (bits', out') = base32_drain buffer' (bits + 8) out
     in base32_loop bs buffer' bits' out')"

definition base32_encode :: "bytes \<Rightarrow> string" where
  "base32_encode data =
    (let (buffer, bits, out) = base32_loop data 0 0 []
     in if bits > 0 then out @ [BASE32_ALPHABET ! unat (push_bit (5 - bits) buffer AND 0x1f)] else out)"

definition provisioning_uri :: "TotpSecret \<Rightarrow> string \<Rightarrow> string \<Rightarrow> string" where
  "provisioning_uri secret issuer account =
    ''otpauth://totp/'' @ issuer @ '':'' @ account @ ''?secret='' @ base32_encode secret @ ''&issuer='' @ issuer
      @ ''&algorithm=SHA1&digits='' @ dec DIGITS @ ''&period='' @ dec (unat STEP_SECS)"

section \<open>Passwords\<close>

definition PBKDF2_ITERATIONS :: u32 where "PBKDF2_ITERATIONS = 600000"
definition PBKDF2_OUTPUT_LEN :: nat where "PBKDF2_OUTPUT_LEN = 32"
definition SALT_LEN :: nat where "SALT_LEN = 16"

record PasswordHash =
  ph_salt_hex :: string
  ph_hash_hex :: string
  ph_iterations :: u32

definition from_password :: "backend \<Rightarrow> authlib \<Rightarrow> string \<Rightarrow> ('s \<times> rng, IdentityError, PasswordHash) st" where
  "from_password B L password =
    sbind (random_vec SALT_LEN) (\<lambda>salt.
    let out = pbkdf2_derive L PBKDF2_ITERATIONS salt (as_bytes password) PBKDF2_OUTPUT_LEN
    in sret \<lparr>ph_salt_hex = hex_encode B salt, ph_hash_hex = hex_encode B out, ph_iterations = PBKDF2_ITERATIONS\<rparr>)"

definition password_verify :: "backend \<Rightarrow> authlib \<Rightarrow> PasswordHash \<Rightarrow> string \<Rightarrow> bool" where
  "password_verify B L ph password =
    (case (hex_decode B (ph_salt_hex ph), hex_decode B (ph_hash_hex ph)) of
       (Some salt, Some expected) \<Rightarrow>
         (if ph_iterations ph = 0 then False
          else pbkdf2_verify L (ph_iterations ph) salt (as_bytes password) expected)
     | _ \<Rightarrow> False)"

type_synonym LocalAuthenticator = "(string, string \<times> PasswordHash) hmap"

definition register :: "backend \<Rightarrow> authlib \<Rightarrow> string \<Rightarrow> string \<Rightarrow> string \<Rightarrow> (LocalAuthenticator \<times> rng, IdentityError, unit) st" where
  "register B L username user_id password =
    sbind (from_password B L password) (\<lambda>ph (creds, rs). (Ok (), (hm_insert username (user_id, ph) creds, rs)))"

definition authenticate :: "backend \<Rightarrow> authlib \<Rightarrow> LocalAuthenticator \<Rightarrow> string \<Rightarrow> string \<Rightarrow> (IdentityError, string) result" where
  "authenticate B L creds username secret =
    rbind (ok_or IdentityError.AuthFailed (map_of creds username)) (\<lambda>(user_id, ph).
    if password_verify B L ph secret then Ok user_id else Err IdentityError.AuthFailed)"

section \<open>OIDC tokens\<close>

definition B64URL_ALPHABET :: string where
  "B64URL_ALPHABET = ''ABCDEFGHIJKLMNOPQRSTUVWXYZabcdefghijklmnopqrstuvwxyz0123456789-_''"

text \<open>The value the table has for a character: its place in the alphabet, \<open>None\<close> for \<open>INVALID\<close>.\<close>

definition b64_value :: "byte \<Rightarrow> nat option" where
  "b64_value c = find (\<lambda>i. as_bytes B64URL_ALPHABET ! i = c) [0..<64]"

fun b64_loop :: "bytes \<Rightarrow> u32 \<Rightarrow> nat \<Rightarrow> bytes \<Rightarrow> (IdentityError, bytes) result" where
  "b64_loop [] buf bits out = Ok out"
| "b64_loop (c # cs) buf bits out =
    (if c = of_char (CHR ''='') then Ok out
     else case b64_value c of
       None \<Rightarrow> Err Serde
     | Some v \<Rightarrow>
         (let buf' = push_bit 6 buf OR word_of_nat v; bits' = bits + 6
          in if 8 \<le> bits' then b64_loop cs buf' (bits' - 8) (out @ [ucast (drop_bit (bits' - 8) buf')])
             else b64_loop cs buf' bits' out))"

definition b64url_decode :: "string \<Rightarrow> (IdentityError, bytes) result" where
  "b64url_decode s = b64_loop (as_bytes s) 0 0 []"

record OidcClaims =
  oc_subject :: string
  oc_email :: "string option"
  oc_issuer :: string

record JwksOidcVerifier =
  jv_issuer :: string
  jv_audience :: string
  jv_keys :: "(string, bytes \<times> bytes) hmap"
  jv_leeway_secs :: u64

fun jwks_keys :: "Jwk list \<Rightarrow> (string, bytes \<times> bytes) hmap \<Rightarrow> (IdentityError, (string, bytes \<times> bytes) hmap) result" where
  "jwks_keys [] keys = Ok keys"
| "jwks_keys (k # ks) keys =
    rbind (b64url_decode (k_n k)) (\<lambda>n.
    rbind (b64url_decode (k_e k)) (\<lambda>e.
    jwks_keys ks (hm_insert (k_kid k) (dropWhile (\<lambda>b. b = 0) n, e) keys)))"

definition from_jwks :: "authlib \<Rightarrow> string \<Rightarrow> string \<Rightarrow> bytes \<Rightarrow> (IdentityError, JwksOidcVerifier) result" where
  "from_jwks L issuer audience jwks_json =
    rbind (ok_or Serde (jwks_from_slice L jwks_json)) (\<lambda>doc.
    rbind (jwks_keys doc []) (\<lambda>keys.
    if keys = [] then Err Serde
    else Ok \<lparr>jv_issuer = issuer, jv_audience = audience, jv_keys = keys, jv_leeway_secs = 60\<rparr>))"

fun aud_matches :: "json \<Rightarrow> string \<Rightarrow> bool" where
  "aud_matches (JStr s) expected = (s = expected)"
| "aud_matches (JArr a) expected = list_ex (\<lambda>v. v = JStr expected) a"
| "aud_matches _ expected = False"

definition claims_ok :: "JwksOidcVerifier \<Rightarrow> JwtClaims \<Rightarrow> u64 \<Rightarrow> (IdentityError, OidcClaims) result" where
  "claims_ok v claims now =
    (if c_iss claims \<noteq> jv_issuer v then Err IdentityError.AuthFailed
     else if \<not> aud_matches (c_aud claims) (jv_audience v) then Err IdentityError.AuthFailed
     else if (case c_exp claims of Some e \<Rightarrow> now > sat_add e (jv_leeway_secs v) | None \<Rightarrow> False) then Err IdentityError.AuthFailed
     else if (case c_nbf claims of Some n \<Rightarrow> n > sat_add now (jv_leeway_secs v) | None \<Rightarrow> False) then Err IdentityError.AuthFailed
     else Ok \<lparr>oc_subject = c_sub claims, oc_email = c_email claims, oc_issuer = c_iss claims\<rparr>)"

definition jwks_verify_at :: "authlib \<Rightarrow> JwksOidcVerifier \<Rightarrow> string \<Rightarrow> u64 \<Rightarrow> (IdentityError, OidcClaims) result" where
  "jwks_verify_at L v id_token now =
    (case split_on CHR ''.'' id_token of
       [h, p, s] \<Rightarrow>
         rbind (b64url_decode h) (\<lambda>hb.
         rbind (ok_or IdentityError.AuthFailed (header_from_slice L hb)) (\<lambda>header.
         if h_alg header \<noteq> ''RS256'' then Err IdentityError.AuthFailed else
         rbind (ok_or IdentityError.AuthFailed (h_kid header)) (\<lambda>kid.
         rbind (ok_or IdentityError.AuthFailed (map_of (jv_keys v) kid)) (\<lambda>(n, e).
         rbind (b64url_decode s) (\<lambda>sig.
         if \<not> rsa_verify L n e (as_bytes (h @ ''.'' @ p)) sig then Err IdentityError.AuthFailed else
         rbind (b64url_decode p) (\<lambda>pb.
         rbind (ok_or IdentityError.AuthFailed (claims_from_slice L pb)) (\<lambda>claims.
         claims_ok v claims now)))))))
     | _ \<Rightarrow> Err IdentityError.AuthFailed)"

section \<open>The session table and its history\<close>

text \<open>The successful operations, with the clock readings.\<close>

datatype session_event =
    Created u64 string string bool
  | Validated u64 u64 string
  | Mfa_Completed string
  | Revoked string
  | Revoked_All string

inductive session_runs :: "backend \<Rightarrow> u64 \<Rightarrow> session_event list \<Rightarrow> SessionStore \<Rightarrow> bool" for B ttl where
  start: "session_runs B ttl [] (session_new ttl)"
| create: "session_runs B ttl h s \<Longrightarrow> session_create B t user_id mfa (s, rs) = (Ok token, (s', rs')) \<Longrightarrow>
    session_runs B ttl (h @ [Created t token user_id mfa]) s'"
| validate: "session_runs B ttl h s \<Longrightarrow> session_validate B t now token s = (r, s') \<Longrightarrow>
    session_runs B ttl (h @ [Validated t now token]) s'"
| complete: "session_runs B ttl h s \<Longrightarrow> complete_mfa B token s = (Ok (), s') \<Longrightarrow>
    session_runs B ttl (h @ [Mfa_Completed token]) s'"
| revoke: "session_runs B ttl h s \<Longrightarrow> session_runs B ttl (h @ [Revoked token]) (session_revoke B token s)"
| revoke_all: "session_runs B ttl h s \<Longrightarrow> session_runs B ttl (h @ [Revoked_All user_id]) (revoke_all_for user_id s)"

text \<open>The specification: what the events grant, nothing ever collected.\<close>

fun grant :: "backend \<Rightarrow> u64 \<Rightarrow> session_event \<Rightarrow> (string \<rightharpoonup> Session) \<Rightarrow> (string \<rightharpoonup> Session)" where
  "grant B ttl (Created t token user_id mfa) M =
    M(session_hash B token \<mapsto> \<lparr>s_user_id = user_id, s_expires_at = sat_add t ttl, s_mfa_satisfied = mfa\<rparr>)"
| "grant B ttl (Validated t now token) M = M"
| "grant B ttl (Mfa_Completed token) M = M(session_hash B token := map_option (\<lambda>x. x\<lparr>s_mfa_satisfied := True\<rparr>) (M (session_hash B token)))"
| "grant B ttl (Revoked token) M = M(session_hash B token := None)"
| "grant B ttl (Revoked_All user_id) M = (\<lambda>k. case M k of Some x \<Rightarrow> if s_user_id x = user_id then None else Some x | None \<Rightarrow> None)"

definition granted :: "backend \<Rightarrow> u64 \<Rightarrow> session_event list \<Rightarrow> string \<rightharpoonup> Session" where
  "granted B ttl h = fold (grant B ttl) h Map.empty"

fun event_clock :: "session_event \<Rightarrow> u64" where
  "event_clock (Validated t now token) = t"
| "event_clock _ = 0"

lemma granted_snoc [simp]: "granted B ttl (h @ [e]) = grant B ttl e (granted B ttl h)"
  by (simp add: granted_def)

lemma granted_Nil [simp]: "granted B ttl [] = Map.empty"
  by (simp add: granted_def)

text \<open>A session of the table is granted, and a granted session that is not in the table had expired when the
  table was last cleaned.\<close>

definition table_ok :: "backend \<Rightarrow> u64 \<Rightarrow> u64 \<Rightarrow> session_event list \<Rightarrow> SessionStore \<Rightarrow> bool" where
  "table_ok B ttl T h s \<longleftrightarrow> ss_ttl_secs s = ttl \<and> hm_ok (ss_by_hash s)
    \<and> (\<forall>k x. map_of (ss_by_hash s) k = Some x \<longrightarrow> granted B ttl h k = Some x)
    \<and> (\<forall>k x. granted B ttl h k = Some x \<longrightarrow> map_of (ss_by_hash s) k = Some x \<or> s_expires_at x \<le> T)"

lemma session_create_Ok:
  "session_create B t user_id mfa (s, rs) = (Ok token, (s', rs')) \<Longrightarrow>
    s' = s\<lparr>ss_by_hash := hm_insert (session_hash B token)
      \<lparr>s_user_id = user_id, s_expires_at = sat_add t (ss_ttl_secs s), s_mfa_satisfied = mfa\<rparr> (ss_by_hash s)\<rparr>"
  by (auto simp: session_create_def sbind_def random_vec_def Let_def split: prod.splits sum.splits)

lemma session_validate_snd: "session_validate B t now token s = (r, s') \<Longrightarrow> s' = session_gc t s"
  by (auto simp: session_validate_def Let_def split: option.splits)

lemma session_runs_table_ok:
  assumes "session_runs B ttl h s" "\<forall>e \<in> set h. event_clock e \<le> T"
  shows "table_ok B ttl T h s"
  using assms
proof (induction rule: session_runs.induct)
  case start
  then show ?case by (simp add: table_ok_def session_new_def)
next
  case (create h s t user_id mfa rs token s' rs')
  then show ?case using session_create_Ok [OF create.hyps(2)] by (auto simp: table_ok_def)
next
  case (validate h s t now token r s')
  have "t \<le> T" using validate.prems by simp
  then show ?case using validate session_validate_snd [OF validate.hyps(2)]
    by (auto simp: table_ok_def session_gc_def map_of_hm_retain split: option.splits if_splits) fastforce
next
  case (complete h s token s')
  then show ?case by (auto simp: table_ok_def complete_mfa_def split: option.splits) fastforce+
next
  case (revoke h s token)
  then show ?case by (auto simp: table_ok_def session_revoke_def)
next
  case (revoke_all h s user_id)
  then show ?case
    by (auto simp: table_ok_def revoke_all_for_def map_of_hm_retain split: option.splits if_splits) fastforce
qed

lemma session_validate_granted:
  assumes "session_runs B ttl h s" "\<forall>e \<in> set h. event_clock e \<le> t"
  shows "fst (session_validate B t now token s) =
    (case granted B ttl h (session_hash B token) of
       Some x \<Rightarrow> if t < s_expires_at x \<and> now < s_expires_at x \<and> s_mfa_satisfied x then Some x else None
     | None \<Rightarrow> None)"
proof -
  have ok: "table_ok B ttl t h s" by (rule session_runs_table_ok [OF assms])
  show ?thesis
  proof (cases "map_of (ss_by_hash s) (session_hash B token)")
    case None
    with ok show ?thesis
      by (auto simp: session_validate_def session_gc_def Let_def table_ok_def map_of_hm_retain split: option.splits)
        (metis leD option.distinct(1))
  next
    case (Some x)
    with ok have "granted B ttl h (session_hash B token) = Some x" by (simp add: table_ok_def)
    with Some ok show ?thesis
      by (auto simp: session_validate_def session_gc_def Let_def table_ok_def map_of_hm_retain split: option.splits)
  qed
qed

text \<open>C10: the session table answers as its history says. After any sequence of logins, checks, second factors
  and revocations, checking a token (with a clock that has not gone back) returns exactly the session the
  history grants to the token: one that was created for it, whose user or token was not revoked since, whose
  second factor is complete, and whose lifetime (creation time plus the time to live, saturating) has not
  passed at either reading of the clock; and nothing otherwise. What cleaning up removes is never missed.\<close>

theorem sessions_refine_history:
  assumes "session_runs B ttl h s" "\<forall>e \<in> set h. event_clock e \<le> t"
  shows "fst (session_validate B t now token s) =
    (case granted B ttl h (session_hash B token) of
       Some x \<Rightarrow> if t < s_expires_at x \<and> now < s_expires_at x \<and> s_mfa_satisfied x then Some x else None
     | None \<Rightarrow> None)"
  by (rule session_validate_granted [OF assms])

lemma demo_session_create:
  "session_create ref_backend 1000 ''alice'' False (session_new 60, [replicate 32 7]) =
    (Ok (hex_encode ref_backend (replicate 32 7)),
     ((session_new 60)\<lparr>ss_by_hash := [(session_hash ref_backend (hex_encode ref_backend (replicate 32 7)),
        \<lparr>s_user_id = ''alice'', s_expires_at = 1060, s_mfa_satisfied = False\<rparr>)]\<rparr>, []))"
  by (simp add: session_create_def sbind_def random_vec_def random_bytes_def map_err_def session_new_def hm_insert_def
      hm_remove_def sat_add_def Let_def)

theorem sessions_refine_history_witness:
  "\<exists>s. session_runs ref_backend 60 [Created 1000 (hex_encode ref_backend (replicate 32 7)) ''alice'' False,
        Mfa_Completed (hex_encode ref_backend (replicate 32 7))] s
    \<and> fst (session_validate ref_backend 1059 1059 (hex_encode ref_backend (replicate 32 7)) s) =
        Some \<lparr>s_user_id = ''alice'', s_expires_at = 1060, s_mfa_satisfied = True\<rparr>"
proof -
  let ?tk = "hex_encode ref_backend (replicate 32 7)"
  have "session_runs ref_backend 60 [Created 1000 ?tk ''alice'' False] ((session_new 60)\<lparr>ss_by_hash := [(session_hash ref_backend ?tk,
        \<lparr>s_user_id = ''alice'', s_expires_at = 1060, s_mfa_satisfied = False\<rparr>)]\<rparr>)"
    using session_runs.create [OF session_runs.start demo_session_create] by simp
  from session_runs.complete [OF this, where token = ?tk]
  obtain s where s: "session_runs ref_backend 60 [Created 1000 ?tk ''alice'' False, Mfa_Completed ?tk] s"
    by (simp add: complete_mfa_def)
  then show ?thesis using sessions_refine_history [OF s, of 1059 1059 ?tk] by (auto simp: granted_def sat_add_def)
qed

section \<open>One-time passwords\<close>

lemma length_dec: "n < 10 ^ k \<Longrightarrow> 0 < k \<Longrightarrow> length (dec n) \<le> k"
proof (induction k arbitrary: n)
  case (Suc k)
  show ?case
  proof (cases "n < 10")
    case True
    then show ?thesis by (simp add: dec.simps [of n])
  next
    case False
    then have "0 < k" using Suc.prems by (cases k) auto
    moreover have "n div 10 < 10 ^ k" using Suc.prems by (simp add: less_mult_imp_div_less mult.commute)
    ultimately show ?thesis using Suc.IH [of "n div 10"] False by (simp add: dec.simps [of n])
  qed
qed simp

lemma dec_pad_shape:
  assumes "n < 10 ^ k" "0 < k"
  shows "length (dec_pad k n) = k" "list_all is_digit (dec_pad k n)"
proof -
  show "length (dec_pad k n) = k" using length_dec [OF assms] by (simp add: dec_pad_def)
  have "is_digit CHR ''0''" by code_simp
  then show "list_all is_digit (dec_pad k n)" by (auto simp: dec_pad_def list_all_iff dec_digits)
qed

lemma hotp_returns:
  assumes "sha1_law L"
  obtains x where "hotp L secret c = Some x" "length x = DIGITS" "list_all is_digit x"
proof -
  let ?d = "hmac_sha1 L secret (rev (le_bytes 8 c))"
  have len: "length ?d = 20" using assms by (simp add: sha1_law_def)
  have "unat (last ?d AND 0x0f) \<le> unat (0x0f :: byte)"
    by (rule word_le_nat_alt [THEN iffD1]) (rule word_and_le1)
  then have off: "\<not> length ?d \<le> unat (last ?d AND 0x0f) + 3" using len by simp
  have "?d \<noteq> []" using len by auto
  then obtain n where "hotp L secret c = Some (dec_pad DIGITS (n mod 10 ^ DIGITS))"
    unfolding hotp_def Let_def using off by (simp only: if_False)
  moreover have "n mod 10 ^ DIGITS < 10 ^ DIGITS" "0 < DIGITS" by (simp_all add: DIGITS_def)
  ultimately show thesis using that dec_pad_shape by blast
qed

lemma ct_eq_as_bytes: "ct_eq (as_bytes a) (as_bytes b) \<longleftrightarrow> a = b"
  by (auto simp: ct_eq_def ct_diff_0 dest: arg_cong [where f = length])

lemma try_codes_spec:
  assumes "sha1_law L"
  shows "try_codes L secret (as_bytes code) cs = Some (\<exists>c \<in> set cs. hotp L secret (word_of_nat c) = Some code)"
proof (induction cs)
  case (Cons c cs)
  obtain x where "hotp L secret (word_of_nat c) = Some x" using hotp_returns [OF assms] by metis
  with Cons show ?case by (auto simp: ct_eq_as_bytes)
qed simp

lemma window_iff:
  fixes n M c w :: nat
  assumes "n \<le> M"
  shows "n - w \<le> c \<and> c < Suc (min (n + w) M) \<longleftrightarrow> c \<le> M \<and> \<bar>int c - int n\<bar> \<le> int w"
  using assms by (cases "n + w \<le> M") (auto simp: min_def)

text \<open>A one-time code has six decimal digits, computing it never indexes outside the tag, and the check
  accepts exactly the codes of the time steps at most \<open>window\<close> away from the current one: the saturating
  bounds neither lose a step nor wrap around at the ends of the clock.\<close>

theorem totp_accepts_window:
  assumes "sha1_law L"
  shows "totp_verify_at L secret code t window =
      Some (\<exists>c :: u64. \<bar>int (unat c) - int (unat t div 30)\<bar> \<le> int (unat window) \<and> hotp L secret c = Some code)
    \<and> (\<exists>x. code_at L secret t = Some x \<and> length x = 6 \<and> list_all is_digit x)"
proof
  let ?n = "unat t div 30"
  have n: "unat (t div STEP_SECS) = ?n" by (simp add: STEP_SECS_def unat_div)
  have n64: "?n < 2 ^ 64" using unsigned_less [of t, where 'a = nat] by simp
  have r: "(c \<in> set [unat (sat_sub (t div STEP_SECS) window)..<Suc (unat (sat_add (t div STEP_SECS) window))]) \<longleftrightarrow>
      (c < 2 ^ 64 \<and> \<bar>int c - int ?n\<bar> \<le> int (unat window))" for c
    unfolding set_upt atLeastLessThan_iff unat_sat_sub unat_sat_add n
    using window_iff [of ?n "2 ^ 64 - 1" "unat window" c] n64 by (auto simp: less_Suc_eq_le)
  have "(\<exists>c \<in> set [unat (sat_sub (t div STEP_SECS) window)..<Suc (unat (sat_add (t div STEP_SECS) window))].
      hotp L secret (word_of_nat c) = Some code) \<longleftrightarrow>
    (\<exists>c :: u64. \<bar>int (unat c) - int ?n\<bar> \<le> int (unat window) \<and> hotp L secret c = Some code)"
  proof
    assume "\<exists>c \<in> set [unat (sat_sub (t div STEP_SECS) window)..<Suc (unat (sat_add (t div STEP_SECS) window))].
      hotp L secret (word_of_nat c) = Some code"
    then obtain k where k: "k < 2 ^ 64" "\<bar>int k - int ?n\<bar> \<le> int (unat window)" "hotp L secret (word_of_nat k) = Some code"
      unfolding Bex_def r by fast
    then show "\<exists>c :: u64. \<bar>int (unat c) - int ?n\<bar> \<le> int (unat window) \<and> hotp L secret c = Some code"
      by (intro exI [of _ "word_of_nat k"]) (simp add: unat_of_nat)
  next
    assume "\<exists>c :: u64. \<bar>int (unat c) - int ?n\<bar> \<le> int (unat window) \<and> hotp L secret c = Some code"
    then obtain d :: u64 where "\<bar>int (unat d) - int ?n\<bar> \<le> int (unat window)" "hotp L secret d = Some code" by fast
    then show "\<exists>c \<in> set [unat (sat_sub (t div STEP_SECS) window)..<Suc (unat (sat_add (t div STEP_SECS) window))].
      hotp L secret (word_of_nat c) = Some code"
      unfolding Bex_def r using unsigned_less [of d, where 'a = nat] by (intro exI [of _ "unat d"]) simp
  qed
  then show "totp_verify_at L secret code t window =
      Some (\<exists>c :: u64. \<bar>int (unat c) - int ?n\<bar> \<le> int (unat window) \<and> hotp L secret c = Some code)"
    by (simp only: totp_verify_at_def Let_def try_codes_spec [OF assms])
  show "\<exists>x. code_at L secret t = Some x \<and> length x = 6 \<and> list_all is_digit x"
    using hotp_returns [OF assms] unfolding code_at_def DIGITS_def by metis
qed

text \<open>A tag, a key derivation and a signature to evaluate with.\<close>

definition demo_authlib :: authlib where
  "demo_authlib = \<lparr>pbkdf2_derive = (\<lambda>it salt pw n. take n (pw @ replicate n 0)),
     pbkdf2_verify = (\<lambda>it salt pw b. b \<noteq> [] \<and> take (length b) (pw @ replicate (length b) 0) = b),
     hmac_sha1 = (\<lambda>k m. replicate 16 (last m) @ [0, 0, 0, 9]),
     rsa_verify = (\<lambda>n e m s. s = n),
     jwks_from_slice = (\<lambda>_. None),
     header_from_slice = (\<lambda>b. if b = [1] then Some \<lparr>h_alg = ''RS256'', h_kid = Some ''k''\<rparr> else None),
     claims_from_slice = (\<lambda>b. if b = [2] then Some \<lparr>c_iss = ''idp'', c_sub = ''u'', c_aud = JArr [JStr ''secgit''],
        c_exp = Some 1000, c_nbf = None, c_email = None\<rparr> else None)\<rparr>"

theorem totp_accepts_window_witness:
  "totp_verify_at demo_authlib [1] (the (hotp demo_authlib [1] 33)) 1000 1 = Some True
   \<and> (\<exists>c :: u64. \<bar>int (unat c) - int (unat (1000 :: u64) div 30)\<bar> \<le> int (unat (1 :: u64))
        \<and> hotp demo_authlib [1] c = Some (the (hotp demo_authlib [1] 33)))"
proof -
  have "sha1_law demo_authlib" by (simp add: sha1_law_def demo_authlib_def)
  from totp_accepts_window [OF this, of "[1]" "the (hotp demo_authlib [1] 33)" 1000 1]
  have v: "totp_verify_at demo_authlib [1] (the (hotp demo_authlib [1] 33)) 1000 1 =
    Some (\<exists>c :: u64. \<bar>int (unat c) - int (unat (1000 :: u64) div 30)\<bar> \<le> int (unat (1 :: u64))
      \<and> hotp demo_authlib [1] c = Some (the (hotp demo_authlib [1] 33)))" by (rule conjunct1)
  have "hotp demo_authlib [1] 33 = Some (the (hotp demo_authlib [1] 33))"
    using hotp_returns [OF \<open>sha1_law demo_authlib\<close>] by (metis option.sel)
  then have "\<exists>c :: u64. \<bar>int (unat c) - int (unat (1000 :: u64) div 30)\<bar> \<le> int (unat (1 :: u64))
      \<and> hotp demo_authlib [1] c = Some (the (hotp demo_authlib [1] 33))"
    by (intro exI [of _ 33] conjI) simp_all
  with v show ?thesis by simp
qed

section \<open>Passwords and tokens\<close>

lemma from_password_Ok:
  assumes "from_password B L password s = (Ok ph, s')"
  obtains salt where "length salt = SALT_LEN"
    "ph = \<lparr>ph_salt_hex = hex_encode B salt,
       ph_hash_hex = hex_encode B (pbkdf2_derive L PBKDF2_ITERATIONS salt (as_bytes password) PBKDF2_OUTPUT_LEN),
       ph_iterations = PBKDF2_ITERATIONS\<rparr>"
proof -
  obtain salt rs where "random_bytes SALT_LEN (snd s) = (Ok salt, rs)"
    "ph = \<lparr>ph_salt_hex = hex_encode B salt,
       ph_hash_hex = hex_encode B (pbkdf2_derive L PBKDF2_ITERATIONS salt (as_bytes password) PBKDF2_OUTPUT_LEN),
       ph_iterations = PBKDF2_ITERATIONS\<rparr>"
    using assms by (auto simp: from_password_def sbind_def random_vec_def Let_def map_err_def split: prod.splits sum.splits)
  then show thesis using that random_bytes_Ok by blast
qed

text \<open>A registered password logs its user in, and only a password with the same derived key does. After a
  registration the user name authenticates with the password it was given, as the user id it was given; with
  another password exactly when the key derived from it under the stored salt is the same; and every other
  user name authenticates as it did before.\<close>

theorem registered_password_authenticates:
  assumes "hex_law B" "pbkdf2_law L" "register B L username user_id password (creds, rs) = (Ok (), (creds', rs'))"
  shows "authenticate B L creds' username password = Ok user_id
    \<and> (\<exists>salt. length salt = SALT_LEN \<and> (\<forall>pw. authenticate B L creds' username pw =
        (if pbkdf2_derive L PBKDF2_ITERATIONS salt (as_bytes pw) PBKDF2_OUTPUT_LEN =
            pbkdf2_derive L PBKDF2_ITERATIONS salt (as_bytes password) PBKDF2_OUTPUT_LEN
         then Ok user_id else Err IdentityError.AuthFailed)))
    \<and> (\<forall>other pw. other \<noteq> username \<longrightarrow> authenticate B L creds' other pw = authenticate B L creds other pw)"
proof -
  obtain ph rs1 where ph: "from_password B L password (creds, rs) = (Ok ph, (creds, rs1))" "creds' = hm_insert username (user_id, ph) creds"
    using assms(3) by (auto simp: register_def from_password_def sbind_def random_vec_def Let_def split: prod.splits sum.splits)
  obtain salt where salt: "length salt = SALT_LEN"
    "ph = \<lparr>ph_salt_hex = hex_encode B salt,
       ph_hash_hex = hex_encode B (pbkdf2_derive L PBKDF2_ITERATIONS salt (as_bytes password) PBKDF2_OUTPUT_LEN),
       ph_iterations = PBKDF2_ITERATIONS\<rparr>"
    by (rule from_password_Ok [OF ph(1)])
  let ?k = "\<lambda>pw. pbkdf2_derive L PBKDF2_ITERATIONS salt (as_bytes pw) PBKDF2_OUTPUT_LEN"
  have len: "length (?k pw) = PBKDF2_OUTPUT_LEN" for pw using assms(2) by (simp add: pbkdf2_law_def)
  have ne: "?k password \<noteq> []" using len [of password] by (auto simp: PBKDF2_OUTPUT_LEN_def)
  have "password_verify B L ph pw \<longleftrightarrow> ?k pw = ?k password" for pw
    using assms(1,2) salt ne len [of password]
    by (simp add: password_verify_def hex_law_def pbkdf2_law_def PBKDF2_ITERATIONS_def)
  then have v: "authenticate B L creds' username pw = (if ?k pw = ?k password then Ok user_id else Err IdentityError.AuthFailed)" for pw
    by (simp add: authenticate_def ph(2) ok_or_def)
  then show ?thesis using salt(1) by (auto simp: authenticate_def ph(2))
qed

theorem registered_password_authenticates_witness:
  "\<exists>creds' rs'. register ref_backend demo_authlib ''alice'' ''u1'' ''pw'' ([], [replicate 16 3]) = (Ok (), (creds', rs'))
     \<and> authenticate ref_backend demo_authlib creds' ''alice'' ''pw'' = Ok ''u1''"
proof -
  have law: "pbkdf2_law demo_authlib" by (auto simp: pbkdf2_law_def demo_authlib_def min_def)
  obtain creds' rs' where r: "register ref_backend demo_authlib ''alice'' ''u1'' ''pw'' ([], [replicate 16 3]) = (Ok (), (creds', rs'))"
    by (simp add: register_def from_password_def sbind_def random_vec_def random_bytes_def SALT_LEN_def Let_def map_err_def)
  show ?thesis using registered_password_authenticates [OF _ law r] ref_laws r by auto
qed

text \<open>C28: what an accepted identity token proves. The token has three parts, its first two were signed under a
  key of the provider's key set, the returned claims are those of the signed part, with the configured issuer
  and an audience that names this service, and the clock lies within the leeway of the validity the claims
  state, if they state one. A token whose claims state no expiry is accepted at every later time.\<close>

theorem oidc_accepts_signed_claims:
  assumes "jwks_verify_at L v id_token now = Ok oc"
  shows "\<exists>h p s pb claims kid n e sig. id_token = h @ ''.'' @ p @ ''.'' @ s
      \<and> map_of (jv_keys v) kid = Some (n, e) \<and> b64url_decode s = Ok sig
      \<and> rsa_verify L n e (as_bytes (h @ ''.'' @ p)) sig
      \<and> b64url_decode p = Ok pb \<and> claims_from_slice L pb = Some claims
      \<and> oc = \<lparr>oc_subject = c_sub claims, oc_email = c_email claims, oc_issuer = jv_issuer v\<rparr>
      \<and> (c_aud claims = JStr (jv_audience v) \<or> (\<exists>a. c_aud claims = JArr a \<and> JStr (jv_audience v) \<in> set a))
      \<and> (\<forall>x. c_exp claims = Some x \<longrightarrow> unat now \<le> unat x + unat (jv_leeway_secs v))
      \<and> (\<forall>x. c_nbf claims = Some x \<longrightarrow> unat x \<le> unat now + unat (jv_leeway_secs v))
      \<and> (c_exp claims = None \<longrightarrow> (\<forall>later. now \<le> later \<longrightarrow> jwks_verify_at L v id_token later = Ok oc))"
proof -
  obtain h p s where parts: "split_on CHR ''.'' id_token = [h, p, s]"
    using assms by (auto simp: jwks_verify_at_def split: list.splits)
  have tok: "id_token = h @ ''.'' @ p @ ''.'' @ s" using join_split [of "CHR ''.''" id_token] parts by simp
  obtain hb header kid n e sig pb claims where st: "b64url_decode h = Ok hb" "header_from_slice L hb = Some header"
    "h_alg header = ''RS256''" "h_kid header = Some kid" "map_of (jv_keys v) kid = Some (n, e)" "b64url_decode s = Ok sig"
    "rsa_verify L n e (as_bytes (h @ ''.'' @ p)) sig" "b64url_decode p = Ok pb" "claims_from_slice L pb = Some claims"
    and cl: "claims_ok v claims now = Ok oc"
    using assms by (auto simp: jwks_verify_at_def parts rbind_def ok_or_def split: sum.splits option.splits if_splits)
  have again: "jwks_verify_at L v id_token t = claims_ok v claims t" for t
    using st(7) by (simp add: jwks_verify_at_def parts st(1-6,8,9) ok_or_def)
  have aud: "aud_matches j a \<longleftrightarrow> j = JStr a \<or> (\<exists>l. j = JArr l \<and> JStr a \<in> set l)" for j a
    by (cases j) (auto simp: list_ex_iff)
  have c: "c_iss claims = jv_issuer v" "aud_matches (c_aud claims) (jv_audience v)"
    "oc = \<lparr>oc_subject = c_sub claims, oc_email = c_email claims, oc_issuer = jv_issuer v\<rparr>"
    "\<And>x. c_exp claims = Some x \<Longrightarrow> now \<le> sat_add x (jv_leeway_secs v)"
    "\<And>x. c_nbf claims = Some x \<Longrightarrow> x \<le> sat_add now (jv_leeway_secs v)"
    using cl by (auto simp: claims_ok_def split: if_splits)
  have "claims_ok v claims later = Ok oc" if "c_exp claims = None" "now \<le> later" for later
    using that c unfolding claims_ok_def
    by (auto simp: word_le_nat_alt unat_sat_add not_less split: option.splits)
  then have l: "c_exp claims = None \<longrightarrow> (\<forall>later. now \<le> later \<longrightarrow> jwks_verify_at L v id_token later = Ok oc)"
    unfolding again by blast
  have t: "\<forall>x. c_exp claims = Some x \<longrightarrow> unat now \<le> unat x + unat (jv_leeway_secs v)"
    "\<forall>x. c_nbf claims = Some x \<longrightarrow> unat x \<le> unat now + unat (jv_leeway_secs v)"
    using c(4,5) by (simp_all add: word_le_nat_alt unat_sat_add)
  show ?thesis
    by (rule exI [of _ h], rule exI [of _ p], rule exI [of _ s], rule exI [of _ pb], rule exI [of _ claims],
        rule exI [of _ kid], rule exI [of _ n], rule exI [of _ e], rule exI [of _ sig])
      (intro conjI tok st c(3) c(2) [unfolded aud] t l)
qed

definition demo_verifier :: JwksOidcVerifier where
  "demo_verifier = \<lparr>jv_issuer = ''idp'', jv_audience = ''secgit'', jv_keys = [(''k'', ([3], [1, 0, 1]))], jv_leeway_secs = 60\<rparr>"

theorem oidc_accepts_signed_claims_witness:
  "jwks_verify_at demo_authlib demo_verifier ''AQ.Ag.Aw'' 1060 = Ok \<lparr>oc_subject = ''u'', oc_email = None, oc_issuer = ''idp''\<rparr>
   \<and> (\<exists>h p s. ''AQ.Ag.Aw'' = h @ ''.'' @ p @ ''.'' @ s \<and> rsa_verify demo_authlib [3] [1, 0, 1] (as_bytes (h @ ''.'' @ p)) [3])"
proof -
  have v: "jwks_verify_at demo_authlib demo_verifier ''AQ.Ag.Aw'' 1060 =
    Ok \<lparr>oc_subject = ''u'', oc_email = None, oc_issuer = ''idp''\<rparr>" by code_simp
  from oidc_accepts_signed_claims [OF v]
  obtain h p s where "''AQ.Ag.Aw'' = h @ ''.'' @ p @ ''.'' @ s" by fast
  then show ?thesis using v by (auto simp: demo_authlib_def)
qed

end
