(* ===== verification/Directory_Store.thy ===== *)
theory Directory_Store
  imports Identity Store_Refinement
begin

text \<open>
  The persistent directory, \<open>crates/secgit-identity/src/store.rs\<close>: mutations of the in-memory directory that
  are written through to the object store, with one index object per collection. The operations are
  written over the handle \<open>kv\<close>; the lemmas are proved once from the contract \<open>kv_store\<close> and the properties
  are stated for the encrypted store. \<open>serde_json\<close> at each type is a codec.
\<close>

section \<open>Objects and indices\<close>

record dir_json =
  j_user :: "User codec"
  j_org :: "Org codec"
  j_team :: "Team codec"
  j_repo :: "Repo codec"
  j_index :: "string list codec"

definition NS :: string where "NS = ''secgit/directory''"
definition IDX_USERS :: string where "IDX_USERS = ''index/users''"
definition IDX_ORGS :: string where "IDX_ORGS = ''index/orgs''"
definition IDX_TEAMS :: string where "IDX_TEAMS = ''index/teams''"
definition IDX_REPOS :: string where "IDX_REPOS = ''index/repos''"

definition to_storage :: "'e \<Rightarrow> IdentityError" where "to_storage e = Storage"

definition okey :: "string \<Rightarrow> string \<Rightarrow> string" where
  "okey kind key = kind @ ''/'' @ key"

definition write_obj :: "('w, 'e) kv \<Rightarrow> 'a codec \<Rightarrow> string \<Rightarrow> string \<Rightarrow> 'a \<Rightarrow> ('w, IdentityError, unit) st" where
  "write_obj S c kind key v = json_put S c Serde to_storage NS (okey kind key) v"

definition read_obj :: "('w, 'e) kv \<Rightarrow> 'a codec \<Rightarrow> string \<Rightarrow> string \<Rightarrow> ('w, IdentityError, 'a option) st" where
  "read_obj S c kind key = json_get S c Serde to_storage NS (okey kind key)"

definition read_index :: "('w, 'e) kv \<Rightarrow> dir_json \<Rightarrow> string \<Rightarrow> ('w, IdentityError, string list) st" where
  "read_index S J idx =
    sbind (json_get S (j_index J) Serde to_storage NS idx) (\<lambda>x.
    sret (case x of Some ids \<Rightarrow> ids | None \<Rightarrow> []))"

definition add_to_index :: "('w, 'e) kv \<Rightarrow> dir_json \<Rightarrow> string \<Rightarrow> string \<Rightarrow> ('w, IdentityError, unit) st" where
  "add_to_index S J idx key =
    sbind (read_index S J idx) (\<lambda>ids.
    if \<not> list_ex (\<lambda>x. x = key) ids then json_put S (j_index J) Serde to_storage NS idx (ids @ [key]) else sret ())"

definition remove_from_index :: "('w, 'e) kv \<Rightarrow> dir_json \<Rightarrow> string \<Rightarrow> string \<Rightarrow> ('w, IdentityError, unit) st" where
  "remove_from_index S J idx key =
    sbind (read_index S J idx) (\<lambda>ids. json_put S (j_index J) Serde to_storage NS idx (filter (\<lambda>x. x \<noteq> key) ids))"

definition delete_obj :: "('w, 'e) kv \<Rightarrow> string \<Rightarrow> string \<Rightarrow> ('w, IdentityError, unit) st" where
  "delete_obj S kind key = smap_err to_storage (kv_delete S NS (okey kind key))"

section \<open>The persistent directory\<close>

text \<open>The state is the in-memory directory and the world of the store.\<close>

definition on_dir :: "(Directory \<Rightarrow> (IdentityError, Directory) result) \<Rightarrow> (Directory \<times> 'w, IdentityError, unit) st" where
  "on_dir f s = (case f (fst s) of Ok d' \<Rightarrow> (Ok (), (d', snd s)) | Err e \<Rightarrow> (Err e, s))"

definition on_store :: "('w, IdentityError, 'a) st \<Rightarrow> (Directory \<times> 'w, IdentityError, 'a) st" where
  "on_store m s = (case m (snd s) of (r, w') \<Rightarrow> (r, (fst s, w')))"

fun load_objs :: "('w, 'e) kv \<Rightarrow> 'a codec \<Rightarrow> string \<Rightarrow> ('a \<Rightarrow> Directory \<Rightarrow> (IdentityError, Directory) result) \<Rightarrow>
    string list \<Rightarrow> Directory \<Rightarrow> ('w, IdentityError, Directory) st" where
  "load_objs S c kind add [] d = sret d"
| "load_objs S c kind add (key # ids) d =
    sbind (read_obj S c kind key) (\<lambda>x.
    case x of
      Some v \<Rightarrow> sbind (slift (add v d)) (\<lambda>d'. load_objs S c kind add ids d')
    | None \<Rightarrow> load_objs S c kind add ids d)"

definition pd_open :: "('w, 'e) kv \<Rightarrow> dir_json \<Rightarrow> ('w, IdentityError, Directory) st" where
  "pd_open S J =
    sbind (read_index S J IDX_USERS) (\<lambda>us.
    sbind (load_objs S (j_user J) ''user'' add_user us directory_new) (\<lambda>d1.
    sbind (read_index S J IDX_ORGS) (\<lambda>os.
    sbind (load_objs S (j_org J) ''org'' add_org os d1) (\<lambda>d2.
    sbind (read_index S J IDX_TEAMS) (\<lambda>ts.
    sbind (load_objs S (j_team J) ''team'' add_team ts d2) (\<lambda>d3.
    sbind (read_index S J IDX_REPOS) (\<lambda>rs.
    load_objs S (j_repo J) ''repo'' add_repo rs d3)))))))"

definition pd_create_user :: "('w, 'e) kv \<Rightarrow> dir_json \<Rightarrow> User \<Rightarrow> (Directory \<times> 'w, IdentityError, unit) st" where
  "pd_create_user S J user =
    sbind (on_dir (add_user user)) (\<lambda>_.
    sbind (on_store (write_obj S (j_user J) ''user'' (u_id user) user)) (\<lambda>_.
    on_store (add_to_index S J IDX_USERS (u_id user))))"

definition pd_update_user :: "('w, 'e) kv \<Rightarrow> dir_json \<Rightarrow> User \<Rightarrow> (Directory \<times> 'w, IdentityError, unit) st" where
  "pd_update_user S J user =
    sbind (on_dir (update_user user)) (\<lambda>_. on_store (write_obj S (j_user J) ''user'' (u_id user) user))"

definition pd_delete_user :: "('w, 'e) kv \<Rightarrow> dir_json \<Rightarrow> string \<Rightarrow> (Directory \<times> 'w, IdentityError, unit) st" where
  "pd_delete_user S J key =
    sbind (on_dir (remove_user key)) (\<lambda>_.
    sbind (on_store (delete_obj S ''user'' key)) (\<lambda>_.
    on_store (remove_from_index S J IDX_USERS key)))"

definition pd_create_org :: "('w, 'e) kv \<Rightarrow> dir_json \<Rightarrow> Org \<Rightarrow> (Directory \<times> 'w, IdentityError, unit) st" where
  "pd_create_org S J org =
    sbind (on_dir (add_org org)) (\<lambda>_.
    sbind (on_store (write_obj S (j_org J) ''org'' (o_id org) org)) (\<lambda>_.
    on_store (add_to_index S J IDX_ORGS (o_id org))))"

definition pd_update_org :: "('w, 'e) kv \<Rightarrow> dir_json \<Rightarrow> Org \<Rightarrow> (Directory \<times> 'w, IdentityError, unit) st" where
  "pd_update_org S J org =
    sbind (on_dir (update_org org)) (\<lambda>_. on_store (write_obj S (j_org J) ''org'' (o_id org) org))"

definition pd_delete_org :: "('w, 'e) kv \<Rightarrow> dir_json \<Rightarrow> string \<Rightarrow> (Directory \<times> 'w, IdentityError, unit) st" where
  "pd_delete_org S J key =
    sbind (on_dir (remove_org key)) (\<lambda>_.
    sbind (on_store (delete_obj S ''org'' key)) (\<lambda>_.
    on_store (remove_from_index S J IDX_ORGS key)))"

definition pd_create_team :: "('w, 'e) kv \<Rightarrow> dir_json \<Rightarrow> Team \<Rightarrow> (Directory \<times> 'w, IdentityError, unit) st" where
  "pd_create_team S J team =
    sbind (on_dir (add_team team)) (\<lambda>_.
    sbind (on_store (write_obj S (j_team J) ''team'' (t_id team) team)) (\<lambda>_.
    on_store (add_to_index S J IDX_TEAMS (t_id team))))"

definition pd_update_team :: "('w, 'e) kv \<Rightarrow> dir_json \<Rightarrow> Team \<Rightarrow> (Directory \<times> 'w, IdentityError, unit) st" where
  "pd_update_team S J team =
    sbind (on_dir (update_team team)) (\<lambda>_. on_store (write_obj S (j_team J) ''team'' (t_id team) team))"

definition pd_delete_team :: "('w, 'e) kv \<Rightarrow> dir_json \<Rightarrow> string \<Rightarrow> (Directory \<times> 'w, IdentityError, unit) st" where
  "pd_delete_team S J key =
    sbind (on_dir (remove_team key)) (\<lambda>_.
    sbind (on_store (delete_obj S ''team'' key)) (\<lambda>_.
    on_store (remove_from_index S J IDX_TEAMS key)))"

definition pd_create_repo :: "('w, 'e) kv \<Rightarrow> dir_json \<Rightarrow> Repo \<Rightarrow> (Directory \<times> 'w, IdentityError, unit) st" where
  "pd_create_repo S J repo =
    sbind (on_dir (add_repo repo)) (\<lambda>_.
    sbind (on_store (write_obj S (j_repo J) ''repo'' (r_id repo) repo)) (\<lambda>_.
    on_store (add_to_index S J IDX_REPOS (r_id repo))))"

definition pd_update_repo :: "('w, 'e) kv \<Rightarrow> dir_json \<Rightarrow> Repo \<Rightarrow> (Directory \<times> 'w, IdentityError, unit) st" where
  "pd_update_repo S J repo =
    sbind (on_dir (update_repo repo)) (\<lambda>_. on_store (write_obj S (j_repo J) ''repo'' (r_id repo) repo))"

definition pd_delete_repo :: "('w, 'e) kv \<Rightarrow> dir_json \<Rightarrow> string \<Rightarrow> (Directory \<times> 'w, IdentityError, unit) st" where
  "pd_delete_repo S J key =
    sbind (on_dir (remove_repo key)) (\<lambda>_.
    sbind (on_store (delete_obj S ''repo'' key)) (\<lambda>_.
    on_store (remove_from_index S J IDX_REPOS key)))"

section \<open>The access-control surface\<close>

definition cloned_org :: "string \<Rightarrow> (Directory \<times> 'w, IdentityError, Org) st" where
  "cloned_org key s = (ok_or (NotFound key) (dir_org (fst s) key), s)"

definition cloned_team :: "string \<Rightarrow> (Directory \<times> 'w, IdentityError, Team) st" where
  "cloned_team key s = (ok_or (NotFound key) (dir_team (fst s) key), s)"

definition cloned_repo :: "string \<Rightarrow> (Directory \<times> 'w, IdentityError, Repo) st" where
  "cloned_repo key s = (ok_or (NotFound key) (dir_repo (fst s) key), s)"

definition without :: "string \<Rightarrow> (string \<times> 'r) list \<Rightarrow> (string \<times> 'r) list" where
  "without key xs = filter (\<lambda>(u, _). u \<noteq> key) xs"

definition set_org_member where
  "set_org_member S J org_id user_id role =
    sbind (cloned_org org_id) (\<lambda>org.
    pd_update_org S J (org\<lparr>o_members := without user_id (o_members org) @ [(user_id, role)]\<rparr>))"

definition remove_org_member where
  "remove_org_member S J org_id user_id =
    sbind (cloned_org org_id) (\<lambda>org. pd_update_org S J (org\<lparr>o_members := without user_id (o_members org)\<rparr>))"

definition add_team_member where
  "add_team_member S J team_id user_id =
    sbind (cloned_team team_id) (\<lambda>team.
    pd_update_team S J
      (if \<not> list_ex (\<lambda>u. u = user_id) (t_member_ids team)
       then team\<lparr>t_member_ids := t_member_ids team @ [user_id]\<rparr> else team))"

definition remove_team_member where
  "remove_team_member S J team_id user_id =
    sbind (cloned_team team_id) (\<lambda>team.
    pd_update_team S J (team\<lparr>t_member_ids := filter (\<lambda>u. u \<noteq> user_id) (t_member_ids team)\<rparr>))"

definition set_team_repo_grant where
  "set_team_repo_grant S J team_id repo_id role =
    sbind (cloned_team team_id) (\<lambda>team.
    pd_update_team S J (team\<lparr>t_repo_grants := without repo_id (t_repo_grants team) @ [(repo_id, role)]\<rparr>))"

definition revoke_team_repo_grant where
  "revoke_team_repo_grant S J team_id repo_id =
    sbind (cloned_team team_id) (\<lambda>team.
    pd_update_team S J (team\<lparr>t_repo_grants := without repo_id (t_repo_grants team)\<rparr>))"

definition set_collaborator where
  "set_collaborator S J repo_id user_id role =
    sbind (cloned_repo repo_id) (\<lambda>repo.
    pd_update_repo S J (repo\<lparr>r_collaborators := without user_id (r_collaborators repo) @ [(user_id, role)]\<rparr>))"

definition remove_collaborator where
  "remove_collaborator S J repo_id user_id =
    sbind (cloned_repo repo_id) (\<lambda>repo.
    pd_update_repo S J (repo\<lparr>r_collaborators := without user_id (r_collaborators repo)\<rparr>))"

definition teams_in_org :: "Directory \<Rightarrow> string \<Rightarrow> Team list" where
  "teams_in_org d org_id = filter (\<lambda>t. t_org_id t = org_id) (list_teams d)"

definition is_org_owner :: "Directory \<Rightarrow> string \<Rightarrow> string \<Rightarrow> bool" where
  "is_org_owner d org_id user_id =
    (case dir_org d org_id of
       Some org \<Rightarrow> list_ex (\<lambda>(u, r). u = user_id \<and> r = Owner) (o_members org)
     | None \<Rightarrow> False)"

definition orgs_for_user :: "Directory \<Rightarrow> string \<Rightarrow> Org list" where
  "orgs_for_user d user_id = filter (\<lambda>o'. list_ex (\<lambda>(u, _). u = user_id) (o_members o')) (list_orgs d)"

section \<open>The store mirrors the directory\<close>

definition index_reads :: "dir_json \<Rightarrow> view \<Rightarrow> string \<Rightarrow> string list \<Rightarrow> bool" where
  "index_reads J V idx ids \<longleftrightarrow> (\<exists>x. reads (j_index J) V NS idx x \<and> ids = (case x of Some l \<Rightarrow> l | None \<Rightarrow> []))"

text \<open>A collection of the directory and its objects: the index lists the keys, each once, and every object
  reads as its entity.\<close>

definition mirrors :: "string set \<Rightarrow> dir_json \<Rightarrow> 'a codec \<Rightarrow> ('a \<Rightarrow> string) \<Rightarrow> string \<Rightarrow> string \<Rightarrow> (string \<rightharpoonup> 'a) \<Rightarrow> view \<Rightarrow> bool" where
  "mirrors N J c key_of kind idx m V \<longleftrightarrow>
    (\<exists>ids. index_reads J V idx ids \<and> distinct ids \<and> set ids = dom m)
    \<and> (\<forall>i v. m i = Some v \<longrightarrow> key_of v = i \<and> okey kind i \<in> N \<and> reads c V NS (okey kind i) (Some v))"

lemma okey_eq [simp]: "okey kind i = okey kind j \<longleftrightarrow> i = j"
  by (simp add: okey_def)

lemmas idx_defs = IDX_USERS_def IDX_ORGS_def IDX_TEAMS_def IDX_REPOS_def

lemma index_not_object [simp]:
  assumes "idx \<in> {IDX_USERS, IDX_ORGS, IDX_TEAMS, IDX_REPOS}" "kind \<in> {''user'', ''org'', ''team'', ''repo''}"
  shows "okey kind i \<noteq> idx" "idx \<noteq> okey kind i"
  using assms by (auto simp: okey_def idx_defs)

text \<open>Only the objects of the collection and its index matter.\<close>

lemma mirrors_cong:
  assumes "mirrors N J c key_of kind idx m V" "V' NS idx = V NS idx" "\<And>i. V' NS (okey kind i) = V NS (okey kind i)"
  shows "mirrors N J c key_of kind idx m V'"
  using assms by (simp add: mirrors_def index_reads_def reads_def)

lemma mirrorsI:
  assumes "index_reads J V idx ids" "distinct ids" "set ids = dom m"
    and "\<And>i v. m i = Some v \<Longrightarrow> key_of v = i \<and> okey kind i \<in> N \<and> reads c V NS (okey kind i) (Some v)"
  shows "mirrors N J c key_of kind idx m V"
  using assms unfolding mirrors_def by blast

lemma index_reads_fun: "index_reads J V idx ids \<Longrightarrow> index_reads J V idx ids' \<Longrightarrow> ids' = ids"
  unfolding index_reads_def using reads_fun by metis

context kv_store begin

lemma write_obj_Ok:
  assumes "write_obj S c kind i v w = (Ok u, w')" "ok w" "codec_law c" "NS \<in> N" "okey kind i \<in> N"
  obtains b where "from_slice c b = Some v" "ok w'" "view_of w' = upd (view_of w) NS (okey kind i) (Some b)"
  using assms unfolding write_obj_def by (rule json_put_Ok)

lemma read_index_Ok:
  assumes "read_index S J idx w = (Ok ids, w')" "ok w" "NS \<in> N" "idx \<in> N"
  shows "ok w' \<and> view_of w' = view_of w \<and> index_reads J (view_of w) idx ids"
proof -
  obtain x where x: "json_get S (j_index J) Serde to_storage NS idx w = (Ok x, w')"
    "ids = (case x of Some l \<Rightarrow> l | None \<Rightarrow> [])"
    using assms(1) by (auto simp: read_index_def sbind_eq_Ok)
  then show ?thesis using json_get_Ok [OF x(1) assms(2-4)] by (auto simp: index_reads_def)
qed

lemma index_put_Ok:
  assumes "json_put S (j_index J) Serde to_storage NS idx ids w = (Ok u, w')" "ok w" "codec_law (j_index J)" "NS \<in> N" "idx \<in> N"
  shows "ok w' \<and> index_reads J (view_of w') idx ids \<and> (\<forall>k. k \<noteq> idx \<longrightarrow> view_of w' NS k = view_of w NS k)"
  using assms
proof (rule json_put_Ok)
  fix b assume b: "from_slice (j_index J) b = Some ids" "ok w'" "view_of w' = upd (view_of w) NS idx (Some b)"
  then show ?thesis by (auto simp: index_reads_def)
qed

lemma add_to_index_Ok:
  assumes "add_to_index S J idx i w = (Ok u, w')" "ok w" "codec_law (j_index J)" "NS \<in> N" "idx \<in> N"
    "index_reads J (view_of w) idx ids"
  shows "ok w' \<and> index_reads J (view_of w') idx (if i \<in> set ids then ids else ids @ [i])
    \<and> (\<forall>k. k \<noteq> idx \<longrightarrow> view_of w' NS k = view_of w NS k)"
proof -
  obtain ids' w1 where r: "read_index S J idx w = (Ok ids', w1)"
    "(if \<not> list_ex (\<lambda>x. x = i) ids' then json_put S (j_index J) Serde to_storage NS idx (ids' @ [i]) else sret ()) w1 = (Ok u, w')"
    using assms(1) by (auto simp: add_to_index_def sbind_eq_Ok)
  have w1: "ok w1" "view_of w1 = view_of w" "ids' = ids"
    using read_index_Ok [OF r(1) assms(2,4,5)] assms(6) index_reads_fun by blast+
  show ?thesis
  proof (cases "i \<in> set ids")
    case True
    then show ?thesis using r(2) w1 assms(6) by (auto simp: list_ex_iff)
  next
    case False
    then have "json_put S (j_index J) Serde to_storage NS idx (ids @ [i]) w1 = (Ok u, w')"
      using r(2) w1 by (auto simp: list_ex_iff)
    from index_put_Ok [OF this w1(1) assms(3-5)] show ?thesis using False w1(2) by simp
  qed
qed

lemma remove_from_index_Ok:
  assumes "remove_from_index S J idx i w = (Ok u, w')" "ok w" "codec_law (j_index J)" "NS \<in> N" "idx \<in> N"
    "index_reads J (view_of w) idx ids"
  shows "ok w' \<and> index_reads J (view_of w') idx (filter (\<lambda>x. x \<noteq> i) ids)
    \<and> (\<forall>k. k \<noteq> idx \<longrightarrow> view_of w' NS k = view_of w NS k)"
proof -
  obtain ids' w1 where r: "read_index S J idx w = (Ok ids', w1)"
    "json_put S (j_index J) Serde to_storage NS idx (filter (\<lambda>x. x \<noteq> i) ids') w1 = (Ok u, w')"
    using assms(1) by (auto simp: remove_from_index_def sbind_eq_Ok)
  have w1: "ok w1" "view_of w1 = view_of w" "ids' = ids"
    using read_index_Ok [OF r(1) assms(2,4,5)] assms(6) index_reads_fun by blast+
  from index_put_Ok [OF r(2) w1(1) assms(3-5)] show ?thesis using w1(2,3) by simp
qed

lemma coll_update:
  assumes "write_obj S c kind i v w = (Ok u, w')" "ok w" "mirrors N J c key_of kind idx m (view_of w)"
    and "codec_law c" "NS \<in> N" "okey kind i \<in> N" "key_of v = i" "\<And>j. okey kind j \<noteq> idx" "i \<in> dom m"
  shows "ok w' \<and> mirrors N J c key_of kind idx (m(i \<mapsto> v)) (view_of w')
    \<and> (\<forall>k. k \<noteq> okey kind i \<longrightarrow> view_of w' NS k = view_of w NS k)"
  using assms(1,2,4-6)
proof (rule write_obj_Ok)
  fix b assume b: "from_slice c b = Some v" "ok w'" "view_of w' = upd (view_of w) NS (okey kind i) (Some b)"
  have "dom (m(i \<mapsto> v)) = dom m" using assms(9) by auto
  moreover have "index_reads J (view_of w') idx ids \<longleftrightarrow> index_reads J (view_of w) idx ids" for ids
    using b(3) assms(8) [of i] by (simp add: index_reads_def reads_def)
  moreover have "reads c (view_of w') NS (okey kind j) (Some x) \<longleftrightarrow>
      (if j = i then x = v else reads c (view_of w) NS (okey kind j) (Some x))" for j x
    using b(1,3) by auto
  ultimately show ?thesis
    using assms(3,6,7) b(2,3) unfolding mirrors_def by (auto simp: fun_upd_def split: if_splits)
qed

lemma coll_create:
  assumes "write_obj S c kind i v w = (Ok u, w1)" "add_to_index S J idx i w1 = (Ok u', w')"
    and "ok w" "mirrors N J c key_of kind idx m (view_of w)"
    and "codec_law c" "codec_law (j_index J)" "NS \<in> N" "idx \<in> N" "okey kind i \<in> N" "key_of v = i" "\<And>j. okey kind j \<noteq> idx"
  shows "ok w' \<and> mirrors N J c key_of kind idx (m(i \<mapsto> v)) (view_of w')
    \<and> (\<forall>k. k \<noteq> okey kind i \<longrightarrow> k \<noteq> idx \<longrightarrow> view_of w' NS k = view_of w NS k)"
  using assms(1,3,5,7,9)
proof (rule write_obj_Ok)
  fix b assume b: "from_slice c b = Some v" "ok w1" "view_of w1 = upd (view_of w) NS (okey kind i) (Some b)"
  obtain ids where ids: "index_reads J (view_of w) idx ids" "distinct ids" "set ids = dom m"
    using assms(4) by (auto simp: mirrors_def)
  have i1: "index_reads J (view_of w1) idx ids"
    using ids(1) b(3) assms(11) [of i] by (simp add: index_reads_def reads_def)
  have i2: "ok w'" "index_reads J (view_of w') idx (if i \<in> set ids then ids else ids @ [i])"
    "\<forall>k. k \<noteq> idx \<longrightarrow> view_of w' NS k = view_of w1 NS k"
    using add_to_index_Ok [OF assms(2) b(2) assms(6-8) i1] by auto
  have obj: "reads c (view_of w') NS (okey kind j) (Some x) \<longleftrightarrow>
      (if j = i then x = v else reads c (view_of w) NS (okey kind j) (Some x))" for j x
    using b(1,3) i2(3) assms(11) [of j] by (auto simp: reads_def)
  have d: "distinct (if i \<in> set ids then ids else ids @ [i])"
    "set (if i \<in> set ids then ids else ids @ [i]) = dom (m(i \<mapsto> v))"
    using ids(2,3) by auto
  have "mirrors N J c key_of kind idx (m(i \<mapsto> v)) (view_of w')"
    by (rule mirrorsI [OF i2(2) d]) (use assms(4,9,10) obj in \<open>auto simp: mirrors_def split: if_splits\<close>)
  then show ?thesis using i2(1,3) b(3) by simp
qed

lemma coll_delete:
  assumes "delete_obj S kind i w = (Ok u, w1)" "remove_from_index S J idx i w1 = (Ok u', w')"
    and "ok w" "mirrors N J c key_of kind idx m (view_of w)"
    and "codec_law (j_index J)" "NS \<in> N" "idx \<in> N" "okey kind i \<in> N" "\<And>j. okey kind j \<noteq> idx"
  shows "ok w' \<and> mirrors N J c key_of kind idx (m(i := None)) (view_of w')
    \<and> (\<forall>k. k \<noteq> okey kind i \<longrightarrow> k \<noteq> idx \<longrightarrow> view_of w' NS k = view_of w NS k)"
proof -
  have b: "ok w1" "view_of w1 = upd (view_of w) NS (okey kind i) None"
    using delete_Ok [OF assms(1) [unfolded delete_obj_def] assms(3,6,8)] by auto
  obtain ids where ids: "index_reads J (view_of w) idx ids" "distinct ids" "set ids = dom m"
    using assms(4) by (auto simp: mirrors_def)
  have i1: "index_reads J (view_of w1) idx ids"
    using ids(1) b(2) assms(9) [of i] by (simp add: index_reads_def reads_def)
  have i2: "ok w'" "index_reads J (view_of w') idx (filter (\<lambda>x. x \<noteq> i) ids)"
    "\<forall>k. k \<noteq> idx \<longrightarrow> view_of w' NS k = view_of w1 NS k"
    using remove_from_index_Ok [OF assms(2) b(1) assms(5-7) i1] by auto
  have obj: "j \<noteq> i \<Longrightarrow> reads c (view_of w') NS (okey kind j) x \<longleftrightarrow> reads c (view_of w) NS (okey kind j) x" for j x
    using b(2) i2(3) assms(9) [of j] by (simp add: reads_def)
  have d: "distinct (filter (\<lambda>x. x \<noteq> i) ids)" "set (filter (\<lambda>x. x \<noteq> i) ids) = dom (m(i := None))"
    using ids(2,3) by auto
  have "mirrors N J c key_of kind idx (m(i := None)) (view_of w')"
    by (rule mirrorsI [OF i2(2) d]) (use assms(4) obj in \<open>auto simp: mirrors_def split: if_splits\<close>)
  then show ?thesis using i2(1,3) b(2) by simp
qed

end

text \<open>The whole directory.\<close>

definition synced :: "string set \<Rightarrow> dir_json \<Rightarrow> Directory \<Rightarrow> view \<Rightarrow> bool" where
  "synced N J d V \<longleftrightarrow> hm_ok (d_users d) \<and> hm_ok (d_orgs d) \<and> hm_ok (d_teams d) \<and> hm_ok (d_repos d)
    \<and> mirrors N J (j_user J) u_id ''user'' IDX_USERS (map_of (d_users d)) V
    \<and> mirrors N J (j_org J) o_id ''org'' IDX_ORGS (map_of (d_orgs d)) V
    \<and> mirrors N J (j_team J) t_id ''team'' IDX_TEAMS (map_of (d_teams d)) V
    \<and> mirrors N J (j_repo J) r_id ''repo'' IDX_REPOS (map_of (d_repos d)) V"

text \<open>\<open>frame kind idx V V'\<close>: nothing but the objects of a kind and their index changed.\<close>

definition frame :: "string \<Rightarrow> string \<Rightarrow> view \<Rightarrow> view \<Rightarrow> bool" where
  "frame kind idx V V' \<longleftrightarrow> (\<forall>k. k \<noteq> idx \<longrightarrow> (\<forall>i. k \<noteq> okey kind i) \<longrightarrow> V' NS k = V NS k)"

definition foreign :: "string \<Rightarrow> string \<Rightarrow> string \<Rightarrow> string \<Rightarrow> bool" where
  "foreign kind idx kind' idx' \<longleftrightarrow> idx \<noteq> idx' \<and> (\<forall>i j. okey kind i \<noteq> okey kind' j)
    \<and> (\<forall>i. okey kind i \<noteq> idx') \<and> (\<forall>i. idx \<noteq> okey kind' i)"

lemma foreign_kinds:
  "foreign ''user'' IDX_USERS ''org'' IDX_ORGS" "foreign ''user'' IDX_USERS ''team'' IDX_TEAMS"
  "foreign ''user'' IDX_USERS ''repo'' IDX_REPOS" "foreign ''org'' IDX_ORGS ''user'' IDX_USERS"
  "foreign ''org'' IDX_ORGS ''team'' IDX_TEAMS" "foreign ''org'' IDX_ORGS ''repo'' IDX_REPOS"
  "foreign ''team'' IDX_TEAMS ''user'' IDX_USERS" "foreign ''team'' IDX_TEAMS ''org'' IDX_ORGS"
  "foreign ''team'' IDX_TEAMS ''repo'' IDX_REPOS" "foreign ''repo'' IDX_REPOS ''user'' IDX_USERS"
  "foreign ''repo'' IDX_REPOS ''org'' IDX_ORGS" "foreign ''repo'' IDX_REPOS ''team'' IDX_TEAMS"
  by (simp_all add: foreign_def okey_def idx_defs)

lemma mirrors_frame:
  assumes "frame kind' idx' V V'" "foreign kind idx kind' idx'" "mirrors N J c key_of kind idx m V"
  shows "mirrors N J c key_of kind idx m V'"
  using assms(3)
proof (rule mirrors_cong)
  show "V' NS idx = V NS idx" using assms(1,2) by (simp add: frame_def foreign_def)
  show "V' NS (okey kind i) = V NS (okey kind i)" for i using assms(1,2) by (simp add: frame_def foreign_def)
qed

lemma synced_users:
  assumes "synced N J d V" "frame ''user'' IDX_USERS V V'" "mirrors N J (j_user J) u_id ''user'' IDX_USERS (map_of us) V'" "hm_ok us"
  shows "synced N J (d\<lparr>d_users := us\<rparr>) V'"
  using assms(1,3,4) unfolding synced_def by (auto intro: mirrors_frame [OF assms(2)] foreign_kinds)

lemma synced_orgs:
  assumes "synced N J d V" "frame ''org'' IDX_ORGS V V'" "mirrors N J (j_org J) o_id ''org'' IDX_ORGS (map_of os) V'" "hm_ok os"
  shows "synced N J (d\<lparr>d_orgs := os\<rparr>) V'"
  using assms(1,3,4) unfolding synced_def by (auto intro: mirrors_frame [OF assms(2)] foreign_kinds)

lemma synced_teams:
  assumes "synced N J d V" "frame ''team'' IDX_TEAMS V V'" "mirrors N J (j_team J) t_id ''team'' IDX_TEAMS (map_of ts) V'" "hm_ok ts"
  shows "synced N J (d\<lparr>d_teams := ts\<rparr>) V'"
  using assms(1,3,4) unfolding synced_def by (auto intro: mirrors_frame [OF assms(2)] foreign_kinds)

lemma synced_repos:
  assumes "synced N J d V" "frame ''repo'' IDX_REPOS V V'" "mirrors N J (j_repo J) r_id ''repo'' IDX_REPOS (map_of rs) V'" "hm_ok rs"
  shows "synced N J (d\<lparr>d_repos := rs\<rparr>) V'"
  using assms(1,3,4) unfolding synced_def by (auto intro: mirrors_frame [OF assms(2)] foreign_kinds)

lemma on_dir_Ok: "on_dir f s = (Ok u, s') \<longleftrightarrow> (\<exists>d'. f (fst s) = Ok d' \<and> s' = (d', snd s))"
  by (auto simp: on_dir_def split: sum.splits)

lemma on_store_Ok: "on_store m s = (Ok x, s') \<longleftrightarrow> (\<exists>w'. m (snd s) = (Ok x, w') \<and> s' = (fst s, w'))"
  by (auto simp: on_store_def split: prod.splits)

definition dir_law :: "dir_json \<Rightarrow> bool" where
  "dir_law J \<longleftrightarrow> codec_law (j_user J) \<and> codec_law (j_org J) \<and> codec_law (j_team J) \<and> codec_law (j_repo J) \<and> codec_law (j_index J)"

definition dir_names :: "string set \<Rightarrow> bool" where
  "dir_names N \<longleftrightarrow> {NS, IDX_USERS, IDX_ORGS, IDX_TEAMS, IDX_REPOS} \<subseteq> N"

text \<open>One collection of the directory: how it is read and replaced.\<close>

definition collection :: "string set \<Rightarrow> dir_json \<Rightarrow> 'a codec \<Rightarrow> ('a \<Rightarrow> string) \<Rightarrow> string \<Rightarrow> string \<Rightarrow>
    (Directory \<Rightarrow> (string, 'a) hmap) \<Rightarrow> (Directory \<Rightarrow> (string, 'a) hmap \<Rightarrow> Directory) \<Rightarrow> bool" where
  "collection N J c key_of kind idx get put \<longleftrightarrow>
    (\<forall>d V. synced N J d V \<longrightarrow> mirrors N J c key_of kind idx (map_of (get d)) V \<and> hm_ok (get d))
    \<and> (\<forall>d V V' m. synced N J d V \<longrightarrow> frame kind idx V V' \<longrightarrow> mirrors N J c key_of kind idx (map_of m) V' \<longrightarrow> hm_ok m \<longrightarrow>
          synced N J (put d m) V')
    \<and> (\<forall>j. okey kind j \<noteq> idx) \<and> (dir_law J \<longrightarrow> codec_law c \<and> codec_law (j_index J))
    \<and> (dir_names N \<longrightarrow> NS \<in> N \<and> idx \<in> N)"

lemma collections:
  "collection N J (j_user J) u_id ''user'' IDX_USERS d_users (\<lambda>d m. d\<lparr>d_users := m\<rparr>)"
  "collection N J (j_org J) o_id ''org'' IDX_ORGS d_orgs (\<lambda>d m. d\<lparr>d_orgs := m\<rparr>)"
  "collection N J (j_team J) t_id ''team'' IDX_TEAMS d_teams (\<lambda>d m. d\<lparr>d_teams := m\<rparr>)"
  "collection N J (j_repo J) r_id ''repo'' IDX_REPOS d_repos (\<lambda>d m. d\<lparr>d_repos := m\<rparr>)"
  unfolding collection_def
  by (auto simp: dir_law_def dir_names_def synced_users synced_orgs synced_teams synced_repos)
    (simp_all add: synced_def)

context kv_store begin

lemma create_synced:
  assumes coll: "collection N J c key_of kind idx get put"
    and run: "sbind (on_dir f) (\<lambda>_. sbind (on_store (write_obj S c kind (key_of v) v)) (\<lambda>_.
        on_store (add_to_index S J idx (key_of v)))) (d, w) = (Ok u, (d', w'))"
    and f: "\<And>d'. f d = Ok d' \<Longrightarrow> d' = put d (hm_insert (key_of v) v (get d))"
    and st: "ok w" "synced N J d (view_of w)" "dir_law J" "dir_names N" "okey kind (key_of v) \<in> N"
  shows "ok w' \<and> synced N J d' (view_of w')"
proof -
  obtain w1 where r: "f d = Ok d'" "write_obj S c kind (key_of v) v w = (Ok (), w1)"
    "add_to_index S J idx (key_of v) w1 = (Ok u, w')"
    using run by (auto simp: sbind_eq_Ok on_dir_Ok on_store_Ok)
  have m: "mirrors N J c key_of kind idx (map_of (get d)) (view_of w)" "codec_law c" "codec_law (j_index J)"
    "NS \<in> N" "idx \<in> N" "\<And>j. okey kind j \<noteq> idx"
    using coll st by (auto simp: collection_def)
  have a: "ok w'" "mirrors N J c key_of kind idx (map_of (hm_insert (key_of v) v (get d))) (view_of w')"
    "frame kind idx (view_of w) (view_of w')"
    using coll_create [OF r(2,3) st(1) m(1-5) st(5) refl m(6)] by (auto simp: frame_def)
  then show ?thesis using coll st(2) f [OF r(1)] unfolding collection_def by (metis hm_ok_insert hm_ok_remove)
qed

lemma update_synced:
  assumes coll: "collection N J c key_of kind idx get put"
    and run: "sbind (on_dir f) (\<lambda>_. on_store (write_obj S c kind (key_of v) v)) (d, w) = (Ok u, (d', w'))"
    and f: "\<And>d'. f d = Ok d' \<Longrightarrow> map_of (get d) (key_of v) \<noteq> None \<and> d' = put d (hm_insert (key_of v) v (get d))"
    and st: "ok w" "synced N J d (view_of w)" "dir_law J" "dir_names N"
  shows "ok w' \<and> synced N J d' (view_of w')"
proof -
  have r: "f d = Ok d'" "write_obj S c kind (key_of v) v w = (Ok u, w')"
    using run by (auto simp: sbind_eq_Ok on_dir_Ok on_store_Ok)
  have m: "mirrors N J c key_of kind idx (map_of (get d)) (view_of w)" "codec_law c" "NS \<in> N" "\<And>j. okey kind j \<noteq> idx"
    using coll st by (auto simp: collection_def)
  have dom: "key_of v \<in> dom (map_of (get d))" using f [OF r(1)] by (simp add: domIff)
  then have "okey kind (key_of v) \<in> N" using m(1) by (auto simp: mirrors_def)
  from coll_update [OF r(2) st(1) m(1-3) this refl m(4) dom]
  have a: "ok w'" "mirrors N J c key_of kind idx (map_of (hm_insert (key_of v) v (get d))) (view_of w')"
    "frame kind idx (view_of w) (view_of w')" by (auto simp: frame_def)
  then show ?thesis using coll st(2) f [OF r(1)] unfolding collection_def by (metis hm_ok_insert hm_ok_remove)
qed

lemma delete_synced:
  assumes coll: "collection N J c key_of kind idx get put"
    and run: "sbind (on_dir f) (\<lambda>_. sbind (on_store (delete_obj S kind i)) (\<lambda>_.
        on_store (remove_from_index S J idx i))) (d, w) = (Ok u, (d', w'))"
    and f: "\<And>d'. f d = Ok d' \<Longrightarrow> map_of (get d) i \<noteq> None \<and> d' = put d (hm_remove i (get d))"
    and st: "ok w" "synced N J d (view_of w)" "dir_law J" "dir_names N"
  shows "ok w' \<and> synced N J d' (view_of w')"
proof -
  obtain w1 where r: "f d = Ok d'" "delete_obj S kind i w = (Ok (), w1)" "remove_from_index S J idx i w1 = (Ok u, w')"
    using run by (auto simp: sbind_eq_Ok on_dir_Ok on_store_Ok)
  have m: "mirrors N J c key_of kind idx (map_of (get d)) (view_of w)" "codec_law (j_index J)" "NS \<in> N" "idx \<in> N"
    "\<And>j. okey kind j \<noteq> idx"
    using coll st by (auto simp: collection_def)
  have "okey kind i \<in> N" using m(1) f [OF r(1)] by (auto simp: mirrors_def)
  from coll_delete [OF r(2,3) st(1) m(1-4) this m(5)]
  have a: "ok w'" "mirrors N J c key_of kind idx (map_of (hm_remove i (get d))) (view_of w')"
    "frame kind idx (view_of w) (view_of w')" by (auto simp: frame_def)
  then show ?thesis using coll st(2) f [OF r(1)] unfolding collection_def by (metis hm_ok_insert hm_ok_remove)
qed

end

section \<open>Histories\<close>

datatype dir_op =
    CreateUser User | UpdateUser User | DeleteUser string
  | CreateOrg Org | UpdateOrg Org | DeleteOrg string
  | CreateTeam Team | UpdateTeam Team | DeleteTeam string
  | CreateRepo Repo | UpdateRepo Repo | DeleteRepo string
  | SetOrgMember string string OrgRole | RemoveOrgMember string string
  | AddTeamMember string string | RemoveTeamMember string string
  | SetTeamRepoGrant string string Role | RevokeTeamRepoGrant string string
  | SetCollaborator string string Role | RemoveCollaborator string string

fun dir_exec :: "('w, 'e) kv \<Rightarrow> dir_json \<Rightarrow> dir_op \<Rightarrow> (Directory \<times> 'w, IdentityError, unit) st" where
  "dir_exec S J (CreateUser x) = pd_create_user S J x"
| "dir_exec S J (UpdateUser x) = pd_update_user S J x"
| "dir_exec S J (DeleteUser i) = pd_delete_user S J i"
| "dir_exec S J (CreateOrg x) = pd_create_org S J x"
| "dir_exec S J (UpdateOrg x) = pd_update_org S J x"
| "dir_exec S J (DeleteOrg i) = pd_delete_org S J i"
| "dir_exec S J (CreateTeam x) = pd_create_team S J x"
| "dir_exec S J (UpdateTeam x) = pd_update_team S J x"
| "dir_exec S J (DeleteTeam i) = pd_delete_team S J i"
| "dir_exec S J (CreateRepo x) = pd_create_repo S J x"
| "dir_exec S J (UpdateRepo x) = pd_update_repo S J x"
| "dir_exec S J (DeleteRepo i) = pd_delete_repo S J i"
| "dir_exec S J (SetOrgMember o' u r) = set_org_member S J o' u r"
| "dir_exec S J (RemoveOrgMember o' u) = remove_org_member S J o' u"
| "dir_exec S J (AddTeamMember t u) = add_team_member S J t u"
| "dir_exec S J (RemoveTeamMember t u) = remove_team_member S J t u"
| "dir_exec S J (SetTeamRepoGrant t p r) = set_team_repo_grant S J t p r"
| "dir_exec S J (RevokeTeamRepoGrant t p) = revoke_team_repo_grant S J t p"
| "dir_exec S J (SetCollaborator p u r) = set_collaborator S J p u r"
| "dir_exec S J (RemoveCollaborator p u) = remove_collaborator S J p u"

text \<open>The name of the object an operation makes.\<close>

fun op_names :: "dir_op \<Rightarrow> string set" where
  "op_names (CreateUser x) = {okey ''user'' (u_id x)}"
| "op_names (CreateOrg x) = {okey ''org'' (o_id x)}"
| "op_names (CreateTeam x) = {okey ''team'' (t_id x)}"
| "op_names (CreateRepo x) = {okey ''repo'' (r_id x)}"
| "op_names _ = {}"

context kv_store begin

lemma create_ops:
  assumes "ok w" "synced N J d (view_of w)" "dir_law J" "dir_names N"
  shows "pd_create_user S J x (d, w) = (Ok u, (d', w')) \<Longrightarrow> okey ''user'' (u_id x) \<in> N \<Longrightarrow> ok w' \<and> synced N J d' (view_of w')"
    and "pd_create_org S J y (d, w) = (Ok u, (d', w')) \<Longrightarrow> okey ''org'' (o_id y) \<in> N \<Longrightarrow> ok w' \<and> synced N J d' (view_of w')"
    and "pd_create_team S J z (d, w) = (Ok u, (d', w')) \<Longrightarrow> okey ''team'' (t_id z) \<in> N \<Longrightarrow> ok w' \<and> synced N J d' (view_of w')"
    and "pd_create_repo S J r (d, w) = (Ok u, (d', w')) \<Longrightarrow> okey ''repo'' (r_id r) \<in> N \<Longrightarrow> ok w' \<and> synced N J d' (view_of w')"
  subgoal unfolding pd_create_user_def
    by (rule create_synced [OF collections(1) _ _ assms]) (auto simp: add_user_def split: if_splits)
  subgoal unfolding pd_create_org_def
    by (rule create_synced [OF collections(2) _ _ assms]) (auto simp: add_org_def split: if_splits)
  subgoal unfolding pd_create_team_def
    by (rule create_synced [OF collections(3) _ _ assms]) (auto simp: add_team_def split: if_splits)
  subgoal unfolding pd_create_repo_def
    by (rule create_synced [OF collections(4) _ _ assms]) (auto simp: add_repo_def split: if_splits)
  done

lemma update_ops:
  assumes "ok w" "synced N J d (view_of w)" "dir_law J" "dir_names N"
  shows "pd_update_user S J x (d, w) = (Ok u, (d', w')) \<Longrightarrow> ok w' \<and> synced N J d' (view_of w')"
    and "pd_update_org S J y (d, w) = (Ok u, (d', w')) \<Longrightarrow> ok w' \<and> synced N J d' (view_of w')"
    and "pd_update_team S J z (d, w) = (Ok u, (d', w')) \<Longrightarrow> ok w' \<and> synced N J d' (view_of w')"
    and "pd_update_repo S J r (d, w) = (Ok u, (d', w')) \<Longrightarrow> ok w' \<and> synced N J d' (view_of w')"
  subgoal unfolding pd_update_user_def
    by (rule update_synced [OF collections(1) _ _ assms]) (auto simp: update_user_def split: if_splits)
  subgoal unfolding pd_update_org_def
    by (rule update_synced [OF collections(2) _ _ assms]) (auto simp: update_org_def split: if_splits)
  subgoal unfolding pd_update_team_def
    by (rule update_synced [OF collections(3) _ _ assms]) (auto simp: update_team_def split: if_splits)
  subgoal unfolding pd_update_repo_def
    by (rule update_synced [OF collections(4) _ _ assms]) (auto simp: update_repo_def split: if_splits)
  done

lemma delete_ops:
  assumes "ok w" "synced N J d (view_of w)" "dir_law J" "dir_names N"
  shows "pd_delete_user S J i (d, w) = (Ok u, (d', w')) \<Longrightarrow> ok w' \<and> synced N J d' (view_of w')"
    and "pd_delete_org S J i (d, w) = (Ok u, (d', w')) \<Longrightarrow> ok w' \<and> synced N J d' (view_of w')"
    and "pd_delete_team S J i (d, w) = (Ok u, (d', w')) \<Longrightarrow> ok w' \<and> synced N J d' (view_of w')"
    and "pd_delete_repo S J i (d, w) = (Ok u, (d', w')) \<Longrightarrow> ok w' \<and> synced N J d' (view_of w')"
  subgoal unfolding pd_delete_user_def
    by (rule delete_synced [OF collections(1) _ _ assms]) (auto simp: remove_user_def split: if_splits)
  subgoal unfolding pd_delete_org_def
    by (rule delete_synced [OF collections(2) _ _ assms]) (auto simp: remove_org_def split: if_splits)
  subgoal unfolding pd_delete_team_def
    by (rule delete_synced [OF collections(3) _ _ assms]) (auto simp: remove_team_def split: if_splits)
  subgoal unfolding pd_delete_repo_def
    by (rule delete_synced [OF collections(4) _ _ assms]) (auto simp: remove_repo_def split: if_splits)
  done

lemmas surface_defs = set_org_member_def remove_org_member_def add_team_member_def remove_team_member_def
  set_team_repo_grant_def revoke_team_repo_grant_def set_collaborator_def remove_collaborator_def
  cloned_org_def cloned_team_def cloned_repo_def

lemma exec_synced:
  assumes run: "dir_exec S J op (d, w) = (Ok u, (d', w'))"
    and st: "ok w" "synced N J d (view_of w)" "dir_law J" "dir_names N" and n: "op_names op \<subseteq> N"
  shows "ok w' \<and> synced N J d' (view_of w')"
  using run n create_ops [OF st] update_ops [OF st] delete_ops [OF st]
  by (cases op) (auto simp: surface_defs sbind_eq_Ok)

end

section \<open>Reopening\<close>

text \<open>How one collection sits in the directory.\<close>

definition lens :: "(Directory \<Rightarrow> (string, 'a) hmap) \<Rightarrow> (Directory \<Rightarrow> (string, 'a) hmap \<Rightarrow> Directory) \<Rightarrow>
    ('a \<Rightarrow> string) \<Rightarrow> ('a \<Rightarrow> Directory \<Rightarrow> (IdentityError, Directory) result) \<Rightarrow> bool" where
  "lens get put key_of add \<longleftrightarrow> (\<forall>d x. get (put d x) = x) \<and> (\<forall>d. put d (get d) = d) \<and> (\<forall>d x y. put (put d x) y = put d y)
    \<and> (\<forall>d v. map_of (get d) (key_of v) = None \<longrightarrow> add v d = Ok (put d (hm_insert (key_of v) v (get d))))"

lemma lenses:
  "lens d_users (\<lambda>d m. d\<lparr>d_users := m\<rparr>) u_id add_user" "lens d_orgs (\<lambda>d m. d\<lparr>d_orgs := m\<rparr>) o_id add_org"
  "lens d_teams (\<lambda>d m. d\<lparr>d_teams := m\<rparr>) t_id add_team" "lens d_repos (\<lambda>d m. d\<lparr>d_repos := m\<rparr>) r_id add_repo"
  by (simp_all add: lens_def add_user_def add_org_def add_team_def add_repo_def)

context kv_store_live begin

lemma read_index_returns:
  assumes "works w" "ok w" "NS \<in> N" "idx \<in> N" "index_reads J (view_of w) idx ids"
  obtains w' where "read_index S J idx w = (Ok ids, w')" "works w'" "ok w'" "view_of w' = view_of w"
proof -
  obtain x where x: "reads (j_index J) (view_of w) NS idx x" "ids = (case x of Some l \<Rightarrow> l | None \<Rightarrow> [])"
    using assms(5) by (auto simp: index_reads_def)
  obtain w' where "json_get S (j_index J) Serde to_storage NS idx w = (Ok x, w')" "works w'" "ok w'" "view_of w' = view_of w"
    by (rule json_get_returns [OF assms(1-4) x(1)])
  then show thesis using that x(2) by (simp add: read_index_def sbind_def)
qed

lemma load_objs_returns:
  assumes l: "lens get put key_of add" and N: "NS \<in> N" and V: "view_of w = V"
    and obj: "\<And>i. i \<in> set ids \<Longrightarrow> \<exists>v. m i = Some v \<and> key_of v = i \<and> okey kind i \<in> N \<and> reads c V NS (okey kind i) (Some v)"
    and d: "distinct ids" "\<And>i. i \<in> set ids \<Longrightarrow> map_of (get d) i = None" "hm_ok (get d)" and w: "works w" "ok w"
  shows "\<exists>w' h. load_objs S c kind add ids d w = (Ok (put d h), w') \<and> works w' \<and> ok w' \<and> view_of w' = V \<and> hm_ok h
    \<and> (\<forall>i. map_of h i = (if i \<in> set ids then m i else map_of (get d) i))"
  using V obj d w
proof (induction ids arbitrary: d w)
  case Nil
  have "put d (get d) = d" using l by (simp only: lens_def)
  then have "load_objs S c kind add [] d w = (Ok (put d (get d)), w)" by simp
  then show ?case using Nil.prems(1,5-7) by (intro exI [of _ w] exI [of _ "get d"]) simp
next
  case (Cons i ids)
  obtain v where v: "m i = Some v" "key_of v = i" "okey kind i \<in> N" "reads c (view_of w) NS (okey kind i) (Some v)"
    using Cons.prems(2) [of i] unfolding Cons.prems(1) by (blast intro: list.set_intros(1))
  obtain w1 where w1: "read_obj S c kind i w = (Ok (Some v), w1)" "works w1" "ok w1" "view_of w1 = V"
    by (rule json_get_returns [OF Cons.prems(6,7) N v(3,4)]) (auto simp: read_obj_def Cons.prems(1))
  let ?h = "hm_insert i v (get d)"
  have a: "add v d = Ok (put d ?h)" "get (put d ?h) = ?h" "\<And>x. put (put d ?h) x = put d x"
    using l v(2) Cons.prems(4) [of i] by (simp_all add: lens_def)
  have "\<exists>w' h. load_objs S c kind add ids (put d ?h) w1 = (Ok (put (put d ?h) h), w') \<and> works w' \<and> ok w' \<and> view_of w' = V
      \<and> hm_ok h \<and> (\<forall>j. map_of h j = (if j \<in> set ids then m j else map_of (get (put d ?h)) j))"
  proof (rule Cons.IH [OF w1(4)])
    show "\<exists>v. m j = Some v \<and> key_of v = j \<and> okey kind j \<in> N \<and> reads c V NS (okey kind j) (Some v)" if "j \<in> set ids" for j
      using Cons.prems(2) [of j] that by simp
    show "distinct ids" using Cons.prems(3) by simp
    show "map_of (get (put d ?h)) j = None" if "j \<in> set ids" for j using Cons.prems(3,4) that a(2) by auto
    show "hm_ok (get (put d ?h))" using Cons.prems(5) a(2) by simp
  qed (fact w1)+
  then obtain w' h where h: "load_objs S c kind add ids (put d ?h) w1 = (Ok (put d h), w')" "works w'" "ok w'" "view_of w' = V"
    "hm_ok h" "\<And>j. map_of h j = (if j \<in> set ids then m j else map_of ?h j)"
    unfolding a by (elim exE conjE) blast
  have "load_objs S c kind add (i # ids) d w = (Ok (put d h), w')"
    using w1(1) a(1) h(1) by (simp add: sbind_def)
  moreover have "map_of h j = (if j \<in> set (i # ids) then m j else map_of (get d) j)" for j
    using h(6) [of j] v(1) by simp
  ultimately show ?case using h by blast
qed

lemma collection_returns:
  assumes m: "mirrors N J c key_of kind idx m (view_of w)" and l: "lens get put key_of add"
    and w: "works w" "ok w" and N: "NS \<in> N" "idx \<in> N" and d: "get d = []"
  obtains w1 ids w' h where "read_index S J idx w = (Ok ids, w1)" "load_objs S c kind add ids d w1 = (Ok (put d h), w')"
    "works w'" "ok w'" "view_of w' = view_of w" "hm_ok h" "map_of h = m"
proof -
  obtain ids where ids: "index_reads J (view_of w) idx ids" "distinct ids" "set ids = dom m"
    using m by (auto simp: mirrors_def)
  obtain w1 where w1: "read_index S J idx w = (Ok ids, w1)" "works w1" "ok w1" "view_of w1 = view_of w"
    by (rule read_index_returns [OF w N ids(1)])
  have "\<exists>w' h. load_objs S c kind add ids d w1 = (Ok (put d h), w') \<and> works w' \<and> ok w' \<and> view_of w' = view_of w \<and> hm_ok h
    \<and> (\<forall>i. map_of h i = (if i \<in> set ids then m i else map_of (get d) i))"
  proof (rule load_objs_returns [OF l N(1) w1(4) _ ids(2) _ _ w1(2,3)])
    fix i assume "i \<in> set ids"
    then obtain v where "m i = Some v" using ids(3) by auto
    then show "\<exists>v. m i = Some v \<and> key_of v = i \<and> okey kind i \<in> N \<and> reads c (view_of w) NS (okey kind i) (Some v)"
      using m unfolding mirrors_def by blast
    show "map_of (get d) i = None" using d by simp
  qed (simp add: d hm_ok_def)
  then obtain w' h where h: "load_objs S c kind add ids d w1 = (Ok (put d h), w')" "works w'" "ok w'" "view_of w' = view_of w"
    "hm_ok h" "\<And>i. map_of h i = (if i \<in> set ids then m i else map_of (get d) i)" by blast
  have "map_of h = m"
  proof
    show "map_of h i = m i" for i using h(6) [of i] ids(3) d by (cases "i \<in> dom m") auto
  qed
  then show thesis by (rule that [OF w1(1) h(1-5)])
qed

end

text \<open>Two directories with the same entities.\<close>

definition same_dir :: "Directory \<Rightarrow> Directory \<Rightarrow> bool" where
  "same_dir d d' \<longleftrightarrow> map_of (d_users d') = map_of (d_users d) \<and> map_of (d_orgs d') = map_of (d_orgs d)
    \<and> map_of (d_teams d') = map_of (d_teams d) \<and> map_of (d_repos d') = map_of (d_repos d)"

lemma same_dir_effective_role:
  assumes "same_dir d d'" "hm_ok (d_teams d)" "hm_ok (d_teams d')"
  shows "effective_role d' u r = effective_role d u r"
proof -
  have "grants d' u r = grants d u r" using assms(1) by (simp add: grants_def org_role_def same_dir_def)
  then show ?thesis using effective_role_best [OF assms(2), of u r] effective_role_best [OF assms(3), of u r]
    by (simp only: best_of_Max)
qed

context kv_store_live begin

lemma open_returns:
  assumes s: "synced N J d (view_of w)" and w: "works w" "ok w" and N: "dir_names N"
  shows "\<exists>d' w'. pd_open S J w = (Ok d', w') \<and> works w' \<and> ok w' \<and> view_of w' = view_of w \<and> same_dir d d' \<and> hm_ok (d_teams d')"
proof -
  have m: "mirrors N J (j_user J) u_id ''user'' IDX_USERS (map_of (d_users d)) (view_of w)"
    "mirrors N J (j_org J) o_id ''org'' IDX_ORGS (map_of (d_orgs d)) (view_of w)"
    "mirrors N J (j_team J) t_id ''team'' IDX_TEAMS (map_of (d_teams d)) (view_of w)"
    "mirrors N J (j_repo J) r_id ''repo'' IDX_REPOS (map_of (d_repos d)) (view_of w)"
    using s by (simp_all add: synced_def)
  have n: "NS \<in> N" "IDX_USERS \<in> N" "IDX_ORGS \<in> N" "IDX_TEAMS \<in> N" "IDX_REPOS \<in> N" using N by (auto simp: dir_names_def)
  let ?d0 = "directory_new"
  obtain a1 us b1 hu where u: "read_index S J IDX_USERS w = (Ok us, a1)"
    "load_objs S (j_user J) ''user'' add_user us ?d0 a1 = (Ok (?d0\<lparr>d_users := hu\<rparr>), b1)"
    "works b1" "ok b1" "view_of b1 = view_of w" "hm_ok hu" "map_of hu = map_of (d_users d)"
    by (rule collection_returns [OF m(1) lenses(1) w n(1,2), of ?d0]) (simp add: directory_new_def)
  let ?d1 = "?d0\<lparr>d_users := hu\<rparr>"
  obtain a2 os b2 ho where o': "read_index S J IDX_ORGS b1 = (Ok os, a2)"
    "load_objs S (j_org J) ''org'' add_org os ?d1 a2 = (Ok (?d1\<lparr>d_orgs := ho\<rparr>), b2)"
    "works b2" "ok b2" "view_of b2 = view_of b1" "hm_ok ho" "map_of ho = map_of (d_orgs d)"
    by (rule collection_returns [OF m(2) [folded u(5)] lenses(2) u(3,4) n(1,3), of ?d1]) (simp add: directory_new_def)
  let ?d2 = "?d1\<lparr>d_orgs := ho\<rparr>"
  obtain a3 ts b3 ht where t: "read_index S J IDX_TEAMS b2 = (Ok ts, a3)"
    "load_objs S (j_team J) ''team'' add_team ts ?d2 a3 = (Ok (?d2\<lparr>d_teams := ht\<rparr>), b3)"
    "works b3" "ok b3" "view_of b3 = view_of b2" "hm_ok ht" "map_of ht = map_of (d_teams d)"
    by (rule collection_returns [OF m(3) [folded u(5), folded o'(5)] lenses(3) o'(3,4) n(1,4), of ?d2]) (simp add: directory_new_def)
  let ?d3 = "?d2\<lparr>d_teams := ht\<rparr>"
  obtain a4 rs b4 hr where r: "read_index S J IDX_REPOS b3 = (Ok rs, a4)"
    "load_objs S (j_repo J) ''repo'' add_repo rs ?d3 a4 = (Ok (?d3\<lparr>d_repos := hr\<rparr>), b4)"
    "works b4" "ok b4" "view_of b4 = view_of b3" "hm_ok hr" "map_of hr = map_of (d_repos d)"
    by (rule collection_returns [OF m(4) [folded u(5), folded o'(5), folded t(5)] lenses(4) t(3,4) n(1,5), of ?d3])
      (simp add: directory_new_def)
  have "pd_open S J w = (Ok (?d3\<lparr>d_repos := hr\<rparr>), b4)"
    unfolding pd_open_def by (simp add: sbind_def u(1,2) o'(1,2) t(1,2) r(1,2))
  moreover have "view_of b4 = view_of w" by (simp only: u(5) o'(5) t(5) r(5))
  moreover have "same_dir d (?d3\<lparr>d_repos := hr\<rparr>)" "hm_ok (d_teams (?d3\<lparr>d_repos := hr\<rparr>))"
    by (simp_all add: same_dir_def u(7) o'(7) t(6,7) r(7))
  ultimately show ?thesis using r(3,4) by blast
qed

end

fun dir_run :: "('w, 'e) kv \<Rightarrow> dir_json \<Rightarrow> dir_op list \<Rightarrow> (Directory \<times> 'w, IdentityError, unit) st" where
  "dir_run S J [] = sret ()"
| "dir_run S J (op # ops) = sbind (dir_exec S J op) (\<lambda>_. dir_run S J ops)"

lemma mirrors_empty:
  assumes "\<And>k. V NS k = None"
  shows "mirrors N J c key_of kind idx Map.empty V"
  by (rule mirrorsI [where ids = "[]"]) (auto simp: index_reads_def assms)

lemma synced_new: "(\<And>k. V NS k = None) \<Longrightarrow> synced N J directory_new V"
  by (simp add: synced_def directory_new_def hm_ok_def mirrors_empty)

context kv_store begin

lemma run_synced:
  assumes "dir_run S J ops (d, w) = (Ok u, (d', w'))" "ok w" "synced N J d (view_of w)" "dir_law J" "dir_names N"
    "\<forall>op \<in> set ops. op_names op \<subseteq> N"
  shows "ok w' \<and> synced N J d' (view_of w')"
  using assms
proof (induction ops arbitrary: d w)
  case (Cons op ops)
  obtain d1 w1 where s: "dir_exec S J op (d, w) = (Ok (), (d1, w1))" "dir_run S J ops (d1, w1) = (Ok u, (d', w'))"
    using Cons.prems(1) by (auto simp: sbind_eq_Ok)
  have "ok w1 \<and> synced N J d1 (view_of w1)"
    using exec_synced [OF s(1) Cons.prems(2-5)] Cons.prems(6) by simp
  then show ?case using Cons.IH [OF s(2)] Cons.prems(4-6) by simp
qed simp

end

text \<open>C9: the directory survives a restart. Start from an empty encrypted store, run any sequence of the
  directory's twenty operations that all succeed, and reopen on a disk that works: opening returns, every
  user, organisation, team and repository is as it was, none is added, and every user has the same effective
  role on every repository. The names in \<open>N\<close>, those of the directory's objects, have no hash collision.\<close>

theorem directory_survives_restart:
  assumes "store_law B es N" "dir_law J" "dir_names N"
    and "store_ok B es N w0" "\<forall>k. store_view B es N w0 NS k = None" "\<forall>op \<in> set ops. op_names op \<subseteq> N"
    and "dir_run (enc_kv B es) J ops (directory_new, w0) = (Ok (), (d, w))" "disk_works w"
  shows "\<exists>d' w'. pd_open (enc_kv B es) J w = (Ok d', w') \<and> same_dir d d'
    \<and> (\<forall>u r. effective_role d' u r = effective_role d u r)"
proof -
  have s: "enc_ok B es N w" "synced N J d (store_view B es N w)"
    using enc.run_synced [OF assms(7) _ synced_new assms(2,3,6)] assms(1,4,5) by (auto simp: enc_ok_def)
  obtain d' w' where o': "pd_open (enc_kv B es) J w = (Ok d', w')" "same_dir d d'" "hm_ok (d_teams d')"
    using enc_live.open_returns [OF s(2) assms(8) s(1) assms(3)] by (elim exE conjE) fast
  moreover have "hm_ok (d_teams d)" using s(2) by (simp add: synced_def)
  ultimately show ?thesis using same_dir_effective_role [OF o'(2)] by blast
qed

definition alice :: User where
  "alice = \<lparr>u_id = ''alice'', u_username = ''alice'', u_email = []\<rparr>"

definition demo_dir_json :: dir_json where
  "demo_dir_json = \<lparr>j_user = \<lparr>to_vec = (\<lambda>u. if u = alice then Some [1] else None),
        from_slice = (\<lambda>b. if b = [1] then Some alice else None)\<rparr>,
     j_org = \<lparr>to_vec = (\<lambda>_. None), from_slice = (\<lambda>_. None)\<rparr>,
     j_team = \<lparr>to_vec = (\<lambda>_. None), from_slice = (\<lambda>_. None)\<rparr>,
     j_repo = \<lparr>to_vec = (\<lambda>_. None), from_slice = (\<lambda>_. None)\<rparr>,
     j_index = \<lparr>to_vec = (\<lambda>l. if l = [''alice''] then Some [2] else None),
        from_slice = (\<lambda>b. if b = [2] then Some [''alice''] else None)\<rparr>\<rparr>"

definition dir_demo_names :: "string set" where
  "dir_demo_names = {NS, IDX_USERS, IDX_ORGS, IDX_TEAMS, IDX_REPOS, okey ''user'' ''alice''}"

definition dir_demo_disk :: world where
  "dir_demo_disk = demo_disk\<lparr>w_rng := [replicate 32 1, replicate 12 2, replicate 12 3, replicate 12 4]\<rparr>"

lemma dir_demo_law: "store_law ref_backend demo_store dir_demo_names"
proof -
  have "inj_on (\<lambda>s. sha256 ref_backend (as_bytes s)) dir_demo_names"
    by (simp add: inj_on_def ref_selectors dir_demo_names_def NS_def idx_defs okey_def) code_simp
  then show ?thesis using ref_laws by (simp add: store_law_def demo_store_def)
qed

lemma dir_demo_runs:
  "fst (dir_run (enc_kv ref_backend demo_store) demo_dir_json [CreateUser alice] (directory_new, dir_demo_disk)) = Ok ()"
  by code_simp

lemma json_put_works:
  "valid disk_works (json_put (enc_kv B es) c serde stor r k x) (\<lambda>_. disk_works) disk_works"
  unfolding json_put_def enc_kv_sel by (rule valid_bind valid_works valid_map_err store_put_works)+

lemma json_get_works:
  "valid disk_works (json_get (enc_kv B es) c serde stor r k) (\<lambda>_. disk_works) disk_works"
  unfolding json_get_def enc_kv_sel
proof (rule valid_bind [OF valid_map_err [OF store_get_works]])
  show "valid disk_works (case x of Some b \<Rightarrow> sbind (slift (ok_or serde (from_slice c b))) (\<lambda>v. sret (Some v)) | None \<Rightarrow> sret None)
      (\<lambda>_. disk_works) disk_works" for x
    by (cases x) (simp_all, (rule valid_bind valid_works)+)
qed

lemma add_to_index_works: "valid disk_works (add_to_index (enc_kv B es) J idx i) (\<lambda>_. disk_works) disk_works"
proof -
  have "valid disk_works (if b then json_put (enc_kv B es) c serde stor r k x else sret ()) (\<lambda>_. disk_works) disk_works"
    for b and c :: "string list codec" and serde :: IdentityError and stor r k x
    using json_put_works valid_works(5) by (cases b) auto
  then show ?thesis
    unfolding add_to_index_def read_index_def by (rule valid_bind [OF valid_bind [OF json_get_works valid_works(5)]])
qed

lemma create_user_works:
  assumes "pd_create_user (enc_kv B es) J u (d, w) = (Ok x, (d', w'))" "disk_works w"
  shows "disk_works w'"
proof -
  obtain w1 where w1: "write_obj (enc_kv B es) (j_user J) ''user'' (u_id u) u w = (Ok (), w1)"
    "add_to_index (enc_kv B es) J IDX_USERS (u_id u) w1 = (Ok x, w')"
    using assms(1) by (auto simp: pd_create_user_def sbind_eq_Ok on_dir_Ok on_store_Ok)
  have "disk_works w1" by (rule valid_Ok [OF json_put_works assms(2) w1(1) [unfolded write_obj_def]])
  then show ?thesis by (rule valid_Ok [OF add_to_index_works _ w1(2)])
qed

theorem directory_survives_restart_witness:
  "\<exists>d w d' w'. dir_run (enc_kv ref_backend demo_store) demo_dir_json [CreateUser alice] (directory_new, dir_demo_disk) = (Ok (), (d, w))
    \<and> pd_open (enc_kv ref_backend demo_store) demo_dir_json w = (Ok d', w') \<and> dir_user d' ''alice'' = Some alice"
proof -
  obtain d w where r: "dir_run (enc_kv ref_backend demo_store) demo_dir_json [CreateUser alice] (directory_new, dir_demo_disk) = (Ok (), (d, w))"
    using dir_demo_runs unfolding fst_eq_Ok by fast
  then have c: "pd_create_user (enc_kv ref_backend demo_store) demo_dir_json alice (directory_new, dir_demo_disk) = (Ok (), (d, w))"
    by (auto simp: sbind_eq_Ok)
  have "\<exists>d' w'. pd_open (enc_kv ref_backend demo_store) demo_dir_json w = (Ok d', w') \<and> same_dir d d'
      \<and> (\<forall>u r. effective_role d' u r = effective_role d u r)"
    using dir_demo_law _ _ _ _ _ r
  proof (rule directory_survives_restart)
    show "dir_law demo_dir_json" by (simp add: dir_law_def demo_dir_json_def codec_law_def)
    show "dir_names dir_demo_names" by (simp add: dir_names_def dir_demo_names_def)
    show "store_ok ref_backend demo_store dir_demo_names dir_demo_disk"
      by (simp add: store_ok_def dir_demo_disk_def demo_disk_def)
    show "\<forall>k. store_view ref_backend demo_store dir_demo_names dir_demo_disk NS k = None"
      by (simp add: store_view_def dir_demo_disk_def demo_disk_def split: option.splits)
    show "\<forall>op \<in> set [CreateUser alice]. op_names op \<subseteq> dir_demo_names" by (simp add: dir_demo_names_def alice_def)
    show "disk_works w" by (rule create_user_works [OF c]) (simp add: dir_demo_disk_def demo_disk_def disk_works_def)
  qed
  moreover have "map_of (d_users d) ''alice'' = Some alice"
    using c by (auto simp: pd_create_user_def sbind_eq_Ok on_dir_Ok on_store_Ok add_user_def alice_def split: if_splits)
  ultimately show ?thesis using r unfolding same_dir_def dir_user_def by metis
qed

text \<open>C39: a failed creation is not undone. When storing a new user fails, the user stays in the directory in
  memory, and trying again is refused with \<open>Exists\<close> without touching the store, until a restart forgets the user.\<close>

theorem failed_create_sticks:
  assumes "dir_user d (u_id user) = None" "pd_create_user S J user (d, w) = (Err e, (d', w'))"
  shows "dir_user d' (u_id user) = Some user
    \<and> pd_create_user S J user (d', w') = (Err (Exists (u_id user)), (d', w'))"
proof -
  have "d' = d\<lparr>d_users := hm_insert (u_id user) user (d_users d)\<rparr>"
    using assms by (auto simp: pd_create_user_def sbind_eq_Err on_dir_def on_store_def dir_user_def add_user_def sbind_def
        split: prod.splits sum.splits)
  then show ?thesis
    by (simp add: dir_user_def pd_create_user_def sbind_def on_dir_def add_user_def)
qed

definition full_disk :: world where
  "full_disk = demo_disk\<lparr>w_can_write := (\<lambda>_. False)\<rparr>"

theorem failed_create_sticks_witness:
  "\<exists>e d' w'. pd_create_user (enc_kv ref_backend demo_store) demo_dir_json alice (directory_new, full_disk) = (Err e, (d', w'))
    \<and> pd_create_user (enc_kv ref_backend demo_store) demo_dir_json alice (d', w') = (Err (Exists ''alice''), (d', w'))"
proof -
  have "case pd_create_user (enc_kv ref_backend demo_store) demo_dir_json alice (directory_new, full_disk) of
      (Err _, _) \<Rightarrow> True | (Ok _, _) \<Rightarrow> False" by code_simp
  then obtain e d' w' where r: "pd_create_user (enc_kv ref_backend demo_store) demo_dir_json alice (directory_new, full_disk) = (Err e, (d', w'))"
    by (auto split: prod.splits sum.splits)
  show ?thesis using failed_create_sticks [OF _ r] r by (auto simp: directory_new_def dir_user_def alice_def)
qed

end
