(* ===== verification/Authz.thy ===== *)
theory Authz
  imports Http Identity_Auth Directory_Store
begin

text \<open>
  Access control of the git transport (\<open>secgit-server/src/authz.rs\<close>): a request is mapped to a user by a session
  token or a local password, and the user's role decides. The in-memory part of the persistent directory
  answers; the clock readings of each session check are arguments.
\<close>

record ServerIdentity =
  si_dir :: Directory
  si_local :: LocalAuthenticator
  si_sessions :: SessionStore

definition server_identity_new :: "Directory \<Rightarrow> LocalAuthenticator \<Rightarrow> SessionStore \<Rightarrow> ServerIdentity" where
  "server_identity_new dir local sessions = \<lparr>si_dir = dir, si_local = local, si_sessions = sessions\<rparr>"

text \<open>\<open>check_token\<close> is the call of \<open>validate\<close> on the state, at the readings \<open>t\<close> (for cleaning up) and \<open>now\<close>.\<close>

definition check_token :: "backend \<Rightarrow> u64 \<times> u64 \<Rightarrow> string \<Rightarrow> ServerIdentity \<Rightarrow> Session option \<times> ServerIdentity" where
  "check_token B clock token si =
    (case session_validate B (fst clock) (snd clock) token (si_sessions si) of
       (r, ss) \<Rightarrow> (r, si\<lparr>si_sessions := ss\<rparr>))"

definition basic_authenticate :: "backend \<Rightarrow> authlib \<Rightarrow> u64 \<times> u64 \<Rightarrow> Request \<Rightarrow> ServerIdentity \<Rightarrow> string option \<times> ServerIdentity" where
  "basic_authenticate B L clock req si =
    (case basic_auth req of
       None \<Rightarrow> (None, si)
     | Some (user, secret) \<Rightarrow>
         (case check_token B clock secret si of
            (Some session, si') \<Rightarrow> (Some (s_user_id session), si')
          | (None, si') \<Rightarrow>
              (case authenticate B L (si_local si') user secret of Ok uid \<Rightarrow> (Some uid, si') | Err _ \<Rightarrow> (None, si'))))"

definition server_authenticate ::
    "backend \<Rightarrow> authlib \<Rightarrow> u64 \<times> u64 \<Rightarrow> u64 \<times> u64 \<Rightarrow> Request \<Rightarrow> ServerIdentity \<Rightarrow> string option \<times> ServerIdentity" where
  "server_authenticate B L clock1 clock2 req si =
    (case bearer_token req of
       None \<Rightarrow> basic_authenticate B L clock2 req si
     | Some token \<Rightarrow>
         (case check_token B clock1 token si of
            (Some session, si') \<Rightarrow> (Some (s_user_id session), si')
          | (None, si') \<Rightarrow> basic_authenticate B L clock2 req si'))"

definition required_role :: "bool \<Rightarrow> Role" where
  "required_role write = (if write then Write else Read)"

datatype Decision = Allow string | NotFound | Unauthenticated | Forbidden

definition decide_identity :: "backend \<Rightarrow> authlib \<Rightarrow> u64 \<times> u64 \<Rightarrow> u64 \<times> u64 \<Rightarrow> string \<Rightarrow> bool \<Rightarrow> Request \<Rightarrow>
    ServerIdentity \<Rightarrow> Decision \<times> ServerIdentity" where
  "decide_identity B L clock1 clock2 repo_id write req si =
    (if dir_repo (si_dir si) repo_id = None then (NotFound, si)
     else case server_authenticate B L clock1 clock2 req si of
       (None, si') \<Rightarrow> (Unauthenticated, si')
     | (Some user, si') \<Rightarrow>
         (if can (si_dir si') user repo_id (required_role write) then (Allow user, si') else (Forbidden, si')))"

section \<open>What a decision means\<close>

text \<open>The specification: the user a token stands for, by what the history of the session table grants, and the
  user a request stands for.\<close>

definition session_user :: "backend \<Rightarrow> u64 \<Rightarrow> session_event list \<Rightarrow> u64 \<times> u64 \<Rightarrow> string \<Rightarrow> string option" where
  "session_user B ttl h clock token =
    (case granted B ttl h (session_hash B token) of
       Some x \<Rightarrow> if fst clock < s_expires_at x \<and> snd clock < s_expires_at x \<and> s_mfa_satisfied x
                 then Some (s_user_id x) else None
     | None \<Rightarrow> None)"

definition basic_user :: "backend \<Rightarrow> authlib \<Rightarrow> u64 \<Rightarrow> session_event list \<Rightarrow> LocalAuthenticator \<Rightarrow> u64 \<times> u64 \<Rightarrow> Request \<Rightarrow> string option" where
  "basic_user B L ttl h creds clock req =
    (case basic_auth req of
       None \<Rightarrow> None
     | Some (name, secret) \<Rightarrow>
         (case session_user B ttl h clock secret of
            Some u \<Rightarrow> Some u
          | None \<Rightarrow> (case authenticate B L creds name secret of Ok u \<Rightarrow> Some u | Err _ \<Rightarrow> None)))"

definition request_user ::
    "backend \<Rightarrow> authlib \<Rightarrow> u64 \<Rightarrow> session_event list \<Rightarrow> LocalAuthenticator \<Rightarrow> u64 \<times> u64 \<Rightarrow> u64 \<times> u64 \<Rightarrow> Request \<Rightarrow> string option" where
  "request_user B L ttl h creds clock1 clock2 req =
    (case Option.bind (bearer_token req) (session_user B ttl h clock1) of
       Some u \<Rightarrow> Some u
     | None \<Rightarrow> basic_user B L ttl h creds clock2 req)"

text \<open>The state of the server and the history of its sessions.\<close>

definition serves :: "backend \<Rightarrow> u64 \<Rightarrow> u64 \<Rightarrow> session_event list \<Rightarrow> ServerIdentity \<Rightarrow> bool" where
  "serves B ttl t h si \<longleftrightarrow> session_runs B ttl h (si_sessions si) \<and> (\<forall>e \<in> set h. event_clock e \<le> t)"

definition only_checks :: "session_event list \<Rightarrow> bool" where
  "only_checks h \<longleftrightarrow> list_all (\<lambda>e. case e of Validated _ _ _ \<Rightarrow> True | _ \<Rightarrow> False) h"

lemma granted_checks: "only_checks h' \<Longrightarrow> granted B ttl (h @ h') = granted B ttl h"
  by (induction h' arbitrary: h rule: rev_induct)
    (auto simp: only_checks_def granted_def split: session_event.splits)

lemma session_user_checks [simp]: "only_checks h' \<Longrightarrow> session_user B ttl (h @ h') = session_user B ttl h"
  by (simp add: session_user_def granted_checks fun_eq_iff)

lemma basic_user_checks [simp]: "only_checks h' \<Longrightarrow> basic_user B L ttl (h @ h') = basic_user B L ttl h"
  by (intro ext) (simp only: basic_user_def session_user_checks)

lemma serves_mono: "serves B ttl t h si \<Longrightarrow> t \<le> t' \<Longrightarrow> serves B ttl t' h si"
  by (auto simp: serves_def)

text \<open>\<open>checked\<close>: only the session table changed, by checks.\<close>

definition checked :: "backend \<Rightarrow> u64 \<Rightarrow> u64 \<Rightarrow> session_event list \<Rightarrow> ServerIdentity \<Rightarrow> ServerIdentity \<Rightarrow> bool" where
  "checked B ttl t h si si' \<longleftrightarrow> (\<exists>h'. only_checks h' \<and> serves B ttl t (h @ h') si')
    \<and> si_dir si' = si_dir si \<and> si_local si' = si_local si"

lemma check_token_spec:
  assumes "serves B ttl (fst clock) h si" "check_token B clock token si = (r, si')"
  shows "map_option s_user_id r = session_user B ttl h clock token \<and> serves B ttl (fst clock) (h @ [Validated (fst clock) (snd clock) token]) si'
    \<and> si_dir si' = si_dir si \<and> si_local si' = si_local si"
proof -
  obtain ss where ss: "session_validate B (fst clock) (snd clock) token (si_sessions si) = (r, ss)" "si' = si\<lparr>si_sessions := ss\<rparr>"
    using assms(2) by (auto simp: check_token_def split: prod.splits)
  have "r = fst (session_validate B (fst clock) (snd clock) token (si_sessions si))" by (simp add: ss(1))
  then have "map_option s_user_id r = session_user B ttl h clock token"
    using session_validate_granted [of B ttl h "si_sessions si" "fst clock" "snd clock" token] assms(1)
    by (simp add: serves_def session_user_def split: option.split)
  then show ?thesis using assms(1) session_runs.validate [OF _ ss(1)] ss(2) by (simp add: serves_def)
qed

lemma basic_authenticate_spec:
  assumes "serves B ttl (fst clock) h si" "basic_authenticate B L clock req si = (r, si')"
  shows "r = basic_user B L ttl h (si_local si) clock req \<and> checked B ttl (fst clock) h si si'"
proof (cases "basic_auth req")
  case None
  then show ?thesis using assms
    by (auto simp: basic_authenticate_def basic_user_def checked_def only_checks_def intro!: exI [of _ "[]"])
next
  case (Some ns)
  obtain name secret where ns: "ns = (name, secret)" by fastforce
  obtain q si1 where q: "check_token B clock secret si = (q, si1)" by fastforce
  note t = check_token_spec [OF assms(1) q]
  have s: "si' = si1" using assms(2) by (auto simp: basic_authenticate_def Some ns q split: option.splits sum.splits)
  have "r = basic_user B L ttl h (si_local si) clock req"
    using assms(2) t by (auto simp: basic_authenticate_def basic_user_def Some ns q split: option.splits sum.splits)
  moreover have "checked B ttl (fst clock) h si si1"
    unfolding checked_def by (intro conjI exI [of _ "[Validated (fst clock) (snd clock) secret]"]) (use t in \<open>simp_all add: only_checks_def\<close>)
  ultimately show ?thesis using s by simp
qed

lemma checked_trans:
  assumes "only_checks h1" "checked B ttl t (h @ h1) si1 si'" "si_dir si1 = si_dir si" "si_local si1 = si_local si"
  shows "checked B ttl t h si si'"
proof -
  obtain h' where "only_checks h'" "serves B ttl t (h @ h1 @ h') si'" "si_dir si' = si_dir si1" "si_local si' = si_local si1"
    using assms(2) by (auto simp: checked_def)
  then show ?thesis unfolding checked_def using assms(1,3,4)
    by (intro conjI exI [of _ "h1 @ h'"]) (simp_all add: only_checks_def)
qed

lemma server_authenticate_spec:
  assumes "serves B ttl (fst clock1) h si" "fst clock1 \<le> fst clock2" "server_authenticate B L clock1 clock2 req si = (r, si')"
  shows "r = request_user B L ttl h (si_local si) clock1 clock2 req \<and> checked B ttl (fst clock2) h si si'"
proof (cases "bearer_token req")
  case None
  then show ?thesis using basic_authenticate_spec [OF serves_mono [OF assms(1,2)]] assms(3)
    by (simp add: server_authenticate_def request_user_def)
next
  case (Some token)
  obtain q si1 where q: "check_token B clock1 token si = (q, si1)" by fastforce
  let ?h1 = "[Validated (fst clock1) (snd clock1) token]"
  note t = check_token_spec [OF assms(1) q]
  have c: "only_checks ?h1" by (simp add: only_checks_def)
  have sv: "serves B ttl (fst clock2) (h @ ?h1) si1" using t serves_mono [OF _ assms(2)] by blast
  show ?thesis
  proof (cases q)
    case None
    then have "basic_authenticate B L clock2 req si1 = (r, si')" using assms(3) by (simp add: server_authenticate_def Some q)
    note b = basic_authenticate_spec [OF sv this]
    have "checked B ttl (fst clock2) h si si'" using b t by (intro checked_trans [OF c, of B ttl _ h si1 si' si]) simp_all
    moreover have "r = request_user B L ttl h (si_local si) clock1 clock2 req"
      using b t c None by (simp add: request_user_def Some)
    ultimately show ?thesis by blast
  next
    case (Some s)
    then have "r = Some (s_user_id s)" "si' = si1" using assms(3) \<open>bearer_token req = Some token\<close>
      by (simp_all add: server_authenticate_def q)
    moreover have "session_user B ttl h clock1 token = Some (s_user_id s)" using t Some by simp
    ultimately show ?thesis using t sv c \<open>bearer_token req = Some token\<close>
      by (auto simp: request_user_def checked_def)
  qed
qed

text \<open>C4: the whole access decision of a git request. Whatever logins, second factors, checks and revocations made
  the session table, and with a clock that does not go back, a request on an identity-backed repository is
  answered with \<open>NotFound\<close> exactly when the directory has no such repository; otherwise with \<open>Unauthenticated\<close>
  when neither its bearer token, nor its Basic password read as a token, is granted by that history, nor the
  Basic credentials authenticate a local account; and otherwise it is allowed, as the user so found, exactly
  when some grant of the directory to that user reaches the role the operation needs. Deciding changes only the
  session table, and the table keeps meaning the same history.\<close>

theorem decide_identity_spec:
  assumes "serves B ttl (fst clock1) h si" "fst clock1 \<le> fst clock2" "hm_ok (d_teams (si_dir si))"
    "decide_identity B L clock1 clock2 repo_id write req si = (decision, si')"
  shows "decision =
      (if dir_repo (si_dir si) repo_id = None then NotFound
       else case request_user B L ttl h (si_local si) clock1 clock2 req of
         None \<Rightarrow> Unauthenticated
       | Some user \<Rightarrow>
           if \<exists>r \<in> grants (si_dir si) user repo_id. (if write then Write else Read) \<le> r then Allow user else Forbidden)
    \<and> checked B ttl (fst clock2) h si si'"
proof (cases "dir_repo (si_dir si) repo_id = None")
  case True
  then have "checked B ttl (fst clock2) h si si" using serves_mono [OF assms(1,2)]
    by (auto simp: checked_def only_checks_def intro!: exI [of _ "[]"])
  then show ?thesis using True assms(4) by (simp add: decide_identity_def)
next
  case False
  obtain r si1 where r: "server_authenticate B L clock1 clock2 req si = (r, si1)" by fastforce
  note a = server_authenticate_spec [OF assms(1,2) r]
  have d: "si_dir si1 = si_dir si" using a by (simp add: checked_def)
  have "si' = si1" using assms(4) False by (auto simp: decide_identity_def r split: option.splits if_splits)
  moreover have "decision = (case r of None \<Rightarrow> Unauthenticated | Some user \<Rightarrow>
      if \<exists>r \<in> grants (si_dir si) user repo_id. (if write then Write else Read) \<le> r then Allow user else Forbidden)"
  proof (cases r)
    case (Some u)
    show ?thesis using assms(4) False
      by (cases "can (si_dir si) u repo_id (required_role write)")
        (simp_all add: decide_identity_def r d Some flip: can_iff_grant [OF assms(3)] required_role_def)
  qed (use assms(4) False in \<open>simp add: decide_identity_def r\<close>)
  ultimately show ?thesis using a by (simp only: False if_False)
qed

definition demo_identity :: ServerIdentity where
  "demo_identity = server_identity_new demo_directory
     [(''bob'', (''bob'', \<lparr>ph_salt_hex = [], ph_hash_hex = hex_encode ref_backend (as_bytes ''pw''), ph_iterations = 1\<rparr>))]
     (session_new 60)"

definition demo_push :: Request where
  "demo_push = \<lparr>rq_method = ''POST'', rq_path = ''/r'', rq_query = [], rq_headers = [(''authorization'', ''Basic Ym9iOnB3'')],
     rq_body = [], rq_peer_ip = []\<rparr>"

theorem decide_identity_spec_witness:
  "\<exists>si'. decide_identity ref_backend demo_authlib (5, 5) (5, 5) ''r'' True demo_push demo_identity = (Allow ''bob'', si')
    \<and> (\<exists>r \<in> grants demo_directory ''bob'' ''r''. Write \<le> r)"
proof -
  obtain d si' where r: "decide_identity ref_backend demo_authlib (5, 5) (5, 5) ''r'' True demo_push demo_identity = (d, si')"
    by fastforce
  have "fst (decide_identity ref_backend demo_authlib (5, 5) (5, 5) ''r'' True demo_push demo_identity) = Allow ''bob''"
    by code_simp
  then have d: "d = Allow ''bob''" by (simp add: r)
  have s: "serves ref_backend 60 (fst (5, 5)) [] demo_identity"
    by (simp add: serves_def demo_identity_def server_identity_new_def session_runs.start)
  have t: "hm_ok (d_teams (si_dir demo_identity))"
    by (simp add: demo_identity_def server_identity_new_def demo_directory_def hm_ok_def)
  from decide_identity_spec [OF s _ t r] d have "\<exists>r \<in> grants (si_dir demo_identity) ''bob'' ''r''. Write \<le> r"
    by (auto split: if_splits option.splits)
  then show ?thesis using r d by (simp add: demo_identity_def server_identity_new_def)
qed

end
