(* ===== verification/Pow.thy ===== *)
theory Pow
  imports Utf8 Crypto_Properties
begin

text \<open>
  The proof-of-work gate of the anonymous tier (\<open>secgit-server/src/pow.rs\<close>), with its configuration. The clock is
  an argument, the randomness a list of draws. Adding the time to live to the clock wraps, as the release
  build does.
\<close>

record PowConfig =
  pow_enabled :: bool
  difficulty_bits :: u32
  pow_ttl_secs :: u64

definition pow_config_default :: PowConfig where
  "pow_config_default = \<lparr>pow_enabled = False, difficulty_bits = 20, pow_ttl_secs = 300\<rparr>"

record PowGate =
  pg_cfg :: PowConfig
  pg_secret :: bytes
  pg_spent :: "(string, u64) hmap"

definition pow_new :: "PowConfig \<Rightarrow> rng \<Rightarrow> PowGate \<times> rng" where
  "pow_new cfg rs =
    (case random_bytes 32 rs of (r, rs') \<Rightarrow>
       (\<lparr>pg_cfg = cfg, pg_secret = (case r of Ok v \<Rightarrow> v | Err _ \<Rightarrow> replicate 32 0), pg_spent = []\<rparr>, rs'))"

definition client_hash8 :: "backend \<Rightarrow> string \<Rightarrow> string" where
  "client_hash8 B client = hex_encode B (take 8 (sha256 B (as_bytes client)))"

definition pow_base :: "string \<Rightarrow> string \<Rightarrow> string \<Rightarrow> string" where
  "pow_base rand ts ch = rand @ ''.'' @ ts @ ''.'' @ ch"

definition pow_mac :: "backend \<Rightarrow> PowGate \<Rightarrow> string \<Rightarrow> string" where
  "pow_mac B g base = hex_encode B (hmac256 B (pg_secret g) (as_bytes base))"

definition issue :: "backend \<Rightarrow> PowGate \<Rightarrow> u64 \<Rightarrow> string \<Rightarrow> rng \<Rightarrow> string \<times> rng" where
  "issue B g now client rs =
    (case random_bytes 12 rs of (r, rs') \<Rightarrow>
       let rand_hex = hex_encode B (case r of Ok v \<Rightarrow> v | Err _ \<Rightarrow> []);
           base = pow_base rand_hex (dec (unat now)) (client_hash8 B client)
       in (base @ ''.'' @ pow_mac B g base, rs'))"

definition leading_zeros8 :: "byte \<Rightarrow> nat" where
  "leading_zeros8 b = length (takeWhile (\<lambda>i. \<not> bit b i) [7, 6, 5, 4, 3, 2, 1, 0])"

fun leading_zero_bits :: "bytes \<Rightarrow> nat" where
  "leading_zero_bits [] = 0"
| "leading_zero_bits (b # bs) = (if b = 0 then 8 + leading_zero_bits bs else leading_zeros8 b)"

definition spend :: "string \<Rightarrow> u64 \<Rightarrow> PowGate \<Rightarrow> bool \<times> PowGate" where
  "spend token now g =
    (let spent = hm_retain (\<lambda>_ exp. exp > now) (pg_spent g) in
     if map_of spent token \<noteq> None then (False, g\<lparr>pg_spent := spent\<rparr>)
     else (True, g\<lparr>pg_spent := hm_insert token (now + pow_ttl_secs (pg_cfg g)) spent\<rparr>))"

definition pow_verify :: "backend \<Rightarrow> u64 \<Rightarrow> string \<Rightarrow> string \<Rightarrow> PowGate \<Rightarrow> bool \<times> PowGate" where
  "pow_verify B now submission client g =
    (if \<not> pow_enabled (pg_cfg g) then (True, g)
     else case split_once CHR '':'' submission of
       None \<Rightarrow> (False, g)
     | Some (token, nonce) \<Rightarrow>
         (case split_on CHR ''.'' token of
            [p0, p1, p2, p3] \<Rightarrow>
              (if \<not> ct_eq (as_bytes (pow_mac B g (pow_base p0 p1 p2))) (as_bytes p3) then (False, g)
               else case parse_unsigned 64 p1 of
                 None \<Rightarrow> (False, g)
               | Some ts \<Rightarrow>
                   if unat now - ts > unat (pow_ttl_secs (pg_cfg g)) then (False, g)
                   else if \<not> ct_eq (as_bytes (client_hash8 B client)) (as_bytes p2) then (False, g)
                   else case spend token now g of
                     (False, g') \<Rightarrow> (False, g')
                   | (True, g') \<Rightarrow>
                       (unat (difficulty_bits (pg_cfg g)) \<le> leading_zero_bits (sha256 B (as_bytes (token @ '':'' @ nonce))), g'))
          | _ \<Rightarrow> (False, g)))"

section \<open>A token is accepted once\<close>

text \<open>The second part of a token, read as a number, and that no sum with the time to live wraps.\<close>

definition token_ts :: "string \<Rightarrow> nat option" where
  "token_ts token = (case split_on CHR ''.'' token of [_, p1, _, _] \<Rightarrow> parse_unsigned 64 p1 | _ \<Rightarrow> None)"

lemma spend_cfg [simp]: "pg_cfg (snd (spend token now g)) = pg_cfg g" "pg_secret (snd (spend token now g)) = pg_secret g"
  by (simp_all add: spend_def Let_def)

lemma spend_ok [simp]: "hm_ok (pg_spent g) \<Longrightarrow> hm_ok (pg_spent (snd (spend token now g)))"
  by (simp add: spend_def Let_def)

lemma spend_keeps:
  assumes "hm_ok (pg_spent g)" "map_of (pg_spent g) token = Some exp" "now < exp"
  shows "map_of (pg_spent (snd (spend other now g))) token = Some exp \<and> (other = token \<longrightarrow> \<not> fst (spend other now g))"
  using assms by (auto simp: spend_def Let_def map_of_hm_retain)

lemma spend_records:
  "fst (spend token now g) \<Longrightarrow> map_of (pg_spent (snd (spend token now g))) token = Some (now + pow_ttl_secs (pg_cfg g))"
  by (simp add: spend_def Let_def split: if_splits)

text \<open>A check leaves the gate alone and does not accept, or it spends the token of the submission.\<close>

lemma pow_verify_cases:
  assumes "pow_enabled (pg_cfg g)" "pow_verify B now submission client g = (r, g')"
  shows "g' = g \<and> \<not> r \<or> (\<exists>token nonce ts. split_once CHR '':'' submission = Some (token, nonce) \<and> token_ts token = Some ts
    \<and> unat now - ts \<le> unat (pow_ttl_secs (pg_cfg g)) \<and> g' = snd (spend token now g) \<and> (r \<longrightarrow> fst (spend token now g)))"
proof (cases "g' = g \<and> \<not> r")
  case False
  then obtain token nonce p0 p1 p2 p3 where s: "split_once CHR '':'' submission = Some (token, nonce)"
    "split_on CHR ''.'' token = [p0, p1, p2, p3]"
    using assms by (auto simp: pow_verify_def split: option.splits list.splits)
  obtain ts where ts: "parse_unsigned 64 p1 = Some ts" "unat now - ts \<le> unat (pow_ttl_secs (pg_cfg g))"
    using assms False by (auto simp: pow_verify_def s split: option.splits if_splits)
  have "g' = snd (spend token now g) \<and> (r \<longrightarrow> fst (spend token now g))"
    using assms False by (auto simp: pow_verify_def s ts(1) split: if_splits prod.splits bool.splits)
  then show ?thesis using s ts by (auto simp: token_ts_def)
qed simp

text \<open>The checks of a list of submissions, each with its clock reading and its client.\<close>

definition pow_run :: "backend \<Rightarrow> (u64 \<times> string \<times> string) list \<Rightarrow> PowGate \<Rightarrow> PowGate" where
  "pow_run B evs g = fold (\<lambda>(t, submission, client) g. snd (pow_verify B t submission client g)) evs g"

lemma pow_verify_cfg [simp]: "pg_cfg (snd (pow_verify B now submission client g)) = pg_cfg g"
proof (cases "pow_enabled (pg_cfg g)")
  case True
  then show ?thesis using pow_verify_cases [OF True surjective_pairing, of B now submission client] spend_cfg by metis
qed (simp add: pow_verify_def)

lemma pow_run_cfg [simp]: "pg_cfg (pow_run B evs g) = pg_cfg g"
  by (induction evs arbitrary: g) (auto simp: pow_run_def)

lemma pow_run_keeps:
  assumes "pow_enabled (pg_cfg g)" "hm_ok (pg_spent g)" "map_of (pg_spent g) token = Some exp" "\<forall>e \<in> set evs. fst e < exp"
  shows "map_of (pg_spent (pow_run B evs g)) token = Some exp \<and> hm_ok (pg_spent (pow_run B evs g))"
  using assms
proof (induction evs arbitrary: g)
  case (Cons e evs)
  obtain t submission client where e: "e = (t, submission, client)" by (cases e)
  obtain r g' where v: "pow_verify B t submission client g = (r, g')" by fastforce
  have "g' = g \<or> (\<exists>other. g' = snd (spend other t g))" using pow_verify_cases [OF Cons.prems(1) v] by blast
  then have "pg_cfg g' = pg_cfg g" "hm_ok (pg_spent g')" "map_of (pg_spent g') token = Some exp"
    using Cons.prems spend_keeps [OF Cons.prems(2,3)] by (auto simp: e)
  with Cons.IH [of g'] Cons.prems show ?case by (simp add: pow_run_def e v)
qed (simp add: pow_run_def)

text \<open>C29: a token of the proof-of-work gate is accepted once, but for one instant. Between two acceptances of the
  same token, whatever was submitted between them, the whole time to live lies, and the first was not after
  the time stamp in the token. A token is issued with the clock as its time stamp, so the two acceptances are
  at the very second of the issue and at the last second of its life, where the entry has just been swept.\<close>

theorem pow_token_single_use:
  assumes "pow_enabled (pg_cfg g)" "hm_ok (pg_spent g)" "unat t1 + unat (pow_ttl_secs (pg_cfg g)) < 2 ^ 64"
    "split_once CHR '':'' s1 = Some (token, nonce1)" "split_once CHR '':'' s2 = Some (token, nonce2)"
    "pow_verify B t1 s1 client1 g = (True, g1)" "\<forall>e \<in> set evs. fst e \<le> t2"
    "fst (pow_verify B t2 s2 client2 (pow_run B evs g1))"
  shows "\<exists>ts. token_ts token = Some ts \<and> unat t1 \<le> ts \<and> unat t1 + unat (pow_ttl_secs (pg_cfg g)) \<le> unat t2
    \<and> unat t2 \<le> ts + unat (pow_ttl_secs (pg_cfg g))"
proof -
  let ?ttl = "pow_ttl_secs (pg_cfg g)" and ?g2 = "pow_run B evs g1"
  have g1: "g1 = snd (spend token t1 g)" "fst (spend token t1 g)"
    using pow_verify_cases [OF assms(1,6)] assms(4) by auto
  have c1: "pow_enabled (pg_cfg g1)" "hm_ok (pg_spent g1)" "map_of (pg_spent g1) token = Some (t1 + ?ttl)" "pg_cfg g1 = pg_cfg g"
    using assms(1,2) g1 spend_records [OF g1(2)] by simp_all
  have u: "unat (t1 + ?ttl) = unat t1 + unat ?ttl" using assms(3) by (simp add: unat_word_ariths)
  have keeps: "map_of (pg_spent ?g2) token = Some (t1 + ?ttl) \<and> hm_ok (pg_spent ?g2)" if "t2 < t1 + ?ttl"
    using pow_run_keeps [OF c1(1-3), of evs B] assms(7) that by force
  have cfg2: "pg_cfg ?g2 = pg_cfg g" by (simp add: c1(4))
  obtain g' where v: "pow_verify B t2 s2 client2 ?g2 = (True, g')" using assms(8) by (cases "pow_verify B t2 s2 client2 ?g2") auto
  obtain ts where ts: "token_ts token = Some ts" "unat t2 - ts \<le> unat ?ttl" "fst (spend token t2 ?g2)"
    using pow_verify_cases [OF _ v] assms(1,5) cfg2 by auto
  have "\<not> t2 < t1 + ?ttl" using keeps ts(3) spend_keeps [of ?g2 token "t1 + ?ttl" t2 token] by blast
  then have "unat t1 + unat ?ttl \<le> unat t2" using u by (simp add: word_less_nat_alt)
  then show ?thesis using ts by auto
qed

definition demo_gate :: PowGate where
  "demo_gate = \<lparr>pg_cfg = \<lparr>pow_enabled = True, difficulty_bits = 0, pow_ttl_secs = 5\<rparr>, pg_secret = replicate 32 1, pg_spent = []\<rparr>"

text \<open>Tags and digests that are empty, so that the token is short.\<close>

definition short_backend :: backend where
  "short_backend = ref_backend\<lparr>hmac256 := (\<lambda>_ _. []), sha256 := (\<lambda>_. [])\<rparr>"

definition spent_gate :: PowGate where
  "spent_gate = demo_gate\<lparr>pg_spent := [(''0.9..'', 14)]\<rparr>"

theorem pow_token_single_use_witness:
  "pow_verify short_backend 9 ''0.9..:1'' ''c'' demo_gate = (True, spent_gate)
   \<and> fst (pow_verify short_backend 14 ''0.9..:1'' ''c'' spent_gate)
   \<and> (\<exists>ts. token_ts ''0.9..'' = Some ts \<and> 9 \<le> ts \<and> 14 \<le> ts + 5)"
proof -
  have o: "split_once CHR '':'' ''0.9..:1'' = Some (''0.9..'', ''1'')" by code_simp
  have f: "pow_verify short_backend 9 ''0.9..:1'' ''c'' demo_gate = (True, spent_gate)" by code_simp
  have s: "fst (pow_verify short_backend 14 ''0.9..:1'' ''c'' (pow_run short_backend [] spent_gate))" by code_simp
  have "pow_enabled (pg_cfg demo_gate)" "hm_ok (pg_spent demo_gate)" "unat (9 :: u64) + unat (pow_ttl_secs (pg_cfg demo_gate)) < 2 ^ 64"
    by (simp_all add: demo_gate_def hm_ok_def)
  from pow_token_single_use [OF this o o f _ s]
  have "\<exists>ts. token_ts ''0.9..'' = Some ts \<and> 9 \<le> ts \<and> 14 \<le> ts + 5" by (auto simp: demo_gate_def)
  then show ?thesis using f s by (simp add: pow_run_def)
qed

end
