(* ===== verification/Tiers.thy ===== *)
theory Tiers
  imports Store_Refinement
begin

text \<open>
  The tiers of a deployment (\<open>crates/secgit-api/src/lib.rs\<close>): anonymous repositories that expire, with the
  background sweep of \<open>main.rs\<close> that wipes them, and the quotas of the accounts. Clock readings are arguments,
  one for each time the code reads the clock. The order in which a map is listed is the order of its list.
\<close>

section \<open>Configuration\<close>

datatype ApiError = Disabled string | RateLimited | BadToken | SizeCap | Crypto

datatype Tier = Anonymous | Light | Managed

record TierLimits =
  max_repos :: u32
  max_bytes_per_repo :: u64
  max_total_bytes :: u64

definition light_sandbox :: TierLimits where
  "light_sandbox = \<lparr>max_repos = 10, max_bytes_per_repo = 100 * 1024 * 1024, max_total_bytes = 500 * 1024 * 1024\<rparr>"

definition managed :: TierLimits where
  "managed = \<lparr>max_repos = - 1, max_bytes_per_repo = - 1, max_total_bytes = - 1\<rparr>"

record DeploymentConfig =
  sandbox_mode :: bool
  anonymous_enabled :: bool
  light_enabled :: bool
  managed_enabled :: bool
  ephemeral_ttl_secs :: u64
  ephemeral_max_bytes :: u64
  anon_creates_per_window :: u32
  rate_window_secs :: u64
  light_limits :: TierLimits
  managed_limits :: TierLimits
  managed_requires_byok :: bool

definition deployment_default :: DeploymentConfig where
  "deployment_default = \<lparr>sandbox_mode = True, anonymous_enabled = True, light_enabled = True, managed_enabled = False,
     ephemeral_ttl_secs = 3600, ephemeral_max_bytes = 50 * 1024 * 1024, anon_creates_per_window = 5,
     rate_window_secs = 3600, light_limits = light_sandbox, managed_limits = managed, managed_requires_byok = True\<rparr>"

fun tier_enabled :: "DeploymentConfig \<Rightarrow> Tier \<Rightarrow> bool" where
  "tier_enabled cfg Anonymous = anonymous_enabled cfg"
| "tier_enabled cfg Light = light_enabled cfg"
| "tier_enabled cfg Managed = managed_enabled cfg"

fun limits_for :: "DeploymentConfig \<Rightarrow> Tier \<Rightarrow> TierLimits" where
  "limits_for cfg Anonymous = \<lparr>max_repos = anon_creates_per_window cfg, max_bytes_per_repo = ephemeral_max_bytes cfg,
     max_total_bytes = ephemeral_max_bytes cfg\<rparr>"
| "limits_for cfg Light = light_limits cfg"
| "limits_for cfg Managed = managed_limits cfg"

definition admit_managed :: "DeploymentConfig \<Rightarrow> bool \<Rightarrow> (ApiError, TierLimits) result" where
  "admit_managed cfg byok_present =
    (if \<not> managed_enabled cfg then Err (Disabled ''managed tier'')
     else if managed_requires_byok cfg \<and> \<not> byok_present then Err (Disabled ''managed tier requires BYOK'')
     else Ok (managed_limits cfg))"

section \<open>Ephemeral repositories\<close>

record EphemeralRepo =
  ep_repo_id :: string
  ep_push_token :: string
  ep_expires_at :: u64
  ep_max_bytes :: u64

record EphemeralState =
  es_token :: string
  es_expires_at :: u64
  es_max_bytes :: u64
  es_used_bytes :: u64

record EphemeralRepos =
  er_cfg :: DeploymentConfig
  er_repos :: "(string, EphemeralState) hmap"
  er_creates :: "(string, u64 \<times> u32) hmap"

definition eph_new :: "DeploymentConfig \<Rightarrow> EphemeralRepos" where
  "eph_new cfg = \<lparr>er_cfg = cfg, er_repos = [], er_creates = []\<rparr>"

definition eph_gc :: "u64 \<Rightarrow> EphemeralRepos \<Rightarrow> string list \<times> EphemeralRepos" where
  "eph_gc t m =
    (let expired = map fst (filter (\<lambda>(_, s). es_expires_at s \<le> t) (er_repos m))
     in (expired, m\<lparr>er_repos := fold hm_remove expired (er_repos m)\<rparr>))"

definition enforce_rate :: "u64 \<Rightarrow> string \<Rightarrow> EphemeralRepos \<Rightarrow> (ApiError, unit) result \<times> EphemeralRepos" where
  "enforce_rate t client_key m =
    (let e0 = (case map_of (er_creates m) client_key of Some e \<Rightarrow> e | None \<Rightarrow> (t, 0));
         e1 = (if sat_sub t (fst e0) \<ge> rate_window_secs (er_cfg m) then (t, 0) else e0)
     in if snd e1 \<ge> anon_creates_per_window (er_cfg m)
        then (Err RateLimited, m\<lparr>er_creates := hm_insert client_key e1 (er_creates m)\<rparr>)
        else (Ok (), m\<lparr>er_creates := hm_insert client_key (fst e1, snd e1 + 1) (er_creates m)\<rparr>))"

text \<open>The identifiers the expiry returns are dropped here, as in the code.\<close>

definition eph_create :: "backend \<Rightarrow> u64 \<Rightarrow> u64 \<Rightarrow> u64 \<Rightarrow> string \<Rightarrow> (EphemeralRepos \<times> rng, ApiError, EphemeralRepo) st" where
  "eph_create B t1 t2 t3 client_key = (\<lambda>(m, rs).
    if \<not> anonymous_enabled (er_cfg m) then (Err (Disabled ''anonymous tier''), (m, rs))
    else case enforce_rate t1 client_key m of
      (Err e, m1) \<Rightarrow> (Err e, (m1, rs))
    | (Ok _, m1) \<Rightarrow>
        let m2 = snd (eph_gc t2 m1) in
        (case random_bytes 24 rs of
           (Err _, rs1) \<Rightarrow> (Err Crypto, (m2, rs1))
         | (Ok token, rs1) \<Rightarrow>
             (case random_bytes 8 rs1 of
                (Err _, rs2) \<Rightarrow> (Err Crypto, (m2, rs2))
              | (Ok id_suffix, rs2) \<Rightarrow>
                  let repo_id = ''ephemeral/'' @ hex_encode B id_suffix;
                      expires_at = t3 + ephemeral_ttl_secs (er_cfg m2);
                      state = \<lparr>es_token = hex_encode B token, es_expires_at = expires_at,
                        es_max_bytes = ephemeral_max_bytes (er_cfg m2), es_used_bytes = 0\<rparr>
                  in (Ok \<lparr>ep_repo_id = repo_id, ep_push_token = hex_encode B token, ep_expires_at = expires_at,
                        ep_max_bytes = ephemeral_max_bytes (er_cfg m2)\<rparr>,
                      (m2\<lparr>er_repos := hm_insert repo_id state (er_repos m2)\<rparr>, rs2)))))"

definition authorize_push :: "u64 \<Rightarrow> u64 \<Rightarrow> string \<Rightarrow> string \<Rightarrow> EphemeralRepos \<Rightarrow> (ApiError, unit) result \<times> EphemeralRepos" where
  "authorize_push t1 t2 repo_id token m =
    (let m' = snd (eph_gc t1 m) in
     case map_of (er_repos m') repo_id of
       None \<Rightarrow> (Err BadToken, m')
     | Some st \<Rightarrow>
         (if es_expires_at st \<le> t2 then Err BadToken
          else if \<not> ct_eq (as_bytes (es_token st)) (as_bytes token) then Err BadToken
          else Ok (), m'))"

definition eph_account_bytes :: "string \<Rightarrow> u64 \<Rightarrow> EphemeralRepos \<Rightarrow> (ApiError, unit) result \<times> EphemeralRepos" where
  "eph_account_bytes repo_id n m =
    (case map_of (er_repos m) repo_id of
       None \<Rightarrow> (Err BadToken, m)
     | Some st \<Rightarrow>
         let new_total = sat_add (es_used_bytes st) n in
         if new_total > es_max_bytes st then (Err SizeCap, m)
         else (Ok (), m\<lparr>er_repos := hm_insert repo_id (st\<lparr>es_used_bytes := new_total\<rparr>) (er_repos m)\<rparr>))"

definition is_ephemeral :: "EphemeralRepos \<Rightarrow> string \<Rightarrow> bool" where
  "is_ephemeral m repo_id \<longleftrightarrow> map_of (er_repos m) repo_id \<noteq> None"

section \<open>Account quotas\<close>

record AccountQuota =
  aq_cfg :: DeploymentConfig
  aq_accounts :: "(string, Tier \<times> (string, u64) hmap) hmap"

definition quota_new :: "DeploymentConfig \<Rightarrow> AccountQuota" where
  "quota_new cfg = \<lparr>aq_cfg = cfg, aq_accounts = []\<rparr>"

definition set_account :: "string \<Rightarrow> Tier \<times> (string, u64) hmap \<Rightarrow> AccountQuota \<Rightarrow> AccountQuota" where
  "set_account a v q = q\<lparr>aq_accounts := hm_insert a v (aq_accounts q)\<rparr>"

definition preload :: "string \<Rightarrow> Tier \<Rightarrow> string \<Rightarrow> u64 \<Rightarrow> AccountQuota \<Rightarrow> AccountQuota" where
  "preload account_id tier repo_id used q =
    (let repos = (case map_of (aq_accounts q) account_id of Some (_, rs) \<Rightarrow> rs | None \<Rightarrow> [])
     in set_account account_id (tier, hm_insert repo_id used repos) q)"

definition tier_name :: "Tier \<Rightarrow> string" where
  "tier_name tier = (case tier of Anonymous \<Rightarrow> ''anonymous tier'' | Light \<Rightarrow> ''light tier'' | Managed \<Rightarrow> ''managed tier'')"

definition ensure_account :: "string \<Rightarrow> Tier \<Rightarrow> AccountQuota \<Rightarrow> (ApiError, unit) result \<times> AccountQuota" where
  "ensure_account account_id tier q =
    (if \<not> tier_enabled (aq_cfg q) tier then (Err (Disabled (tier_name tier)), q)
     else (Ok (), set_account account_id
       (tier, case map_of (aq_accounts q) account_id of Some (_, rs) \<Rightarrow> rs | None \<Rightarrow> []) q))"

definition tier_of :: "AccountQuota \<Rightarrow> string \<Rightarrow> (ApiError, Tier) result" where
  "tier_of q account_id = ok_or BadToken (map_option fst (map_of (aq_accounts q) account_id))"

definition account_mut :: "AccountQuota \<Rightarrow> string \<Rightarrow> (ApiError, Tier \<times> (string, u64) hmap) result" where
  "account_mut q account_id = ok_or BadToken (map_of (aq_accounts q) account_id)"

definition authorize_create_repo :: "string \<Rightarrow> string \<Rightarrow> AccountQuota \<Rightarrow> (ApiError, unit) result \<times> AccountQuota" where
  "authorize_create_repo account_id repo_id q =
    (case rbind (tier_of q account_id) (\<lambda>t. rbind (account_mut q account_id) (\<lambda>a. Ok (limits_for (aq_cfg q) t, a))) of
       Err e \<Rightarrow> (Err e, q)
     | Ok (limits, tier, repos) \<Rightarrow>
         if length repos \<ge> unat (max_repos limits) then (Err SizeCap, q)
         else (Ok (), if map_of repos repo_id = None then set_account account_id (tier, hm_insert repo_id 0 repos) q else q))"

definition quota_account_bytes :: "string \<Rightarrow> string \<Rightarrow> u64 \<Rightarrow> AccountQuota \<Rightarrow> (ApiError, unit) result \<times> AccountQuota" where
  "quota_account_bytes account_id repo_id n q =
    (case rbind (tier_of q account_id) (\<lambda>t. rbind (account_mut q account_id) (\<lambda>a. Ok (limits_for (aq_cfg q) t, a))) of
       Err e \<Rightarrow> (Err e, q)
     | Ok (limits, tier, repos) \<Rightarrow>
         (case map_of repos repo_id of
            None \<Rightarrow> (Err BadToken, q)
          | Some current \<Rightarrow>
              let new_repo_total = sat_add current n in
              if new_repo_total > max_bytes_per_repo limits then (Err SizeCap, q)
              else
                let others = sum_list (map snd (filter (\<lambda>(k, _). k \<noteq> repo_id) repos)) in
                if sat_add others new_repo_total > max_total_bytes limits then (Err SizeCap, q)
                else (Ok (), set_account account_id (tier, hm_insert repo_id new_repo_total repos) q)))"

definition quota_remove_repo :: "string \<Rightarrow> string \<Rightarrow> AccountQuota \<Rightarrow> (ApiError, unit) result \<times> AccountQuota" where
  "quota_remove_repo account_id repo_id q =
    (case account_mut q account_id of
       Err e \<Rightarrow> (Err e, q)
     | Ok (tier, repos) \<Rightarrow> (Ok (), set_account account_id (tier, hm_remove repo_id repos) q))"

definition repo_bytes :: "AccountQuota \<Rightarrow> string \<Rightarrow> string \<Rightarrow> u64 option" where
  "repo_bytes q account_id repo_id = Option.bind (map_of (aq_accounts q) account_id) (\<lambda>(_, r). map_of r repo_id)"

definition repo_count :: "AccountQuota \<Rightarrow> string \<Rightarrow> nat" where
  "repo_count q account_id = (case map_of (aq_accounts q) account_id of Some (_, r) \<Rightarrow> length r | None \<Rightarrow> 0)"

definition total_bytes :: "AccountQuota \<Rightarrow> string \<Rightarrow> u64" where
  "total_bytes q account_id = (case map_of (aq_accounts q) account_id of Some (_, r) \<Rightarrow> sum_list (map snd r) | None \<Rightarrow> 0)"

section \<open>Runs of the ephemeral manager\<close>

text \<open>The calls the server makes, the sweep of the background thread among them. A run returns the identifiers it
  issued, those the sweeps returned (which the thread then wipes), and the state.\<close>

datatype eph_op =
    ECreate u64 u64 u64 string
  | EPush u64 u64 string string
  | EBytes string u64
  | ESweep u64

fun eph_exec :: "backend \<Rightarrow> eph_op \<Rightarrow> EphemeralRepos \<times> rng \<Rightarrow> string list \<times> string list \<times> EphemeralRepos \<times> rng" where
  "eph_exec B (ECreate t1 t2 t3 c) x =
    (case eph_create B t1 t2 t3 c x of (r, x') \<Rightarrow> (case r of Ok ep \<Rightarrow> [ep_repo_id ep] | Err _ \<Rightarrow> [], [], x'))"
| "eph_exec B (EPush t1 t2 repo_id token) x = ([], [], snd (authorize_push t1 t2 repo_id token (fst x)), snd x)"
| "eph_exec B (EBytes repo_id n) x = ([], [], snd (eph_account_bytes repo_id n (fst x)), snd x)"
| "eph_exec B (ESweep t) x = ([], fst (eph_gc t (fst x)), snd (eph_gc t (fst x)), snd x)"

fun eph_run :: "backend \<Rightarrow> eph_op list \<Rightarrow> EphemeralRepos \<times> rng \<Rightarrow> string list \<times> string list \<times> EphemeralRepos \<times> rng" where
  "eph_run B [] x = ([], [], x)"
| "eph_run B (op # ops) x =
    (case eph_exec B op x of (c, w, x') \<Rightarrow> case eph_run B ops x' of (cs, ws, x'') \<Rightarrow> (c @ cs, w @ ws, x''))"

lemma map_of_remove_all: "map_of (fold hm_remove ks m) k = (if k \<in> set ks then None else map_of m k)"
  by (induction ks arbitrary: m) auto

lemma hm_ok_remove_all: "hm_ok m \<Longrightarrow> hm_ok (fold hm_remove ks m)"
  by (induction ks arbitrary: m) auto

lemma eph_gc_ids:
  assumes "hm_ok (er_repos m)"
  shows "r \<in> set (fst (eph_gc t m)) \<longleftrightarrow> (\<exists>st. map_of (er_repos m) r = Some st \<and> es_expires_at st \<le> t)"
  using assms by (force simp: eph_gc_def Let_def hm_ok_def)

lemma eph_gc_state:
  assumes "hm_ok (er_repos m)"
  shows "map_of (er_repos (snd (eph_gc t m))) r =
      (case map_of (er_repos m) r of Some st \<Rightarrow> if es_expires_at st \<le> t then None else Some st | None \<Rightarrow> None)"
    "hm_ok (er_repos (snd (eph_gc t m)))" "er_cfg (snd (eph_gc t m)) = er_cfg m" "er_creates (snd (eph_gc t m)) = er_creates m"
proof -
  have "er_repos (snd (eph_gc t m)) = fold hm_remove (fst (eph_gc t m)) (er_repos m)" by (simp add: eph_gc_def Let_def)
  then show "map_of (er_repos (snd (eph_gc t m))) r =
      (case map_of (er_repos m) r of Some st \<Rightarrow> if es_expires_at st \<le> t then None else Some st | None \<Rightarrow> None)"
    "hm_ok (er_repos (snd (eph_gc t m)))"
    using eph_gc_ids [OF assms, of r t] hm_ok_remove_all [OF assms]
    by (auto simp: map_of_remove_all split: option.splits)
qed (simp_all add: eph_gc_def Let_def)

text \<open>The state after a creation: the sweep of the table, and a new entry when it succeeds.\<close>

lemma enforce_rate_simps:
  assumes "enforce_rate t c m = (r, m')"
  shows "er_repos m' = er_repos m" "er_cfg m' = er_cfg m"
  using assms by (auto simp: enforce_rate_def Let_def split: if_splits)

definition fresh_state :: "backend \<Rightarrow> DeploymentConfig \<Rightarrow> u64 \<Rightarrow> bytes \<Rightarrow> EphemeralState" where
  "fresh_state B cfg t token = \<lparr>es_token = hex_encode B token, es_expires_at = t + ephemeral_ttl_secs cfg,
     es_max_bytes = ephemeral_max_bytes cfg, es_used_bytes = 0\<rparr>"

lemma eph_create_cases:
  assumes "eph_create B t1 t2 t3 c (m, rs) = (r, (m', rs'))"
  obtains (disabled) "m' = m" "isl r" "\<not> anonymous_enabled (er_cfg m)"
  | (limited) e where "enforce_rate t1 c m = (Err e, m')" "isl r"
  | (random) m1 where "enforce_rate t1 c m = (Ok (), m1)" "m' = snd (eph_gc t2 m1)" "isl r"
  | (created) m1 token suffix ep where "enforce_rate t1 c m = (Ok (), m1)" "length token = 24" "length suffix = 8"
      "r = Ok ep" "ep_repo_id ep = ''ephemeral/'' @ hex_encode B suffix"
      "m' = (snd (eph_gc t2 m1))\<lparr>er_repos := hm_insert (ep_repo_id ep) (fresh_state B (er_cfg m1) t3 token)
         (er_repos (snd (eph_gc t2 m1)))\<rparr>"
proof -
  have gc: "er_cfg (snd (eph_gc t m)) = er_cfg m" for t m by (simp add: eph_gc_def Let_def)
  consider "\<not> anonymous_enabled (er_cfg m)" | e m1 where "anonymous_enabled (er_cfg m)" "enforce_rate t1 c m = (Err e, m1)"
    | m1 where "anonymous_enabled (er_cfg m)" "enforce_rate t1 c m = (Ok (), m1)"
    by (metis old.unit.exhaust sum.exhaust surjective_pairing)
  then show thesis
  proof cases
    case 1
    then show ?thesis using assms by (intro disabled) (auto simp: eph_create_def)
  next
    case (2 e m1)
    then show ?thesis using assms by (intro limited) (auto simp: eph_create_def)
  next
    case (3 m1)
    obtain a rs1 where a: "random_bytes 24 rs = (a, rs1)" by fastforce
    obtain b rs2 where b: "random_bytes 8 rs1 = (b, rs2)" by fastforce
    show ?thesis
    proof (cases "isl a \<or> isl b")
      case True
      then show ?thesis using assms 3 a b
        by (intro random [OF 3(2)]) (auto simp: eph_create_def Let_def isl_def split: sum.splits)
    next
      case False
      then obtain x y where xy: "a = Ok x" "b = Ok y" by (cases a; cases b) auto
      have len: "length x = 24" "length y = 8" using a b xy random_bytes_Ok by blast+
      show ?thesis
        by (rule created [OF 3(2) len]) (use assms 3 a b xy in \<open>auto simp: eph_create_def Let_def fresh_state_def gc\<close>)
    qed
  qed
qed

text \<open>Well-formed tables.\<close>

definition repo_typed :: "backend \<Rightarrow> DeploymentConfig \<Rightarrow> string \<Rightarrow> EphemeralState \<Rightarrow> bool" where
  "repo_typed B cfg r st \<longleftrightarrow> (\<exists>x. length x = 8 \<and> r = ''ephemeral/'' @ hex_encode B x)
    \<and> (\<exists>x. length x = 24 \<and> es_token st = hex_encode B x)
    \<and> es_max_bytes st = ephemeral_max_bytes cfg \<and> es_used_bytes st \<le> es_max_bytes st"

definition eph_typed :: "backend \<Rightarrow> DeploymentConfig \<Rightarrow> EphemeralRepos \<Rightarrow> bool" where
  "eph_typed B cfg m \<longleftrightarrow> er_cfg m = cfg \<and> hm_ok (er_repos m) \<and> hm_ok (er_creates m)
    \<and> (\<forall>r st. map_of (er_repos m) r = Some st \<longrightarrow> repo_typed B cfg r st)
    \<and> (\<forall>c w n. map_of (er_creates m) c = Some (w, n) \<longrightarrow> n \<le> anon_creates_per_window cfg)"

lemma repo_typed_bytes: "repo_typed B cfg r st \<Longrightarrow> \<not> n > es_max_bytes st \<Longrightarrow> repo_typed B cfg r (st\<lparr>es_used_bytes := n\<rparr>)"
  by (simp add: repo_typed_def)

lemma typed_gc: "eph_typed B cfg m \<Longrightarrow> eph_typed B cfg (snd (eph_gc t m))"
  by (auto simp: eph_typed_def eph_gc_state split: option.splits if_splits)

lemma typed_rate:
  assumes "eph_typed B cfg m" "enforce_rate t c m = (r, m')"
  shows "eph_typed B cfg m'"
proof -
  let ?e0 = "case map_of (er_creates m) c of Some e \<Rightarrow> e | None \<Rightarrow> (t, 0)"
  let ?e1 = "if sat_sub t (fst ?e0) \<ge> rate_window_secs (er_cfg m) then (t, 0) else ?e0"
  have e0: "snd ?e0 \<le> anon_creates_per_window cfg" using assms(1) by (auto simp: eph_typed_def split: option.splits)
  then have e1: "snd ?e1 \<le> anon_creates_per_window cfg" by simp
  obtain n where n: "er_creates m' = hm_insert c (fst ?e1, n) (er_creates m)" "n \<le> anon_creates_per_window cfg"
  proof (cases "snd ?e1 \<ge> anon_creates_per_window (er_cfg m)")
    case True
    then show ?thesis using that [of "snd ?e1"] assms(2) e1 by (auto simp: enforce_rate_def Let_def)
  next
    case False
    then have "snd ?e1 + 1 \<le> anon_creates_per_window cfg" using assms(1) by (simp add: eph_typed_def inc_le)
    then show ?thesis using that [of "snd ?e1 + 1"] assms(2) False by (auto simp: enforce_rate_def Let_def)
  qed
  then show ?thesis using assms(1) enforce_rate_simps [OF assms(2)] by (auto simp: eph_typed_def split: if_splits)
qed

lemma typed_exec:
  assumes "eph_typed B cfg (fst x)"
  shows "eph_typed B cfg (fst (snd (snd (eph_exec B op x))))"
proof (cases op)
  case (ECreate t1 t2 t3 c)
  obtain r m' rs' where r: "eph_create B t1 t2 t3 c (fst x, snd x) = (r, (m', rs'))" by (metis surj_pair)
  from r have "eph_typed B cfg m'"
  proof (cases rule: eph_create_cases)
    case disabled
    then show ?thesis using assms by simp
  next
    case (limited e)
    then show ?thesis using typed_rate [OF assms] by blast
  next
    case (random m1)
    then show ?thesis using typed_gc typed_rate [OF assms] by blast
  next
    case (created m1 token suffix ep)
    have t: "eph_typed B cfg (snd (eph_gc t2 m1))" using typed_gc typed_rate [OF assms created(1)] by blast
    have "repo_typed B cfg (ep_repo_id ep) (fresh_state B (er_cfg m1) t3 token)"
      using typed_rate [OF assms created(1)] created(2,3,5) by (auto simp: repo_typed_def fresh_state_def eph_typed_def)
    with t show ?thesis by (auto simp: created(6) eph_typed_def)
  qed
  then show ?thesis using r by (simp add: ECreate split: prod.splits)
next
  case (EPush t1 t2 r tok)
  have "snd (authorize_push t1 t2 r tok (fst x)) = snd (eph_gc t1 (fst x))"
    by (simp add: authorize_push_def Let_def split: option.split)
  then show ?thesis using typed_gc [OF assms] by (simp add: EPush)
next
  case (EBytes r n)
  have "eph_typed B cfg (snd (eph_account_bytes r n (fst x)))"
  proof (cases "map_of (er_repos (fst x)) r")
    case (Some st)
    then have "repo_typed B cfg r st" using assms by (simp add: eph_typed_def)
    then show ?thesis using assms repo_typed_bytes [of B cfg r st "sat_add (es_used_bytes st) n"]
      by (auto simp: eph_account_bytes_def Let_def Some eph_typed_def)
  qed (use assms in \<open>simp add: eph_account_bytes_def\<close>)
  then show ?thesis by (simp add: EBytes)
next
  case (ESweep t)
  then show ?thesis using typed_gc [OF assms] by simp
qed

lemma typed_run: "eph_typed B cfg (fst x) \<Longrightarrow> eph_typed B cfg (fst (snd (snd (eph_run B ops x))))"
proof (induction ops arbitrary: x)
  case (Cons op ops)
  obtain c w x' where e: "eph_exec B op x = (c, w, x')" by (metis surj_pair)
  then have "eph_typed B cfg (fst x')" using typed_exec [OF Cons.prems, of op] by simp
  from Cons.IH [OF this] show ?case by (cases "eph_run B ops x'") (simp add: e)
qed simp


section \<open>Expired repositories that are never wiped\<close>

lemma unknown_exec:
  assumes "hm_ok (er_repos (fst x))" "map_of (er_repos (fst x)) r = None" "eph_exec B op x = (c, w, x')" "r \<notin> set c"
  shows "hm_ok (er_repos (fst x')) \<and> map_of (er_repos (fst x')) r = None \<and> r \<notin> set w"
proof (cases op)
  case (ECreate t1 t2 t3 client)
  obtain q m' rs' where q: "eph_create B t1 t2 t3 client (fst x, snd x) = (q, (m', rs'))" by (metis surj_pair)
  then have e: "x' = (m', rs')" "w = []" "c = (case q of Ok ep \<Rightarrow> [ep_repo_id ep] | Err _ \<Rightarrow> [])"
    using assms(3) by (simp_all add: ECreate)
  from q have "hm_ok (er_repos m') \<and> map_of (er_repos m') r = None"
  proof (cases rule: eph_create_cases)
    case (limited e')
    then show ?thesis using assms(1,2) enforce_rate_simps(1) by metis
  next
    case (random m1)
    then show ?thesis using assms(1,2) enforce_rate_simps(1) [OF random(1)] by (simp add: eph_gc_state)
  next
    case (created m1 token suffix ep)
    then show ?thesis using assms(1,2,4) e(3) enforce_rate_simps(1) [OF created(1)] by (auto simp: eph_gc_state)
  qed (use assms in simp)
  then show ?thesis using e by simp
next
  case (EPush t1 t2 r' tok)
  have "snd (authorize_push t1 t2 r' tok (fst x)) = snd (eph_gc t1 (fst x))"
    by (simp add: authorize_push_def Let_def split: option.split)
  then show ?thesis using assms by (auto simp: EPush eph_gc_state)
next
  case (EBytes r' n)
  then show ?thesis using assms by (auto simp: eph_account_bytes_def Let_def split: option.splits)
next
  case (ESweep t)
  then show ?thesis using assms eph_gc_ids [OF assms(1), of r t] by (auto simp: eph_gc_state)
qed

lemma unknown_run:
  assumes "hm_ok (er_repos (fst x))" "map_of (er_repos (fst x)) r = None" "eph_run B ops x = (cs, ws, x')" "r \<notin> set cs"
  shows "r \<notin> set ws"
  using assms
proof (induction ops arbitrary: x cs ws)
  case (Cons op ops)
  obtain c w y where e: "eph_exec B op x = (c, w, y)" by (metis surj_pair)
  obtain cs' ws' where r: "eph_run B ops y = (cs', ws', x')" "cs = c @ cs'" "ws = w @ ws'"
    using Cons.prems(3) by (auto simp: e split: prod.splits)
  have u: "hm_ok (er_repos (fst y)) \<and> map_of (er_repos (fst y)) r = None \<and> r \<notin> set w"
    using unknown_exec [OF Cons.prems(1,2) e] Cons.prems(4) r(2) by simp
  then show ?case using Cons.IH [OF _ _ r(1)] Cons.prems(4) r(2,3) by simp
qed simp

text \<open>C36: an expired repository that a creation or a push meets before the background sweep does is never wiped.
  Both expire the table themselves and drop the identifiers, so that, whatever happens afterwards, no later
  sweep returns the identifier (unless the same random identifier is issued again), and its working copy and its
  encrypted objects stay on the disk until the server restarts.\<close>

theorem expired_repo_never_swept:
  assumes "hm_ok (er_repos m)" "map_of (er_repos m) r = Some st" "es_expires_at st \<le> t"
    "op = EPush t t' r' token \<or> op = ECreate t1 t t3 c \<and> anonymous_enabled (er_cfg m) \<and> fst (enforce_rate t1 c m) = Ok ()"
    "eph_run B (op # ops) (m, rs) = (issued, swept, x')" "r \<notin> set issued"
  shows "r \<notin> set swept"
proof -
  obtain i w y where e: "eph_exec B op (m, rs) = (i, w, y)" by (metis surj_pair)
  obtain js ws where rest: "eph_run B ops y = (js, ws, x')" "issued = i @ js" "swept = w @ ws"
    using assms(5) by (auto simp: e split: prod.splits)
  have "hm_ok (er_repos (fst y)) \<and> map_of (er_repos (fst y)) r = None \<and> w = []"
    using assms(4)
  proof (elim disjE conjE)
    assume op: "op = EPush t t' r' token"
    have "snd (authorize_push t t' r' token m) = snd (eph_gc t m)"
      by (simp add: authorize_push_def Let_def split: option.split)
    then show ?thesis using e assms(1-3) by (auto simp: op eph_gc_state)
  next
    assume op: "op = ECreate t1 t t3 c" and on: "anonymous_enabled (er_cfg m)" and rate: "fst (enforce_rate t1 c m) = Ok ()"
    obtain q m' rs' where q: "eph_create B t1 t t3 c (m, rs) = (q, (m', rs'))" by (metis surj_pair)
    have y: "y = (m', rs')" "w = []" "i = (case q of Ok ep \<Rightarrow> [ep_repo_id ep] | Err _ \<Rightarrow> [])"
      using e by (simp_all add: op q)
    from q have "hm_ok (er_repos m') \<and> map_of (er_repos m') r = None"
    proof (cases rule: eph_create_cases)
      case (random m1)
      then show ?thesis using assms(1-3) enforce_rate_simps(1) [OF random(1)] by (simp add: eph_gc_state)
    next
      case (created m1 token suffix ep)
      then show ?thesis using assms(1-3,6) y(3) rest(2) enforce_rate_simps(1) [OF created(1)] by (auto simp: eph_gc_state)
    qed (use on rate in simp_all)
    then show ?thesis using y by simp
  qed
  then show ?thesis using unknown_run [OF _ _ rest(1)] rest(2,3) assms(6) by simp
qed

definition demo_expired :: EphemeralState where
  "demo_expired = \<lparr>es_token = ''t'', es_expires_at = 5, es_max_bytes = 9, es_used_bytes = 3\<rparr>"

definition demo_eph :: EphemeralRepos where
  "demo_eph = (eph_new deployment_default)\<lparr>er_repos := [(''ephemeral/ab'', demo_expired)]\<rparr>"

theorem expired_repo_never_swept_witness:
  "fst (eph_gc 6 demo_eph) = [''ephemeral/ab'']
   \<and> (\<exists>swept x'. eph_run ref_backend [EPush 6 6 ''ephemeral/cd'' ''t'', ESweep 7] (demo_eph, []) = ([], swept, x')
        \<and> ''ephemeral/ab'' \<notin> set swept)"
proof -
  obtain issued swept x' where r: "eph_run ref_backend [EPush 6 6 ''ephemeral/cd'' ''t'', ESweep 7] (demo_eph, []) = (issued, swept, x')"
    by (metis surj_pair)
  have i: "issued = []" using r by (auto simp: split: prod.splits)
  have m: "hm_ok (er_repos demo_eph)" "map_of (er_repos demo_eph) ''ephemeral/ab'' = Some demo_expired" "es_expires_at demo_expired \<le> 6"
    by (simp_all add: demo_eph_def hm_ok_def demo_expired_def)
  have "''ephemeral/ab'' \<notin> set swept"
    using expired_repo_never_swept [OF m _ r] i by simp
  moreover have "fst (eph_gc 6 demo_eph) = [''ephemeral/ab'']" by (simp add: eph_gc_def demo_eph_def demo_expired_def)
  ultimately show ?thesis using r i by blast
qed

section \<open>Accounts stay within their quotas\<close>

text \<open>The calls of the quota table.\<close>

datatype quota_op =
    QEnsure string Tier
  | QCreate string string
  | QBytes string string u64
  | QRemove string string

fun quota_exec :: "quota_op \<Rightarrow> AccountQuota \<Rightarrow> AccountQuota" where
  "quota_exec (QEnsure a t) q = snd (ensure_account a t q)"
| "quota_exec (QCreate a r) q = snd (authorize_create_repo a r q)"
| "quota_exec (QBytes a r n) q = snd (quota_account_bytes a r n q)"
| "quota_exec (QRemove a r) q = snd (quota_remove_repo a r q)"

definition repos_within :: "TierLimits \<Rightarrow> (string, u64) hmap \<Rightarrow> bool" where
  "repos_within l repos \<longleftrightarrow> hm_ok repos \<and> length repos \<le> unat (max_repos l)
    \<and> (\<forall>r n. map_of repos r = Some n \<longrightarrow> n \<le> max_bytes_per_repo l)
    \<and> (max_total_bytes l \<noteq> - 1 \<longrightarrow> sum_list (map (unat \<circ> snd) repos) \<le> unat (max_total_bytes l))"

definition quota_within :: "(string \<Rightarrow> Tier) \<Rightarrow> DeploymentConfig \<Rightarrow> AccountQuota \<Rightarrow> bool" where
  "quota_within T cfg q \<longleftrightarrow> aq_cfg q = cfg
    \<and> (\<forall>a t repos. map_of (aq_accounts q) a = Some (t, repos) \<longrightarrow> t = T a \<and> repos_within (limits_for cfg t) repos)"

lemma within_set_account:
  "quota_within T cfg q \<Longrightarrow> t = T a \<Longrightarrow> repos_within (limits_for cfg t) repos \<Longrightarrow> quota_within T cfg (set_account a (t, repos) q)"
  by (auto simp: quota_within_def set_account_def)

lemma sum_remove_le: "sum_list (map f (hm_remove r repos)) \<le> sum_list (map f repos)" for f :: "_ \<Rightarrow> nat"
  by (induction repos) (auto simp: hm_remove_def)

lemma within_remove: "repos_within l repos \<Longrightarrow> repos_within l (hm_remove r repos)"
  using sum_remove_le [of "unat \<circ> snd" r repos] length_hm_remove_le [of r repos] by (auto simp: repos_within_def)

text \<open>A sum that stays below the width of the word does not wrap.\<close>

lemma unat_sum_list:
  fixes ws :: "u64 list"
  shows "sum_list (map unat ws) < 2 ^ 64 \<Longrightarrow> unat (sum_list ws) = sum_list (map unat ws)"
  by (induction ws) (simp_all add: unat_word_ariths)

lemma within_insert:
  assumes "repos_within l repos" "length (hm_remove r repos) < unat (max_repos l)" "n \<le> max_bytes_per_repo l"
    "max_total_bytes l \<noteq> - 1 \<longrightarrow> unat n + sum_list (map (unat \<circ> snd) (hm_remove r repos)) \<le> unat (max_total_bytes l)"
  shows "repos_within l (hm_insert r n repos)"
proof -
  have "hm_ok (hm_insert r n repos)" using assms(1) by (simp add: repos_within_def)
  moreover have "length (hm_insert r n repos) \<le> unat (max_repos l)" using assms(2) by (simp add: hm_insert_def)
  moreover have "\<forall>r' n'. map_of (hm_insert r n repos) r' = Some n' \<longrightarrow> n' \<le> max_bytes_per_repo l"
    using assms(1,3) by (simp add: repos_within_def)
  moreover have "sum_list (map (unat \<circ> snd) (hm_insert r n repos)) = unat n + sum_list (map (unat \<circ> snd) (hm_remove r repos))"
    by (simp add: hm_insert_def)
  ultimately show ?thesis using assms(4) by (simp only: repos_within_def)
qed

lemma within_create:
  assumes "repos_within l repos" "length repos < unat (max_repos l)"
  shows "repos_within l (hm_insert r 0 repos)"
proof (rule within_insert [OF assms(1)])
  show "length (hm_remove r repos) < unat (max_repos l)" using length_hm_remove_le [of r repos] assms(2) by simp
  show "max_total_bytes l \<noteq> - 1 \<longrightarrow> unat (0 :: u64) + sum_list (map (unat \<circ> snd) (hm_remove r repos)) \<le> unat (max_total_bytes l)"
    using order_trans [OF sum_remove_le] assms(1) by (auto simp: repos_within_def)
qed simp

lemma within_bytes:
  assumes "repos_within l repos" "map_of repos r = Some current" "n \<le> max_bytes_per_repo l"
    "sat_add (sum_list (map snd (filter (\<lambda>(k, _). k \<noteq> r) repos))) n \<le> max_total_bytes l"
  shows "repos_within l (hm_insert r n repos)"
proof (rule within_insert [OF assms(1) _ assms(3)])
  have others: "filter (\<lambda>(k, _). k \<noteq> r) repos = hm_remove r repos" by (simp add: hm_remove_def case_prod_unfold)
  show "length (hm_remove r repos) < unat (max_repos l)"
    using length_hm_remove_present [OF assms(2)] assms(1) by (simp add: repos_within_def)
  show "max_total_bytes l \<noteq> - 1 \<longrightarrow> unat n + sum_list (map (unat \<circ> snd) (hm_remove r repos)) \<le> unat (max_total_bytes l)"
  proof
    assume capped: "max_total_bytes l \<noteq> - 1"
    let ?o = "sum_list (map snd (hm_remove r repos))"
    have top: "unat (max_total_bytes l) < 2 ^ 64 - 1"
    proof -
      have "unat (max_total_bytes l) < 2 ^ 64" using unsigned_less [of "max_total_bytes l", where 'a = nat] by simp
      moreover have "unat (max_total_bytes l) \<noteq> unat (- 1 :: u64)" using capped by (simp only: word_unat_eq_iff) simp
      ultimately show ?thesis by (simp add: unsigned_minus_1_eq_mask mask_eq_exp_minus_1)
    qed
    have "sum_list (map (unat \<circ> snd) (hm_remove r repos)) \<le> unat (max_total_bytes l)"
      using sum_remove_le [of "unat \<circ> snd" r repos] assms(1) capped by (simp add: repos_within_def)
    then have o: "unat ?o = sum_list (map (unat \<circ> snd) (hm_remove r repos))"
      using unat_sum_list [of "map snd (hm_remove r repos)"] top by (simp add: comp_def)
    have "min (unat ?o + unat n) (2 ^ 64 - 1) \<le> unat (max_total_bytes l)"
      using assms(4) unfolding others by (simp add: word_le_nat_alt unat_sat_add)
    then show "unat n + sum_list (map (unat \<circ> snd) (hm_remove r repos)) \<le> unat (max_total_bytes l)"
      using top o by simp
  qed
qed

lemma account_within:
  assumes "quota_within T cfg q" "map_of (aq_accounts q) a = Some (t, repos)"
  shows "t = T a" "repos_within (limits_for cfg t) repos" "aq_cfg q = cfg"
proof -
  have "\<forall>a t repos. map_of (aq_accounts q) a = Some (t, repos) \<longrightarrow> t = T a \<and> repos_within (limits_for cfg t) repos"
    using assms(1) by (simp add: quota_within_def)
  from this [rule_format, OF assms(2)] show "t = T a" "repos_within (limits_for cfg t) repos" by blast+
  show "aq_cfg q = cfg" using assms(1) by (simp add: quota_within_def)
qed

lemma within_exec_account:
  assumes w: "quota_within T cfg q" and a: "map_of (aq_accounts q) a = Some (t, repos)"
  shows "quota_within T cfg (snd (authorize_create_repo a r q))"
    "quota_within T cfg (snd (quota_account_bytes a r n q))"
    "quota_within T cfg (snd (quota_remove_repo a r q))"
proof -
  note acc = account_within [OF w a]
  show "quota_within T cfg (snd (authorize_create_repo a r q))"
    using w within_set_account [OF w acc(1) within_create [OF acc(2)], of r]
    by (simp add: authorize_create_repo_def tier_of_def account_mut_def a acc(3))
  show "quota_within T cfg (snd (quota_remove_repo a r q))"
    using within_set_account [OF w acc(1) within_remove [OF acc(2)]] by (simp add: quota_remove_repo_def account_mut_def a)
  show "quota_within T cfg (snd (quota_account_bytes a r n q))"
  proof (cases "map_of repos r")
    case (Some current)
    show ?thesis
      using w within_set_account [OF w acc(1) within_bytes [OF acc(2) Some], of "sat_add current n"]
      by (simp add: quota_account_bytes_def tier_of_def account_mut_def a acc(3) Some Let_def not_less)
  qed (use w in \<open>simp add: quota_account_bytes_def tier_of_def account_mut_def a\<close>)
qed

lemma exec_no_account:
  assumes "map_of (aq_accounts q) a = None"
  shows "snd (authorize_create_repo a r q) = q" "snd (quota_account_bytes a r n q) = q" "snd (quota_remove_repo a r q) = q"
  using assms by (simp_all add: authorize_create_repo_def quota_account_bytes_def quota_remove_repo_def tier_of_def account_mut_def)

lemma within_ensure:
  assumes w: "quota_within T cfg q" and t: "t = T a"
  shows "quota_within T cfg (snd (ensure_account a t q))"
proof (cases "map_of (aq_accounts q) a")
  case None
  have "repos_within (limits_for cfg t) []" by (simp add: repos_within_def)
  from within_set_account [OF w t this] show ?thesis using w by (simp add: ensure_account_def None)
next
  case (Some tr)
  obtain t' repos where tr: "tr = (t', repos)" by fastforce
  have "t' = t" "repos_within (limits_for cfg t) repos" using account_within [OF w Some [unfolded tr]] t by simp_all
  then show ?thesis using w within_set_account [OF w t] by (simp add: ensure_account_def Some tr)
qed

lemma within_calls:
  assumes w: "quota_within T cfg q"
  shows "quota_within T cfg (snd (authorize_create_repo a r q)) \<and> quota_within T cfg (snd (quota_account_bytes a r n q))
    \<and> quota_within T cfg (snd (quota_remove_repo a r q))"
proof (cases "map_of (aq_accounts q) a")
  case None
  show ?thesis by (simp only: exec_no_account [OF None] w simp_thms)
next
  case (Some tr)
  obtain t repos where tr: "tr = (t, repos)" by (cases tr)
  show ?thesis using within_exec_account [OF w Some [unfolded tr]] by blast
qed

lemma within_exec:
  assumes "quota_within T cfg q" "case op of QEnsure a t \<Rightarrow> t = T a | _ \<Rightarrow> True"
  shows "quota_within T cfg (quota_exec op q)"
proof (cases op)
  case (QEnsure a t)
  then show ?thesis using within_ensure [OF assms(1)] assms(2) by simp
next
  case (QCreate a r)
  show ?thesis unfolding QCreate quota_exec.simps using within_calls [OF assms(1)] by (rule conjunct1)
next
  case (QBytes a r n)
  show ?thesis unfolding QBytes quota_exec.simps using within_calls [OF assms(1), of a r n] by (elim conjE)
next
  case (QRemove a r)
  show ?thesis unfolding QRemove quota_exec.simps using within_calls [OF assms(1), of a r 0] by (elim conjE)
qed

text \<open>C20: whatever sequence of repository creations, pushed bytes and removals is asked for, each account stays
  within the limits of its tier, so long as the tier of the account does not change: no more repositories than
  allowed, no repository larger than allowed, and the true sum of the sizes (as natural numbers, without
  wrap-around) at most the total allowed, unless the total is \<open>u64::MAX\<close>, which stands for no limit. Requests beyond
  the limits are refused and leave the table as it was.\<close>

theorem quota_never_exceeded:
  assumes "\<forall>op \<in> set ops. case op of QEnsure a t \<Rightarrow> t = T a | _ \<Rightarrow> True"
  shows "quota_within T cfg (fold quota_exec ops (quota_new cfg))"
proof -
  have "quota_within T cfg (fold quota_exec ops q)" if "quota_within T cfg q" for q
    using assms that
  proof (induction ops arbitrary: q)
    case (Cons op ops)
    have "quota_within T cfg (quota_exec op q)" by (rule within_exec [OF Cons.prems(2)]) (use Cons.prems(1) in simp)
    from Cons.IH [OF _ this] Cons.prems(1) show ?case by simp
  qed simp
  moreover have "quota_within T cfg (quota_new cfg)" by (simp add: quota_within_def quota_new_def)
  ultimately show ?thesis .
qed

theorem quota_never_exceeded_witness:
  "quota_within (\<lambda>_. Light) deployment_default
     (fold quota_exec [QEnsure ''u'' Light, QCreate ''u'' ''u/r'', QBytes ''u'' ''u/r'' 7, QBytes ''u'' ''u/r'' (- 1)] (quota_new deployment_default))
   \<and> total_bytes (fold quota_exec [QEnsure ''u'' Light, QCreate ''u'' ''u/r'', QBytes ''u'' ''u/r'' 7, QBytes ''u'' ''u/r'' (- 1)]
       (quota_new deployment_default)) ''u'' = 7"
proof
  show "quota_within (\<lambda>_. Light) deployment_default
     (fold quota_exec [QEnsure ''u'' Light, QCreate ''u'' ''u/r'', QBytes ''u'' ''u/r'' 7, QBytes ''u'' ''u/r'' (- 1)] (quota_new deployment_default))"
    by (rule quota_never_exceeded) simp
qed (simp add: quota_new_def ensure_account_def deployment_default_def set_account_def authorize_create_repo_def tier_of_def
    account_mut_def light_sandbox_def hm_insert_def hm_remove_def quota_account_bytes_def Let_def sat_add_def total_bytes_def)

end
