(* ===== verification/Ratelimit.thy ===== *)
theory Ratelimit
  imports SecGit_Prelude Complex_Main
begin

text \<open>
  The abuse controls of the server (\<open>secgit-server/src/ratelimit.rs\<close>): a token bucket per key and a counting
  semaphore. An instant is a number of nanoseconds, the difference of two instants saturates at zero as
  \<open>duration_since\<close> does. The code computes with \<open>f64\<close>; the model computes exactly, with rational numbers, so the
  bounds below are those of the algorithm, without the rounding of the last bits.
\<close>

section \<open>The limiter\<close>

record Bucket =
  bk_tokens :: rat
  bk_last :: nat

record RateLimiter =
  rl_capacity :: rat
  rl_refill :: rat
  rl_max_keys :: nat
  rl_idle_evict :: nat
  rl_buckets :: "(string, Bucket) hmap"
  rl_last_sweep :: nat

definition secs :: "nat \<Rightarrow> rat" where
  "secs d = of_nat d / 1000000000"

definition rl_new :: "rat \<Rightarrow> rat \<Rightarrow> nat \<Rightarrow> nat \<Rightarrow> nat \<Rightarrow> RateLimiter" where
  "rl_new capacity refill max_keys idle_evict now =
    \<lparr>rl_capacity = max capacity 1, rl_refill = max refill (1 / 10000), rl_max_keys = max max_keys 1,
     rl_idle_evict = idle_evict, rl_buckets = [], rl_last_sweep = now\<rparr>"

definition evict_idle :: "nat \<Rightarrow> RateLimiter \<Rightarrow> RateLimiter" where
  "evict_idle now rl = rl\<lparr>rl_buckets := hm_retain (\<lambda>_ b. now - bk_last b < rl_idle_evict rl) (rl_buckets rl)\<rparr>"

definition take_token :: "nat \<Rightarrow> string \<Rightarrow> RateLimiter \<Rightarrow> bool \<times> RateLimiter" where
  "take_token now key rl =
    (let cap = rl_capacity rl;
         bucket = (case map_of (rl_buckets rl) key of Some b \<Rightarrow> b | None \<Rightarrow> \<lparr>bk_tokens = cap, bk_last = now\<rparr>);
         tokens = min (bk_tokens bucket + secs (now - bk_last bucket) * rl_refill rl) cap
     in if tokens \<ge> 1 then (True, rl\<lparr>rl_buckets := hm_insert key \<lparr>bk_tokens = tokens - 1, bk_last = now\<rparr> (rl_buckets rl)\<rparr>)
        else (False, rl\<lparr>rl_buckets := hm_insert key \<lparr>bk_tokens = tokens, bk_last = now\<rparr> (rl_buckets rl)\<rparr>))"

definition check :: "nat \<Rightarrow> string \<Rightarrow> RateLimiter \<Rightarrow> bool \<times> RateLimiter" where
  "check now key rl =
    (let rl1 = (if now - rl_last_sweep rl \<ge> rl_idle_evict rl then (evict_idle now rl)\<lparr>rl_last_sweep := now\<rparr> else rl)
     in if map_of (rl_buckets rl1) key = None \<and> length (rl_buckets rl1) \<ge> rl_max_keys rl1
        then let rl2 = evict_idle now rl1
             in if length (rl_buckets rl2) \<ge> rl_max_keys rl2 then (False, rl2) else take_token now key rl2
        else take_token now key rl1)"

section \<open>The semaphore\<close>

text \<open>The state is the number of free permits; acquiring without one waits, which is \<open>None\<close>.\<close>

definition sem_new :: "nat \<Rightarrow> nat" where
  "sem_new permits = max permits 1"

definition acquire :: "nat \<Rightarrow> nat option" where
  "acquire n = (if n = 0 then None else Some (n - 1))"

definition guard_drop :: "nat \<Rightarrow> nat" where
  "guard_drop n = n + 1"

text \<open>The threads that hold a guard, and the free permits.\<close>

inductive sem_run :: "nat \<Rightarrow> nat list \<Rightarrow> nat \<Rightarrow> bool" for permits where
  sem_start: "sem_run permits [] (sem_new permits)"
| sem_acquire: "sem_run permits hs n \<Longrightarrow> acquire n = Some n' \<Longrightarrow> sem_run permits (h # hs) n'"
| sem_release: "sem_run permits (hs @ h # hs') n \<Longrightarrow> sem_run permits (hs @ hs') (guard_drop n)"

lemma sem_run_conserves: "sem_run permits hs n \<Longrightarrow> length hs + n = max permits 1"
  by (induction rule: sem_run.induct) (auto simp: sem_new_def acquire_def guard_drop_def split: if_splits)

section \<open>The tokens a key has\<close>

lemma secs_nonneg [simp]: "0 \<le> secs d"
  by (simp add: secs_def)

lemma secs_add: "secs (a + b) = secs a + secs b"
  by (simp add: secs_def add_divide_distrib)

lemma secs_mono: "a \<le> b \<Longrightarrow> secs a \<le> secs b"
  by (simp add: secs_def divide_right_mono)

lemma secs_0 [simp]: "secs 0 = 0"
  by (simp add: secs_def)

definition tokens_at :: "nat \<Rightarrow> RateLimiter \<Rightarrow> string \<Rightarrow> rat" where
  "tokens_at now rl key =
    (case map_of (rl_buckets rl) key of
       None \<Rightarrow> rl_capacity rl
     | Some b \<Rightarrow> min (bk_tokens b + secs (now - bk_last b) * rl_refill rl) (rl_capacity rl))"

text \<open>Well-formed limiters, last used at \<open>T\<close>: a bucket that is evicted as idle has filled up.\<close>

definition rl_ok :: "nat \<Rightarrow> RateLimiter \<Rightarrow> bool" where
  "rl_ok T rl \<longleftrightarrow> hm_ok (rl_buckets rl) \<and> length (rl_buckets rl) \<le> rl_max_keys rl \<and> 1 \<le> rl_max_keys rl
    \<and> 1 \<le> rl_capacity rl \<and> 0 \<le> rl_refill rl
    \<and> (\<forall>k b. map_of (rl_buckets rl) k = Some b \<longrightarrow> 0 \<le> bk_tokens b \<and> bk_tokens b \<le> rl_capacity rl \<and> bk_last b \<le> T)"

definition refills :: "RateLimiter \<Rightarrow> bool" where
  "refills rl \<longleftrightarrow> rl_capacity rl \<le> secs (rl_idle_evict rl) * rl_refill rl"

lemma rl_ok_mono: "rl_ok T rl \<Longrightarrow> T \<le> T' \<Longrightarrow> rl_ok T' rl"
  by (fastforce simp: rl_ok_def)

lemma rl_ok_evict: "rl_ok T rl \<Longrightarrow> rl_ok T (evict_idle now rl)"
  by (auto simp: rl_ok_def evict_idle_def map_of_hm_retain split: option.splits if_splits)
    (metis hm_retain_def le_trans length_filter_le)

lemma rl_config [simp]:
  "rl_capacity (evict_idle now rl) = rl_capacity rl" "rl_refill (evict_idle now rl) = rl_refill rl"
  "rl_max_keys (evict_idle now rl) = rl_max_keys rl" "rl_idle_evict (evict_idle now rl) = rl_idle_evict rl"
  "rl_capacity (snd (take_token now key rl)) = rl_capacity rl" "rl_refill (snd (take_token now key rl)) = rl_refill rl"
  "rl_max_keys (snd (take_token now key rl)) = rl_max_keys rl" "rl_idle_evict (snd (take_token now key rl)) = rl_idle_evict rl"
  by (simp_all add: evict_idle_def take_token_def Let_def)

lemma tokens_at_evict:
  assumes "rl_ok T rl" "refills rl"
  shows "tokens_at now (evict_idle now rl) key = tokens_at now rl key"
proof (cases "map_of (rl_buckets rl) key")
  case None
  then show ?thesis using assms by (simp add: tokens_at_def evict_idle_def map_of_hm_retain rl_ok_def)
next
  case (Some b)
  have ok: "hm_ok (rl_buckets rl)" "0 \<le> rl_refill rl" "0 \<le> bk_tokens b" using assms(1) Some by (auto simp: rl_ok_def)
  show ?thesis
  proof (cases "now - bk_last b < rl_idle_evict rl")
    case True
    then show ?thesis using ok Some by (simp add: tokens_at_def evict_idle_def map_of_hm_retain)
  next
    case False
    then have "secs (rl_idle_evict rl) * rl_refill rl \<le> secs (now - bk_last b) * rl_refill rl"
      using ok(2) by (intro mult_right_mono secs_mono) simp_all
    then have "rl_capacity rl \<le> bk_tokens b + secs (now - bk_last b) * rl_refill rl"
      using assms(2) ok(3) unfolding refills_def by linarith
    then show ?thesis using ok Some False by (simp add: tokens_at_def evict_idle_def map_of_hm_retain)
  qed
qed

lemma take_token_spec:
  assumes "rl_ok now rl" "map_of (rl_buckets rl) key \<noteq> None \<or> length (rl_buckets rl) < rl_max_keys rl"
    "take_token now key rl = (r, rl')"
  shows "rl_ok now rl' \<and> tokens_at now rl' k = tokens_at now rl k - (if k = key \<and> r then 1 else 0)"
proof -
  let ?t = "tokens_at now rl key"
  let ?new = "if ?t \<ge> 1 then ?t - 1 else ?t"
  have cap: "1 \<le> rl_capacity rl" "0 \<le> rl_refill rl" "hm_ok (rl_buckets rl)" using assms(1) by (simp_all add: rl_ok_def)
  have b: "0 \<le> bk_tokens b" if "map_of (rl_buckets rl) key = Some b" for b using assms(1) that by (simp add: rl_ok_def)
  have t: "0 \<le> ?t" "?t \<le> rl_capacity rl"
    using cap b by (auto simp: tokens_at_def min_def mult_nonneg_nonneg split: option.splits)
  have eq: "r \<longleftrightarrow> ?t \<ge> 1" "rl' = rl\<lparr>rl_buckets := hm_insert key \<lparr>bk_tokens = ?new, bk_last = now\<rparr> (rl_buckets rl)\<rparr>"
    using assms(3) by (auto simp: take_token_def tokens_at_def Let_def split: option.splits if_splits)
  have len: "length (hm_insert key x (rl_buckets rl)) \<le> rl_max_keys rl" for x
  proof (cases "map_of (rl_buckets rl) key")
    case None
    then show ?thesis using assms(2) length_hm_insert [of key x "rl_buckets rl"] by simp
  next
    case (Some y)
    then show ?thesis using assms(1) length_hm_insert_present [OF Some, of x] by (simp add: rl_ok_def)
  qed
  have "rl_ok now rl'" using assms(1) t len by (auto simp: eq rl_ok_def)
  moreover have "tokens_at now rl' k = tokens_at now rl k - (if k = key \<and> r then 1 else 0)"
  proof (cases "k = key")
    case True
    then show ?thesis using t by (simp add: eq tokens_at_def [of now "rl\<lparr>rl_buckets := _\<rparr>"])
  next
    case False
    then show ?thesis by (simp add: eq(2) tokens_at_def split: option.split)
  qed
  ultimately show ?thesis ..
qed

lemma check_spec:
  assumes "rl_ok T rl" "T \<le> now" "refills rl" "check now key rl = (r, rl')"
  shows "rl_ok now rl' \<and> refills rl' \<and> rl_capacity rl' = rl_capacity rl \<and> rl_refill rl' = rl_refill rl
    \<and> rl_max_keys rl' = rl_max_keys rl \<and> tokens_at now rl' k = tokens_at now rl k - (if k = key \<and> r then 1 else 0)"
proof -
  define rl1 where "rl1 = (if now - rl_last_sweep rl \<ge> rl_idle_evict rl then (evict_idle now rl)\<lparr>rl_last_sweep := now\<rparr> else rl)"
  have ok: "rl_ok now rl" by (rule rl_ok_mono [OF assms(1,2)])
  have sweep: "rl_ok now (x\<lparr>rl_last_sweep := t\<rparr>) = rl_ok now x" "tokens_at now (x\<lparr>rl_last_sweep := t\<rparr>) k = tokens_at now x k" for x t k
    by (simp_all add: rl_ok_def tokens_at_def split: option.split)
  have ok1: "rl_ok now rl1" "refills rl1" "\<And>k. tokens_at now rl1 k = tokens_at now rl k"
    "rl_capacity rl1 = rl_capacity rl" "rl_refill rl1 = rl_refill rl" "rl_idle_evict rl1 = rl_idle_evict rl" "rl_max_keys rl1 = rl_max_keys rl"
    using ok assms(3) tokens_at_evict [OF ok assms(3)] rl_ok_evict [OF ok] by (simp_all add: rl1_def sweep refills_def)
  have take: ?thesis
    if x: "rl_ok now x" "\<And>k. tokens_at now x k = tokens_at now rl k" "rl_capacity x = rl_capacity rl" "rl_refill x = rl_refill rl"
      "rl_idle_evict x = rl_idle_evict rl" "rl_max_keys x = rl_max_keys rl"
      "map_of (rl_buckets x) key \<noteq> None \<or> length (rl_buckets x) < rl_max_keys x" and run: "take_token now key x = (r, rl')" for x
    using take_token_spec [OF x(1,7) run, of k] x(2-6) assms(3) rl_config(5-8) [of now key x] run by (simp add: refills_def)
  show ?thesis
  proof (cases "map_of (rl_buckets rl1) key = None \<and> length (rl_buckets rl1) \<ge> rl_max_keys rl1")
    case full: True
    let ?rl2 = "evict_idle now rl1"
    have ok2: "rl_ok now ?rl2" "\<And>k. tokens_at now ?rl2 k = tokens_at now rl k"
      using rl_ok_evict [OF ok1(1)] tokens_at_evict [OF ok1(1,2)] ok1(3) by simp_all
    show ?thesis
    proof (cases "length (rl_buckets ?rl2) \<ge> rl_max_keys ?rl2")
      case True
      then have "r = False" "rl' = ?rl2" using assms(4) full by (simp_all add: check_def Let_def flip: rl1_def)
      then show ?thesis using ok2 ok1 by (simp add: refills_def)
    next
      case False
      then have "take_token now key ?rl2 = (r, rl')" using assms(4) full by (simp add: check_def Let_def flip: rl1_def)
      then show ?thesis using take [OF ok2] False ok1 by simp
    qed
  next
    case False
    have "take_token now key rl1 = (r, rl')" using assms(4) unfolding check_def Let_def rl1_def [symmetric] if_not_P [OF False] .
    then show ?thesis using take [OF ok1(1,3,4,5,6,7)] False by auto
  qed
qed

section \<open>The rate\<close>

text \<open>A sequence of checks with their instants, and how many of a key's were allowed.\<close>

fun check_run :: "(nat \<times> string) list \<Rightarrow> RateLimiter \<Rightarrow> bool list \<times> RateLimiter" where
  "check_run [] rl = ([], rl)"
| "check_run ((now, key) # evs) rl =
    (case check now key rl of (r, rl') \<Rightarrow> case check_run evs rl' of (rs, rl'') \<Rightarrow> (r # rs, rl''))"

definition allowed :: "string \<Rightarrow> (nat \<times> string) list \<Rightarrow> bool list \<Rightarrow> nat" where
  "allowed key evs rs = length (filter (\<lambda>((_, k), r). k = key \<and> r) (zip evs rs))"

lemma tokens_at_grow:
  assumes "rl_ok a rl" "a \<le> b"
  shows "tokens_at b rl key \<le> tokens_at a rl key + secs (b - a) * rl_refill rl"
proof (cases "map_of (rl_buckets rl) key")
  case None
  then show ?thesis using assms by (simp add: tokens_at_def rl_ok_def)
next
  case (Some x)
  have "bk_last x \<le> a" "0 \<le> rl_refill rl" using assms(1) Some by (auto simp: rl_ok_def)
  then have "secs (b - bk_last x) = secs (a - bk_last x) + secs (b - a)" using assms(2) by (simp flip: secs_add)
  moreover have "0 \<le> secs (b - a) * rl_refill rl" using \<open>0 \<le> rl_refill rl\<close> by simp
  ultimately show ?thesis by (simp add: tokens_at_def Some distrib_right min_def)
qed

lemma allowed_simps [simp]:
  "allowed key [] rs = 0" "allowed key ((now, k) # evs) (r # rs) = (if k = key \<and> r then 1 else 0) + allowed key evs rs"
  by (simp_all add: allowed_def)

text \<open>Tokens spent and tokens left never exceed those at the start and those refilled since.\<close>

lemma check_run_spec:
  assumes "rl_ok a rl" "refills rl" "sorted (map fst evs)" "\<forall>e \<in> set evs. a \<le> fst e \<and> fst e \<le> b" "a \<le> b"
    "check_run evs rl = (rs, rl')"
  shows "rl_ok b rl' \<and> refills rl' \<and> rl_capacity rl' = rl_capacity rl \<and> rl_refill rl' = rl_refill rl \<and> rl_max_keys rl' = rl_max_keys rl
    \<and> rat_of_nat (allowed key evs rs) + tokens_at b rl' key \<le> tokens_at a rl key + secs (b - a) * rl_refill rl"
  using assms
proof (induction evs arbitrary: a rl rs)
  case Nil
  then show ?case using tokens_at_grow [OF Nil.prems(1,5)] rl_ok_mono by auto
next
  case (Cons e evs)
  obtain now k where e: "e = (now, k)" by fastforce
  obtain r rl1 where c: "check now k rl = (r, rl1)" by fastforce
  obtain rs1 where rest: "check_run evs rl1 = (rs1, rl')" "rs = r # rs1"
    using Cons.prems(6) by (auto simp: e c split: prod.splits)
  have t: "a \<le> now" "now \<le> b" using Cons.prems(4) e by auto
  note s = check_spec [OF Cons.prems(1) t(1) Cons.prems(2) c, of key]
  have "\<forall>e \<in> set evs. now \<le> fst e \<and> fst e \<le> b" using Cons.prems(3,4) e by auto
  then have ih: "rl_ok b rl' \<and> refills rl' \<and> rl_capacity rl' = rl_capacity rl1 \<and> rl_refill rl' = rl_refill rl1 \<and> rl_max_keys rl' = rl_max_keys rl1
    \<and> rat_of_nat (allowed key evs rs1) + tokens_at b rl' key \<le> tokens_at now rl1 key + secs (b - now) * rl_refill rl1"
    using Cons.IH [OF _ _ _ _ t(2) rest(1)] s Cons.prems(3) by simp
  have "secs (b - a) = secs (now - a) + secs (b - now)" using t by (simp flip: secs_add)
  then have split: "secs (b - a) * rl_refill rl = secs (now - a) * rl_refill rl + secs (b - now) * rl_refill rl"
    by (simp add: distrib_right)
  have "tokens_at now rl key \<le> tokens_at a rl key + secs (now - a) * rl_refill rl"
    by (rule tokens_at_grow [OF Cons.prems(1) t(1)])
  then have "rat_of_nat (allowed key (e # evs) rs) + tokens_at b rl' key \<le> tokens_at a rl key + secs (b - a) * rl_refill rl"
    using ih s unfolding split e rest(2) by (cases "k = key \<and> r") auto
  then show ?case using ih s by simp
qed



end
