(* ===== verification/Abuse.thy ===== *)
theory Abuse
  imports Utf8 Json Store_Refinement
begin

text \<open>
  Abuse reports and the waiting list (\<open>secgit-server/src/abuse.rs\<close>), kept in the encrypted store. The mutex
  serialises the calls. Error texts are abstracted to which step failed; \<open>serde_json\<close> is a codec.
\<close>

record Report =
  rp_id :: string
  rp_repo_id :: string
  rp_reason :: string
  rp_reporter_hash :: string
  rp_ts :: u64

datatype abuse_error = AStore StoreError | ASerde

definition stored_or_default :: "backend \<Rightarrow> EncryptedStore \<Rightarrow> 'a list codec \<Rightarrow> string \<Rightarrow> string \<Rightarrow> world \<Rightarrow> 'a list \<times> world" where
  "stored_or_default B es c repo key w =
    (case store_get B es repo key w of
       (Ok (Some b), w') \<Rightarrow> (unwrap_or (from_slice c b) [], w')
     | (_, w') \<Rightarrow> ([], w'))"

definition store_value :: "backend \<Rightarrow> EncryptedStore \<Rightarrow> 'a codec \<Rightarrow> string \<Rightarrow> string \<Rightarrow> 'a \<Rightarrow> (world, abuse_error, unit) st" where
  "store_value B es c repo key v =
    sbind (smap_err AStore (init_repo B es repo)) (\<lambda>_.
    sbind (slift (ok_or ASerde (to_vec c v))) (\<lambda>b.
    smap_err AStore (store_put B es repo key b)))"

definition abuse_load :: "backend \<Rightarrow> EncryptedStore \<Rightarrow> Report list codec \<Rightarrow> world \<Rightarrow> Report list \<times> world" where
  "abuse_load B es c = stored_or_default B es c ''__abuse__'' ''reports''"

definition abuse_save :: "backend \<Rightarrow> EncryptedStore \<Rightarrow> Report list codec \<Rightarrow> Report list \<Rightarrow> (world, abuse_error, unit) st" where
  "abuse_save B es c reports = store_value B es c ''__abuse__'' ''reports'' reports"

definition make_report :: "backend \<Rightarrow> u64 \<Rightarrow> u64 \<Rightarrow> string \<Rightarrow> string \<Rightarrow> string \<Rightarrow> Report" where
  "make_report B t1 t2 repo_id reason client =
    \<lparr>rp_id = take 16 (hex_encode B (sha256 B (as_bytes (dec (unat t1) @ ''-'' @ repo_id @ ''-'' @ client)))),
     rp_repo_id = repo_id, rp_reason = take_chars 2000 reason,
     rp_reporter_hash = hex_encode B (take 8 (sha256 B (as_bytes client))), rp_ts = t2\<rparr>"

definition report :: "backend \<Rightarrow> EncryptedStore \<Rightarrow> Report list codec \<Rightarrow> u64 \<Rightarrow> u64 \<Rightarrow> string \<Rightarrow> string \<Rightarrow> string \<Rightarrow>
    (world, abuse_error, Report) st" where
  "report B es c t1 t2 repo_id reason client w =
    (case abuse_load B es c w of (reports, w1) \<Rightarrow>
       let rep = make_report B t1 t2 repo_id reason client;
           reports = reports @ [rep];
           reports = (if length reports > 5000 then drop (length reports - 5000) reports else reports)
       in sbind (abuse_save B es c reports) (\<lambda>_. sret rep) w1)"

definition list_reports :: "backend \<Rightarrow> EncryptedStore \<Rightarrow> Report list codec \<Rightarrow> world \<Rightarrow> Report list \<times> world" where
  "list_reports B es c = abuse_load B es c"

definition waitlist_add :: "backend \<Rightarrow> EncryptedStore \<Rightarrow> string list codec \<Rightarrow> string \<Rightarrow> (world, abuse_error, unit) st" where
  "waitlist_add B es c email w =
    (case stored_or_default B es c ''__waitlist__'' ''emails'' w of (emails, w1) \<Rightarrow>
       let emails = (if email \<notin> set emails \<and> length emails < 100000 then emails @ [email] else emails)
       in store_value B es c ''__waitlist__'' ''emails'' emails w1)"

section \<open>The stored queue\<close>

lemma store_value_Ok:
  assumes "store_law B es N" "repo \<in> N" "key \<in> N" "codec_law c" "kept B es N w0 w" "store_value B es c repo key v w = (Ok u, w')"
  shows "reads c (store_view B es N w') repo key (Some v) \<and> store_ok B es N w'"
proof -
  obtain b w1 where b: "to_vec c v = Some b" "init_repo B es repo w = (Ok (), w1)" "store_put B es repo key b w1 = (Ok (), w')"
    using assms(6) by (auto simp: store_value_def sbind_eq_Ok smap_err_eq_Ok)
  have "kept B es N w0 w1" by (rule valid_Ok [OF init_repo_valid [OF assms(1,2)] assms(5) b(2)])
  then have "store_ok B es N w' \<and> store_view B es N w' = upd (store_view B es N w0) repo key (Some b)"
    by (rule valid_Ok [OF store_put_valid [OF assms(1-3)] _ b(3)])
  then show ?thesis using assms(4) b(1) by (auto simp: codec_law_def reads_Some)
qed

lemma stored_or_default_kept:
  assumes "store_law B es N" "repo \<in> N" "key \<in> N" "store_ok B es N w" "stored_or_default B es c repo key w = (x, w')"
  shows "kept B es N w w'"
proof -
  obtain r where r: "store_get B es repo key w = (r, w')"
    using assms(5) by (auto simp: stored_or_default_def split: prod.splits sum.splits option.splits)
  show ?thesis
  proof (cases r)
    case (Inl e)
    show ?thesis by (rule valid_Err [OF store_get_valid [OF assms(1-3)] kept_refl [OF assms(4)] r [unfolded Inl]])
  next
    case (Inr v)
    show ?thesis using valid_Ok [OF store_get_valid [OF assms(1-3)] kept_refl [OF assms(4)] r [unfolded Inr]] by blast
  qed
qed

text \<open>C37: what a successful report leaves in the store. The stored queue is the last 5000 of the reports that were
  read followed by the new one. The queue that could not be read, because of an I/O error, a failed decryption or
  bytes that do not decode, counts as empty: the new report alone replaces it, and every earlier report is lost
  although the caller is told that the report was recorded.\<close>

theorem abuse_report_queue:
  assumes "store_law B es N" "''__abuse__'' \<in> N" "''reports'' \<in> N" "codec_law c" "store_ok B es N w"
    "report B es c t1 t2 repo_id reason client w = (Ok rep, w')"
  shows "(\<exists>queue. reads c (store_view B es N w') ''__abuse__'' ''reports'' (Some queue) \<and> length queue \<le> 5000
      \<and> queue = drop (length (fst (abuse_load B es c w)) + 1 - 5000) (fst (abuse_load B es c w) @ [rep]))
    \<and> (isl (fst (store_get B es ''__abuse__'' ''reports'' w)) \<longrightarrow>
        reads c (store_view B es N w') ''__abuse__'' ''reports'' (Some [rep]))"
proof -
  obtain old w1 where old: "abuse_load B es c w = (old, w1)" by fastforce
  have kept: "kept B es N w w1"
    by (rule stored_or_default_kept [OF assms(1-3,5) old [unfolded abuse_load_def]])
  let ?q = "drop (length old + 1 - 5000) (old @ [rep])"
  have q: "(if length (old @ [rep]) > 5000 then drop (length (old @ [rep]) - 5000) (old @ [rep]) else old @ [rep]) = ?q" by simp
  have rep: "rep = make_report B t1 t2 repo_id reason client"
    using assms(6) unfolding report_def old Let_def prod.case by (auto simp: sbind_eq_Ok simp del: drop_append)
  have "sbind (abuse_save B es c ?q) (\<lambda>_. sret rep) w1 = (Ok rep, w')"
    using assms(6) unfolding report_def old Let_def prod.case rep [symmetric] q .
  then have "store_value B es c ''__abuse__'' ''reports'' ?q w1 = (Ok (), w')"
    by (auto simp: sbind_eq_Ok abuse_save_def simp del: drop_append)
  from store_value_Ok [OF assms(1-4) kept this] have r: "reads c (store_view B es N w') ''__abuse__'' ''reports'' (Some ?q)" ..
  have "old = []" if "isl (fst (store_get B es ''__abuse__'' ''reports'' w))"
    using old that by (auto simp: abuse_load_def stored_or_default_def split: prod.splits sum.splits option.splits)
  then show ?thesis using r by (auto simp: old)
qed

definition demo_report :: Report where
  "demo_report = make_report ref_backend 1 2 ''a/b'' ''spam'' ''1.2.3.4''"

definition demo_queue_json :: "Report list codec" where
  "demo_queue_json = \<lparr>to_vec = (\<lambda>x. if x = [demo_report] then Some [1] else None),
     from_slice = (\<lambda>b. if b = [1] then Some [demo_report] else None)\<rparr>"

lemma abuse_demo_law: "store_law ref_backend demo_store {''__abuse__'', ''reports''}"
proof -
  have "inj_on (\<lambda>s. sha256 ref_backend (as_bytes s)) {''__abuse__'', ''reports''}"
    by (simp add: inj_on_def ref_selectors) code_simp
  then show ?thesis using ref_laws by (simp add: store_law_def demo_store_def)
qed

theorem abuse_report_queue_witness:
  "\<exists>w'. report ref_backend demo_store demo_queue_json 1 2 ''a/b'' ''spam'' ''1.2.3.4'' demo_disk = (Ok demo_report, w')
    \<and> reads demo_queue_json (store_view ref_backend demo_store {''__abuse__'', ''reports''} w') ''__abuse__'' ''reports'' (Some [demo_report])"
proof -
  have "fst (report ref_backend demo_store demo_queue_json 1 2 ''a/b'' ''spam'' ''1.2.3.4'' demo_disk) = Ok demo_report"
    by code_simp
  then obtain w' where r: "report ref_backend demo_store demo_queue_json 1 2 ''a/b'' ''spam'' ''1.2.3.4'' demo_disk = (Ok demo_report, w')"
    unfolding fst_eq_Ok by (elim exE)
  have law: "codec_law demo_queue_json" by (simp add: codec_law_def demo_queue_json_def)
  have load: "fst (abuse_load ref_backend demo_store demo_queue_json demo_disk) = []"
    by (simp add: abuse_load_def stored_or_default_def store_get_def demo_disk_def)
  show ?thesis using abuse_report_queue [OF abuse_demo_law _ _ law demo_disk_ok(1) r] r by (simp add: load)
qed

end
