(* ===== verification/Forge.thy ===== *)
theory Forge
  imports Utf8 Store_Refinement "HOL-Library.List_Lexorder" "HOL-Library.Char_ord"
begin

text \<open>
  Sealing and restoring repositories (\<open>crates/secgit-forge/src/lib.rs\<close>). A repository is a working copy under the
  working root and, sealed, a manifest and numbered bundle segments in the encrypted store. The program git is a
  parameter: the record \<open>git\<close> has a function for each command line the code runs on a repository of type
  \<open>'g\<close>; \<open>git_law\<close> states what is relied on. A working copy is named by its file name under the root.
\<close>

section \<open>Data\<close>

record RefTip =
  rt_name :: string
  rt_oid :: string

record Segment =
  sg_index :: u32
  sg_has_payload :: bool
  sg_size :: u64
  sg_tips :: "RefTip list"

record SealManifest =
  sm_version :: u32
  sm_head :: "string option"
  sm_segments :: "Segment list"

datatype ForgeError = Io | Git | Gix | Store StoreError | NotFound string | Manifest

definition manifest_default :: SealManifest where
  "manifest_default = \<lparr>sm_version = 0, sm_head = None, sm_segments = []\<rparr>"

definition last_tips :: "SealManifest \<Rightarrow> RefTip list" where
  "last_tips m = (if sm_segments m = [] then [] else sg_tips (last (sm_segments m)))"

definition total_size :: "SealManifest \<Rightarrow> u64" where
  "total_size m = sum_list (map sg_size (sm_segments m))"

definition tips_oids :: "RefTip list \<Rightarrow> string list" where
  "tips_oids tips = map rt_oid tips"

text \<open>The setting of the environment variable, if there is one.\<close>

definition max_segments :: "string option \<Rightarrow> u32" where
  "max_segments var =
    (case Option.bind var (parse_unsigned 32) of Some n \<Rightarrow> if n \<ge> 1 then of_nat n else 32 | None \<Rightarrow> 32)"

section \<open>Git and the working copies\<close>

record 'g git =
  git_init :: "'g option \<Rightarrow> 'g option"
  git_for_each_ref :: "'g \<Rightarrow> string option"
  git_symbolic_ref :: "'g \<Rightarrow> string option"
  git_bundle :: "'g \<Rightarrow> string list \<Rightarrow> bytes option"
  git_rev_list :: "'g \<Rightarrow> string list \<Rightarrow> string option"
  git_cat_file :: "'g \<Rightarrow> string \<Rightarrow> bool"
  git_unbundle :: "'g \<Rightarrow> bytes \<Rightarrow> 'g option"
  git_update_ref :: "'g \<Rightarrow> string \<Rightarrow> string \<Rightarrow> 'g option"
  git_set_head :: "'g \<Rightarrow> string \<Rightarrow> 'g option"
  git_clone_bare :: "bytes \<Rightarrow> 'g option"

text \<open>\<open>fw_io\<close> tells for each name under the working root whether the file system can read, write and remove it.\<close>

record 'g forge_world =
  fw_repos :: "string \<Rightarrow> 'g option"
  fw_io :: "string \<Rightarrow> bool"
  fw_store :: world

definition in_store :: "(world, StoreError, 'a) st \<Rightarrow> ('g forge_world, ForgeError, 'a) st" where
  "in_store m fw = (case m (fw_store fw) of (r, w) \<Rightarrow> (map_err Store r, fw\<lparr>fw_store := w\<rparr>))"

definition fs_step :: "string \<Rightarrow> ('g forge_world, ForgeError, unit) st" where
  "fs_step name fw = (if fw_io fw name then (Ok (), fw) else (Err Io, fw))"

text \<open>Characters outside the safe ones become an underscore, one for each character.\<close>

definition safe_char :: "char \<Rightarrow> bool" where
  "safe_char c \<longleftrightarrow> is_digit c \<or> 97 \<le> code c \<and> code c \<le> 122 \<or> 65 \<le> code c \<and> code c \<le> 90 \<or> c \<in> {CHR ''-'', CHR ''_'', CHR ''.''}"

function forge_sanitize :: "string \<Rightarrow> string" where
  "forge_sanitize s =
    (if s = [] then []
     else let n = snd (utf8_next s)
          in (if n = 1 \<and> safe_char (hd s) then [hd s] else ''_'') @ forge_sanitize (drop n s))"
  by pat_completeness auto
termination
proof (relation "measure length", simp_all)
  fix s :: string
  assume "s \<noteq> []"
  then show "length s - snd (utf8_next s) < length s" using utf8_next_pos [of s] by simp
qed

declare forge_sanitize.simps [simp del]

definition repo_path :: "string \<Rightarrow> string" where
  "repo_path repo_id = forge_sanitize repo_id @ ''.git''"

definition forge_exists :: "string \<Rightarrow> 'g forge_world \<Rightarrow> bool" where
  "forge_exists repo_id fw \<longleftrightarrow> fw_repos fw (repo_path repo_id) \<noteq> None"

definition set_repo :: "string \<Rightarrow> 'g option \<Rightarrow> 'g forge_world \<Rightarrow> 'g forge_world" where
  "set_repo repo_id g fw = fw\<lparr>fw_repos := (fw_repos fw)(repo_path repo_id := g)\<rparr>"

text \<open>A command on the working copy that changes it, when it succeeds.\<close>

definition git_step :: "string \<Rightarrow> ('g option \<Rightarrow> 'g option) \<Rightarrow> ('g forge_world, ForgeError, unit) st" where
  "git_step repo_id f fw =
    (case f (fw_repos fw (repo_path repo_id)) of None \<Rightarrow> (Err Git, fw) | Some g \<Rightarrow> (Ok (), set_repo repo_id (Some g) fw))"

definition create_bare :: "'g git \<Rightarrow> string \<Rightarrow> ('g forge_world, ForgeError, unit) st" where
  "create_bare G repo_id = git_step repo_id (git_init G)"

definition remove_working :: "string \<Rightarrow> ('g forge_world, ForgeError, unit) st" where
  "remove_working repo_id fw =
    (if forge_exists repo_id fw then
       (if fw_io fw (repo_path repo_id) then (Ok (), set_repo repo_id None fw) else (Err Io, fw))
     else (Ok (), fw))"

definition forge_delete :: "string \<Rightarrow> ('g forge_world, ForgeError, unit) st" where
  "forge_delete repo_id = remove_working repo_id"

section \<open>Reading the state of a working copy\<close>

definition parse_tip :: "string \<Rightarrow> RefTip option" where
  "parse_tip line =
    (case split_once CHR '' '' line of
       Some (oid, name) \<Rightarrow> if oid \<noteq> [] \<and> name \<noteq> [] then Some \<lparr>rt_name = name, rt_oid = oid\<rparr> else None
     | None \<Rightarrow> None)"

definition current_tips :: "'g git \<Rightarrow> 'g \<Rightarrow> (ForgeError, RefTip list) result" where
  "current_tips G g =
    rbind (ok_or Git (git_for_each_ref G g)) (\<lambda>out.
    Ok (sort_key rt_name (List.map_filter parse_tip (str_lines (from_utf8_lossy out)))))"

definition current_head :: "'g git \<Rightarrow> 'g \<Rightarrow> string option" where
  "current_head G g =
    Option.bind (git_symbolic_ref G g) (\<lambda>s. let t = utrim (from_utf8_lossy s) in if t = [] then None else Some t)"

definition has_new_objects :: "'g git \<Rightarrow> 'g \<Rightarrow> string list \<Rightarrow> (ForgeError, bool) result" where
  "has_new_objects G g not_oids =
    rbind (ok_or Git (git_rev_list G g not_oids)) (\<lambda>out. Ok (split_whitespace (from_utf8_lossy out) \<noteq> []))"

definition existing_oids :: "'g git \<Rightarrow> 'g \<Rightarrow> string list \<Rightarrow> string list" where
  "existing_oids G g oids = filter (git_cat_file G g) oids"

definition bundle_bytes :: "'g git \<Rightarrow> string \<Rightarrow> 'g \<Rightarrow> string list \<Rightarrow> ('g forge_world, ForgeError, bytes) st" where
  "bundle_bytes G repo_id g not_oids =
    sbind (slift (ok_or Git (git_bundle G g not_oids))) (\<lambda>b.
    sbind (fs_step (file_stem (repo_path repo_id) @ ''.'' @ forge_sanitize repo_id @ ''.bundle.tmp'')) (\<lambda>_. sret b))"

section \<open>Sealing\<close>

definition load_manifest :: "backend \<Rightarrow> EncryptedStore \<Rightarrow> SealManifest codec \<Rightarrow> string \<Rightarrow> ('g forge_world, ForgeError, SealManifest) st" where
  "load_manifest B es c repo_id =
    sbind (in_store (get_manifest B es repo_id)) (\<lambda>x.
    case x of Some b \<Rightarrow> slift (ok_or Manifest (from_slice c b)) | None \<Rightarrow> sret manifest_default)"

definition store_manifest :: "backend \<Rightarrow> EncryptedStore \<Rightarrow> SealManifest codec \<Rightarrow> string \<Rightarrow> SealManifest \<Rightarrow> ('g forge_world, ForgeError, unit) st" where
  "store_manifest B es c repo_id m =
    sbind (slift (ok_or Manifest (to_vec c m))) (\<lambda>b. in_store (put_manifest B es repo_id b))"

text \<open>The deletions, whose results are ignored.\<close>

definition delete_segments :: "backend \<Rightarrow> EncryptedStore \<Rightarrow> string \<Rightarrow> Segment list \<Rightarrow> 'g forge_world \<Rightarrow> 'g forge_world" where
  "delete_segments B es repo_id segs fw =
    fw\<lparr>fw_store := fold (\<lambda>s w. snd (delete_segment B es repo_id (sg_index s) w)) segs (fw_store fw)\<rparr>"

definition write_base_segment :: "backend \<Rightarrow> EncryptedStore \<Rightarrow> 'g git \<Rightarrow> string \<Rightarrow> 'g \<Rightarrow> RefTip list \<Rightarrow> SealManifest \<Rightarrow>
    ('g forge_world, ForgeError, SealManifest) st" where
  "write_base_segment B es G repo_id g tips m =
    sbind (bundle_bytes G repo_id g []) (\<lambda>b.
    sbind (\<lambda>fw. (Ok (), delete_segments B es repo_id (sm_segments m) fw)) (\<lambda>_.
    sbind (in_store (put_segment B es repo_id 0 b)) (\<lambda>_.
    sret (m\<lparr>sm_segments := [\<lparr>sg_index = 0, sg_has_payload = True, sg_size = of_nat (length b), sg_tips = tips\<rparr>]\<rparr>))))"

definition compact_to_base :: "backend \<Rightarrow> EncryptedStore \<Rightarrow> 'g git \<Rightarrow> string \<Rightarrow> 'g \<Rightarrow> RefTip list \<Rightarrow> SealManifest \<Rightarrow>
    ('g forge_world, ForgeError, SealManifest) st" where
  "compact_to_base B es G repo_id g tips m = write_base_segment B es G repo_id g tips m"

definition next_index :: "SealManifest \<Rightarrow> u32" where
  "next_index m = (if sm_segments m = [] then 0 else sg_index (last (sm_segments m)) + 1)"

definition append_delta_segment :: "backend \<Rightarrow> EncryptedStore \<Rightarrow> 'g git \<Rightarrow> string \<Rightarrow> 'g \<Rightarrow> RefTip list \<Rightarrow> RefTip list \<Rightarrow> SealManifest \<Rightarrow>
    ('g forge_world, ForgeError, SealManifest) st" where
  "append_delta_segment B es G repo_id g old_tips tips m =
    (let old_oids = existing_oids G g (tips_oids old_tips) in
     sbind (slift (has_new_objects G g old_oids)) (\<lambda>new.
     sbind (if new then
              sbind (bundle_bytes G repo_id g old_oids) (\<lambda>b.
              sbind (in_store (put_segment B es repo_id (next_index m) b)) (\<lambda>_.
              sret \<lparr>sg_index = next_index m, sg_has_payload = True, sg_size = of_nat (length b), sg_tips = tips\<rparr>))
            else sret \<lparr>sg_index = next_index m, sg_has_payload = False, sg_size = 0, sg_tips = tips\<rparr>) (\<lambda>seg.
     sret (m\<lparr>sm_segments := sm_segments m @ [seg]\<rparr>))))"

text \<open>What a seal does to the manifest; \<open>None\<close> when nothing changed since the last one.\<close>

definition seal_segments :: "backend \<Rightarrow> EncryptedStore \<Rightarrow> 'g git \<Rightarrow> u32 \<Rightarrow> string \<Rightarrow> 'g \<Rightarrow> RefTip list \<Rightarrow> string option \<Rightarrow> SealManifest \<Rightarrow>
    ('g forge_world, ForgeError, SealManifest option) st" where
  "seal_segments B es G max_segs repo_id g tips head m =
    (if sm_segments m = [] then sbind (write_base_segment B es G repo_id g tips m) (\<lambda>m'. sret (Some m'))
     else if last_tips m = tips \<and> sm_head m = head then sret None
     else if (of_nat (length (sm_segments m)) :: u32) \<ge> max_segs
     then sbind (compact_to_base B es G repo_id g tips m) (\<lambda>m'. sret (Some m'))
     else sbind (append_delta_segment B es G repo_id g (last_tips m) tips m) (\<lambda>m'. sret (Some m')))"

definition seal_to_store :: "backend \<Rightarrow> EncryptedStore \<Rightarrow> SealManifest codec \<Rightarrow> 'g git \<Rightarrow> u32 \<Rightarrow> string \<Rightarrow> ('g forge_world, ForgeError, unit) st" where
  "seal_to_store B es c G max_segs repo_id fw =
    (case fw_repos fw (repo_path repo_id) of
       None \<Rightarrow> (Err (NotFound repo_id), fw)
     | Some g \<Rightarrow>
         sbind (in_store (init_repo B es repo_id)) (\<lambda>_.
         sbind (slift (current_tips G g)) (\<lambda>tips.
         sbind (load_manifest B es c repo_id) (\<lambda>m.
         sbind (seal_segments B es G max_segs repo_id g tips (current_head G g) m) (\<lambda>x.
         case x of
           None \<Rightarrow> sret ()
         | Some m' \<Rightarrow>
             sbind (store_manifest B es c repo_id (m'\<lparr>sm_version := 1, sm_head := current_head G g\<rparr>)) (\<lambda>_ fw'.
             (Ok (), fw'\<lparr>fw_store := snd (store_delete B es repo_id LEGACY_BUNDLE_KEY (fw_store fw'))\<rparr>)))))) fw)"

definition sealed_size :: "backend \<Rightarrow> EncryptedStore \<Rightarrow> SealManifest codec \<Rightarrow> string \<Rightarrow> ('g forge_world, ForgeError, u64) st" where
  "sealed_size B es c repo_id =
    sbind (in_store (get_manifest B es repo_id)) (\<lambda>x.
    case x of
      Some b \<Rightarrow> sbind (slift (ok_or Manifest (from_slice c b))) (\<lambda>m. sret (total_size m))
    | None \<Rightarrow>
        sbind (in_store (store_get B es repo_id LEGACY_BUNDLE_KEY)) (\<lambda>y.
        sret (case y of Some b \<Rightarrow> of_nat (length b) | None \<Rightarrow> 0)))"

section \<open>Restoring\<close>

definition restore_legacy :: "backend \<Rightarrow> EncryptedStore \<Rightarrow> 'g git \<Rightarrow> string \<Rightarrow> ('g forge_world, ForgeError, bool) st" where
  "restore_legacy B es G repo_id =
    sbind (in_store (store_get B es repo_id LEGACY_BUNDLE_KEY)) (\<lambda>x.
    case x of
      None \<Rightarrow> sret False
    | Some b \<Rightarrow>
        sbind (remove_working repo_id) (\<lambda>_.
        sbind (fs_step (forge_sanitize repo_id @ ''.restore.bundle'')) (\<lambda>_.
        sbind (git_step repo_id (\<lambda>_. git_clone_bare G b)) (\<lambda>_. sret True))))"

fun unbundle_all :: "backend \<Rightarrow> EncryptedStore \<Rightarrow> 'g git \<Rightarrow> string \<Rightarrow> Segment list \<Rightarrow> ('g forge_world, ForgeError, unit) st" where
  "unbundle_all B es G repo_id [] = sret ()"
| "unbundle_all B es G repo_id (seg # segs) =
    (if \<not> sg_has_payload seg then unbundle_all B es G repo_id segs
     else
       sbind (in_store (get_segment B es repo_id (sg_index seg))) (\<lambda>x.
       case x of
         None \<Rightarrow> sfail (Store (Corrupt ''seal segment referenced by manifest is missing''))
       | Some b \<Rightarrow>
           sbind (fs_step (forge_sanitize repo_id @ ''.seg'' @ dec (unat (sg_index seg)) @ ''.bundle'')) (\<lambda>_.
           sbind (git_step repo_id (\<lambda>g. Option.bind g (\<lambda>h. git_unbundle G h b))) (\<lambda>_.
           unbundle_all B es G repo_id segs))))"

fun update_refs :: "'g git \<Rightarrow> string \<Rightarrow> RefTip list \<Rightarrow> ('g forge_world, ForgeError, unit) st" where
  "update_refs G repo_id [] = sret ()"
| "update_refs G repo_id (t # ts) =
    sbind (git_step repo_id (\<lambda>g. Option.bind g (\<lambda>h. git_update_ref G h (rt_name t) (rt_oid t)))) (\<lambda>_. update_refs G repo_id ts)"

definition restore_head :: "'g git \<Rightarrow> string \<Rightarrow> string option \<Rightarrow> 'g forge_world \<Rightarrow> 'g forge_world" where
  "restore_head G repo_id head fw =
    (case head of
       None \<Rightarrow> fw
     | Some h \<Rightarrow> snd (git_step repo_id (\<lambda>g. Option.bind g (\<lambda>r. git_set_head G r h)) fw))"

definition restore_from_store :: "backend \<Rightarrow> EncryptedStore \<Rightarrow> SealManifest codec \<Rightarrow> 'g git \<Rightarrow> string \<Rightarrow> ('g forge_world, ForgeError, bool) st" where
  "restore_from_store B es c G repo_id =
    sbind (in_store (get_manifest B es repo_id)) (\<lambda>x.
    case x of
      None \<Rightarrow> restore_legacy B es G repo_id
    | Some bs \<Rightarrow>
        sbind (slift (ok_or Manifest (from_slice c bs))) (\<lambda>m.
        sbind (remove_working repo_id) (\<lambda>_.
        sbind (git_step repo_id (git_init G)) (\<lambda>_.
        sbind (unbundle_all B es G repo_id (sm_segments m)) (\<lambda>_.
        sbind (update_refs G repo_id (last_tips m)) (\<lambda>_ fw.
        (Ok True, restore_head G repo_id (sm_head m) fw)))))))"

section \<open>Names of working copies\<close>

lemma utf8_next_safe: "safe_char c \<Longrightarrow> utf8_next (c # s) = (True, 1)"
proof -
  assume "safe_char c"
  then have "code c < 0x80" unfolding safe_char_def is_digit_def by (elim disjE insertE emptyE conjE) (auto simp: code_def)
  then have "seq_len (code c) = 1" by (simp add: seq_len_def)
  then show ?thesis by simp
qed

lemma forge_sanitize_safe: "list_all safe_char s \<Longrightarrow> forge_sanitize s = s"
proof (induction s)
  case (Cons c s)
  then show ?case by (subst forge_sanitize.simps) (simp add: utf8_next_safe del: utf8_next.simps)
qed (simp add: forge_sanitize.simps)


definition unit_git :: "unit git" where
  "unit_git = \<lparr>git_init = Some \<circ> case_option () id, git_for_each_ref = (\<lambda>_. None), git_symbolic_ref = (\<lambda>_. None),
      git_bundle = (\<lambda>_ _. None), git_rev_list = (\<lambda>_ _. None), git_cat_file = (\<lambda>_ _. False), git_unbundle = (\<lambda>_ _. None),
      git_update_ref = (\<lambda>_ _ _. None), git_set_head = (\<lambda>_ _. None), git_clone_bare = (\<lambda>_. None)\<rparr>"

definition alice_world :: "unit forge_world" where
  "alice_world = \<lparr>fw_repos = (\<lambda>p. if p = ''alice_x_y.git'' then Some () else None), fw_io = (\<lambda>_. True), fw_store = demo_disk\<rparr>"


end
