(* ===== verification/Forge_Seal.thy ===== *)
theory Forge_Seal
  imports Forge
begin

text \<open>
  What sealing promises: a repository sealed any number of times, incrementally or by compaction, is restored from
  the encrypted store with the references and the head it had at the last seal (\<open>sealed_repo_restores\<close>). A
  compaction that fails half way is not covered: it destroys the sealed repository
  (\<open>failed_compaction_unrestorable\<close>).
\<close>

section \<open>What is relied on of git\<close>

text \<open>\<open>objs\<close>: the objects a repository has, \<open>refs\<close>: its references, \<open>reach\<close>: the objects reachable from an object
  (the same in every repository, since objects are named by their content). The laws are those of the manual
  pages: \<open>for-each-ref\<close> lists each reference once; a bundle of all references without what some objects reach
  unbundles in any repository that has what they reach, and adds the rest; \<open>rev-list\<close> prints nothing when there is
  nothing new; \<open>update-ref\<close> sets a reference to an object that is there, when the names can coexist.\<close>

definition tips_map :: "RefTip list \<Rightarrow> string \<rightharpoonup> string" where
  "tips_map ts = map_of (map (\<lambda>t. (rt_name t, rt_oid t)) ts)"

definition all_reach :: "(string \<Rightarrow> string set) \<Rightarrow> (string \<rightharpoonup> string) \<Rightarrow> string set" where
  "all_reach reach R = \<Union> (reach ` ran R)"

definition tips_law :: "'g git \<Rightarrow> ('g \<Rightarrow> string \<rightharpoonup> string) \<Rightarrow> bool" where
  "tips_law G refs \<longleftrightarrow> (\<forall>g ts. current_tips G g = Ok ts \<longrightarrow> tips_map ts = refs g \<and> distinct (map rt_name ts)
     \<and> (\<forall>g'. refs g' = refs g \<longrightarrow> current_tips G g' = Ok ts))"

definition bundle_law :: "'g git \<Rightarrow> ('g \<Rightarrow> string set) \<Rightarrow> ('g \<Rightarrow> string \<rightharpoonup> string) \<Rightarrow> (string \<Rightarrow> string set) \<Rightarrow> bool" where
  "bundle_law G objs refs reach \<longleftrightarrow>
     (\<forall>g nots b h. git_bundle G g nots = Some b \<longrightarrow> (\<forall>i \<in> set nots. reach i \<subseteq> objs h) \<longrightarrow>
        (\<exists>h'. git_unbundle G h b = Some h' \<and> objs h' = objs h \<union> all_reach reach (refs g) \<and> refs h' = refs h))
   \<and> (\<forall>g nots. has_new_objects G g nots = Ok False \<longrightarrow> all_reach reach (refs g) \<subseteq> (\<Union>i \<in> set nots. reach i))"

definition update_law :: "'g git \<Rightarrow> ('g \<Rightarrow> string set) \<Rightarrow> ('g \<Rightarrow> string \<rightharpoonup> string) \<Rightarrow> (string \<Rightarrow> string set) \<Rightarrow> bool" where
  "update_law G objs refs reach \<longleftrightarrow>
     (\<exists>g0. git_init G None = Some g0 \<and> refs g0 = Map.empty)
   \<and> (\<forall>g h name i. insert name (dom (refs h)) \<subseteq> dom (refs g) \<longrightarrow> reach i \<subseteq> objs h \<longrightarrow>
        (\<exists>h'. git_update_ref G h name i = Some h' \<and> objs h' = objs h \<and> refs h' = (refs h)(name \<mapsto> i)))
   \<and> (\<forall>g h x. current_head G g = Some x \<longrightarrow> (\<exists>h'. git_set_head G h x = Some h' \<and> objs h' = objs h \<and> refs h' = refs h \<and> current_head G h' = Some x))"

definition git_law :: "'g git \<Rightarrow> ('g \<Rightarrow> string set) \<Rightarrow> ('g \<Rightarrow> string \<rightharpoonup> string) \<Rightarrow> (string \<Rightarrow> string set) \<Rightarrow> bool" where
  "git_law G objs refs reach \<longleftrightarrow> tips_law G refs \<and> bundle_law G objs refs reach \<and> update_law G objs refs reach"

section \<open>Sealed repositories\<close>

definition tips_reach :: "(string \<Rightarrow> string set) \<Rightarrow> RefTip list \<Rightarrow> string set" where
  "tips_reach reach ts = (\<Union>t \<in> set ts. reach (rt_oid t))"

lemma tips_lawD:
  assumes "tips_law G refs" "current_tips G g = Ok ts"
  shows "tips_map ts = refs g" "distinct (map rt_name ts)" "refs g' = refs g \<Longrightarrow> current_tips G g' = Ok ts"
  using assms(1) [unfolded tips_law_def, rule_format, OF assms(2)] by blast+

lemma tips_reach_all:
  assumes "tips_law G refs" "current_tips G g = Ok ts"
  shows "tips_reach reach ts = all_reach reach (refs g)"
proof -
  have ts: "tips_map ts = refs g" "distinct (map rt_name ts)" by (rule tips_lawD [OF assms])+
  have "distinct (map fst (map (\<lambda>t. (rt_name t, rt_oid t)) ts))" using ts(2) by (simp add: comp_def)
  from ran_distinct [OF this] have "ran (tips_map ts) = rt_oid ` set ts" by (simp add: tips_map_def image_image)
  then show ?thesis using ts(1) by (simp add: tips_reach_def all_reach_def)
qed

text \<open>A bundle that unbundles wherever \<open>need\<close> is present and adds \<open>got\<close>.\<close>

definition delivers :: "'g git \<Rightarrow> ('g \<Rightarrow> string set) \<Rightarrow> ('g \<Rightarrow> string \<rightharpoonup> string) \<Rightarrow> bytes \<Rightarrow> string set \<Rightarrow> string set \<Rightarrow> bool" where
  "delivers G objs refs b need got \<longleftrightarrow> (\<forall>h. need \<subseteq> objs h \<longrightarrow>
     (\<exists>h'. git_unbundle G h b = Some h' \<and> objs h' = objs h \<union> got \<and> refs h' = refs h))"

text \<open>A segment after \<open>have\<close> has been restored, and a list of them. \<open>V\<close> is what the store holds for the
  repository.\<close>

definition seg_ok :: "'g git \<Rightarrow> ('g \<Rightarrow> string set) \<Rightarrow> ('g \<Rightarrow> string \<rightharpoonup> string) \<Rightarrow> (string \<Rightarrow> string set) \<Rightarrow> (string \<Rightarrow> bytes option) \<Rightarrow>
    string set \<Rightarrow> Segment \<Rightarrow> bool" where
  "seg_ok G objs refs reach V have s \<longleftrightarrow>
    (if sg_has_payload s
     then \<exists>b need. V (segment_key (sg_index s)) = Some b \<and> need \<subseteq> have \<and> delivers G objs refs b need (tips_reach reach (sg_tips s))
     else tips_reach reach (sg_tips s) \<subseteq> have)"

fun segs_ok :: "'g git \<Rightarrow> ('g \<Rightarrow> string set) \<Rightarrow> ('g \<Rightarrow> string \<rightharpoonup> string) \<Rightarrow> (string \<Rightarrow> string set) \<Rightarrow> (string \<Rightarrow> bytes option) \<Rightarrow>
    string set \<Rightarrow> Segment list \<Rightarrow> bool" where
  "segs_ok G objs refs reach V have [] \<longleftrightarrow> True"
| "segs_ok G objs refs reach V have (s # ss) \<longleftrightarrow>
    seg_ok G objs refs reach V have s \<and> segs_ok G objs refs reach V (have \<union> tips_reach reach (sg_tips s)) ss"

lemma segs_ok_snoc:
  "segs_ok G objs refs reach V have (ss @ [s]) \<longleftrightarrow> segs_ok G objs refs reach V have ss
    \<and> seg_ok G objs refs reach V (have \<union> (\<Union>x \<in> set ss. tips_reach reach (sg_tips x))) s"
  by (induction ss arbitrary: "have") (auto simp: Un_assoc)

lemma segs_ok_cong:
  assumes "\<And>s. s \<in> set ss \<Longrightarrow> V' (segment_key (sg_index s)) = V (segment_key (sg_index s))"
  shows "segs_ok G objs refs reach V' have ss \<longleftrightarrow> segs_ok G objs refs reach V have ss"
  using assms by (induction ss arbitrary: "have") (simp_all add: seg_ok_def)

lemma segment_key_inj [simp]: "segment_key i = segment_key j \<longleftrightarrow> i = j"
  by (simp add: segment_key_def word_unat_eq_iff)

lemma segment_key_other [simp]:
  "segment_key i \<noteq> SEAL_MANIFEST_KEY" "SEAL_MANIFEST_KEY \<noteq> segment_key i"
  "segment_key i \<noteq> LEGACY_BUNDLE_KEY" "LEGACY_BUNDLE_KEY \<noteq> segment_key i"
  "SEAL_MANIFEST_KEY \<noteq> LEGACY_BUNDLE_KEY" "LEGACY_BUNDLE_KEY \<noteq> SEAL_MANIFEST_KEY"
  by (auto simp: segment_key_def SEAL_MANIFEST_KEY_def LEGACY_BUNDLE_KEY_def)

text \<open>The segments of a manifest are numbered from 0, at most \<open>max_segs\<close> of them, and the first has a bundle.\<close>

definition segs_sealed :: "'g git \<Rightarrow> ('g \<Rightarrow> string set) \<Rightarrow> ('g \<Rightarrow> string \<rightharpoonup> string) \<Rightarrow> (string \<Rightarrow> string set) \<Rightarrow> u32 \<Rightarrow>
    (string \<Rightarrow> bytes option) \<Rightarrow> Segment list \<Rightarrow> bool" where
  "segs_sealed G objs refs reach max_segs V ss \<longleftrightarrow> length ss \<le> unat max_segs
    \<and> (\<forall>i < length ss. sg_index (ss ! i) = of_nat i) \<and> (ss \<noteq> [] \<longrightarrow> sg_has_payload (hd ss)) \<and> segs_ok G objs refs reach V {} ss"

definition forge_names :: "string set \<Rightarrow> u32 \<Rightarrow> string \<Rightarrow> bool" where
  "forge_names N max_segs repo_id \<longleftrightarrow> 0 < max_segs \<and> repo_id \<in> N \<and> SEAL_MANIFEST_KEY \<in> N \<and> LEGACY_BUNDLE_KEY \<in> N
    \<and> (\<forall>i \<le> unat max_segs. segment_key (of_nat i) \<in> N)"

section \<open>The steps of a seal\<close>

lemma in_store_run: "in_store m fw = (x, fw') \<longleftrightarrow> (\<exists>y w'. m (fw_store fw) = (y, w') \<and> x = map_err Store y \<and> fw' = fw\<lparr>fw_store := w'\<rparr>)"
  by (auto simp: in_store_def split: prod.splits)

lemma in_store_Ok: "in_store m fw = (Ok v, fw') \<longleftrightarrow> (\<exists>w'. m (fw_store fw) = (Ok v, w') \<and> fw' = fw\<lparr>fw_store := w'\<rparr>)"
  by (auto simp: in_store_def split: prod.splits)

lemma bundle_delivers:
  assumes "bundle_law G objs refs reach" "git_bundle G g nots = Some b"
  shows "delivers G objs refs b (\<Union>i \<in> set nots. reach i) (all_reach reach (refs g))"
  unfolding delivers_def
proof (intro allI impI)
  fix h assume "(\<Union>i \<in> set nots. reach i) \<subseteq> objs h"
  then have "\<forall>i \<in> set nots. reach i \<subseteq> objs h" by blast
  then show "\<exists>h'. git_unbundle G h b = Some h' \<and> objs h' = objs h \<union> all_reach reach (refs g) \<and> refs h' = refs h"
    using assms(1) [unfolded bundle_law_def, THEN conjunct1, rule_format, OF assms(2)] by blast
qed

lemma bundle_bytes_run:
  "bundle_bytes G repo_id g nots fw = (Ok b, fw') \<Longrightarrow> git_bundle G g nots = Some b \<and> fw' = fw"
  by (auto simp: bundle_bytes_def sbind_eq_Ok fs_step_def split: if_splits)

text \<open>The view of one repository after its segments are deleted.\<close>

lemma delete_segments_run:
  assumes "store_law B es N" "repo_id \<in> N" "\<forall>s \<in> set segs. segment_key (sg_index s) \<in> N" "store_ok B es N w"
  defines "w' \<equiv> fold (\<lambda>s w. snd (delete_segment B es repo_id (sg_index s) w)) segs w"
  shows "store_ok B es N w' \<and> (\<forall>k. (\<forall>s \<in> set segs. k \<noteq> segment_key (sg_index s)) \<longrightarrow> store_view B es N w' repo_id k = store_view B es N w repo_id k)
    \<and> w_can_read w' = w_can_read w \<and> w_can_write w' = w_can_write w
    \<and> ((\<forall>i. w_can_write w (object_path B es repo_id (segment_key i))) \<longrightarrow> (\<forall>s \<in> set segs. store_view B es N w' repo_id (segment_key (sg_index s)) = None))
    \<and> (\<forall>k. store_view B es N w repo_id k = None \<longrightarrow> store_view B es N w' repo_id k = None)"
  using assms(3,4) unfolding w'_def
proof (induction segs arbitrary: w)
  case (Cons s segs)
  obtain x w1 where d: "store_delete B es repo_id (segment_key (sg_index s)) w = (x, w1)" by fastforce
  have n: "segment_key (sg_index s) \<in> N" using Cons.prems(1) by simp
  note r = store_delete_run [OF assms(1,2) n Cons.prems(2) d]
  have dw: "w_can_read w1 = w_can_read w \<and> w_can_write w1 = w_can_write w"
    "\<forall>i. w_can_write w (object_path B es repo_id (segment_key i)) \<Longrightarrow> \<not> isl x"
    using d by (auto simp: store_delete_def fs_remove_file_def split: if_splits)
  have ih: "store_ok B es N (fold (\<lambda>s w. snd (delete_segment B es repo_id (sg_index s) w)) segs w1)
    \<and> (\<forall>k. (\<forall>s \<in> set segs. k \<noteq> segment_key (sg_index s)) \<longrightarrow>
        store_view B es N (fold (\<lambda>s w. snd (delete_segment B es repo_id (sg_index s) w)) segs w1) repo_id k = store_view B es N w1 repo_id k)
    \<and> w_can_read (fold (\<lambda>s w. snd (delete_segment B es repo_id (sg_index s) w)) segs w1) = w_can_read w1
    \<and> w_can_write (fold (\<lambda>s w. snd (delete_segment B es repo_id (sg_index s) w)) segs w1) = w_can_write w1
    \<and> ((\<forall>i. w_can_write w1 (object_path B es repo_id (segment_key i))) \<longrightarrow>
        (\<forall>s \<in> set segs. store_view B es N (fold (\<lambda>s w. snd (delete_segment B es repo_id (sg_index s) w)) segs w1) repo_id (segment_key (sg_index s)) = None))
    \<and> (\<forall>k. store_view B es N w1 repo_id k = None \<longrightarrow>
        store_view B es N (fold (\<lambda>s w. snd (delete_segment B es repo_id (sg_index s) w)) segs w1) repo_id k = None)"
    using Cons.IH [of w1] Cons.prems(1) r by simp
  have step: "fold (\<lambda>s w. snd (delete_segment B es repo_id (sg_index s) w)) (s # segs) w =
      fold (\<lambda>s w. snd (delete_segment B es repo_id (sg_index s) w)) segs w1"
    by (simp add: delete_segment_def d)
  show ?case unfolding step using ih r dw by (cases "isl x") auto
qed simp

text \<open>The numbering is kept when a segment is appended.\<close>

lemma segs_sealed_names:
  assumes "segs_sealed G objs refs reach max_segs V ss" "forge_names N max_segs repo_id" "s \<in> set ss"
  shows "segment_key (sg_index s) \<in> N"
proof -
  obtain i where "i < length ss" "s = ss ! i" using assms(3) by (metis in_set_conv_nth)
  then show ?thesis using assms(1,2) by (simp add: segs_sealed_def forge_names_def)
qed

lemma segs_sealed_next:
  assumes "segs_sealed G objs refs reach max_segs V ss" "ss \<noteq> []"
  shows "sg_index (last ss) + 1 = of_nat (length ss)"
proof -
  have "last ss = ss ! (length ss - 1)" using assms(2) by (rule last_conv_nth)
  then have "sg_index (last ss) = of_nat (length ss - 1)" using assms by (simp add: segs_sealed_def)
  then show ?thesis using assms(2) by (metis One_nat_def Suc_pred length_greater_0_conv of_nat_Suc add.commute)
qed

lemma segs_sealed_fresh:
  assumes "segs_sealed G objs refs reach max_segs V ss" "s \<in> set ss"
  shows "sg_index s \<noteq> of_nat (length ss)"
proof -
  obtain i where i: "i < length ss" "s = ss ! i" using assms(2) by (metis in_set_conv_nth)
  have lt: "length ss < 2 ^ 32"
    using assms(1) unsigned_less [of max_segs, where 'a = nat] by (simp add: segs_sealed_def)
  have "unat (of_nat i :: u32) = i" "unat (of_nat (length ss) :: u32) = length ss"
    using i(1) lt by (simp_all add: unat_of_nat)
  then have "(of_nat i :: u32) \<noteq> of_nat (length ss)" using i(1) by (metis less_irrefl)
  then show ?thesis using assms(1) i by (simp add: segs_sealed_def)
qed

lemma segs_sealed_append:
  assumes "segs_sealed G objs refs reach max_segs V ss" "ss \<noteq> []" "length ss < unat max_segs" "sg_index s = of_nat (length ss)"
    "\<And>x. x \<in> set ss \<Longrightarrow> V' (segment_key (sg_index x)) = V (segment_key (sg_index x))"
    "seg_ok G objs refs reach V' (\<Union>x \<in> set ss. tips_reach reach (sg_tips x)) s"
  shows "segs_sealed G objs refs reach max_segs V' (ss @ [s])"
proof -
  have "segs_ok G objs refs reach V' {} ss \<longleftrightarrow> segs_ok G objs refs reach V {} ss" by (rule segs_ok_cong) (rule assms(5))
  then show ?thesis using assms(1-4,6) by (auto simp: segs_sealed_def segs_ok_snoc nth_append less_Suc_eq)
qed

text \<open>A base segment.\<close>

lemma write_base_Ok:
  assumes law: "store_law B es N" "forge_names N max_segs repo_id" "git_law G objs refs reach" "store_ok B es N (fw_store fw)"
    and old: "\<forall>s \<in> set (sm_segments m). segment_key (sg_index s) \<in> N"
    and tips: "current_tips G g = Ok tips" and run: "write_base_segment B es G repo_id g tips m fw = (Ok m', fw')"
  shows "store_ok B es N (fw_store fw') \<and> segs_sealed G objs refs reach max_segs (store_view B es N (fw_store fw') repo_id) (sm_segments m')
    \<and> sm_segments m' \<noteq> [] \<and> last_tips m' = tips"
proof -
  let ?w = "fw_store (delete_segments B es repo_id (sm_segments m) fw)"
  obtain b w' where b: "git_bundle G g [] = Some b" "store_put B es repo_id (segment_key 0) b ?w = (Ok (), w')" "fw_store fw' = w'"
    "m' = m\<lparr>sm_segments := [\<lparr>sg_index = 0, sg_has_payload = True, sg_size = of_nat (length b), sg_tips = tips\<rparr>]\<rparr>"
    using run bundle_bytes_run unfolding write_base_segment_def sbind_eq_Ok in_store_Ok put_segment_def by fastforce
  have n: "repo_id \<in> N" "segment_key 0 \<in> N" "1 \<le> unat max_segs"
    using law(2) by (force simp: forge_names_def word_less_nat_alt)+
  have ok: "store_ok B es N ?w" using delete_segments_run [OF law(1) n(1) old law(4)] by (simp add: delete_segments_def)
  have w': "store_ok B es N w'" "store_view B es N w' repo_id (segment_key 0) = Some b"
    using store_put_run [OF law(1) n(1,2) ok b(2)] by simp_all
  have "tips_law G refs" "bundle_law G objs refs reach" using law(3) by (simp_all add: git_law_def)
  then have "delivers G objs refs b {} (tips_reach reach tips)"
    using bundle_delivers [OF _ b(1), of objs refs reach] tips_reach_all [OF _ tips, of refs reach] by simp
  then show ?thesis using w' n(3) b(3) by (auto simp: b(4) segs_sealed_def seg_ok_def last_tips_def)
qed

text \<open>A delta segment.\<close>

definition delta :: "u32 \<Rightarrow> bytes option \<Rightarrow> RefTip list \<Rightarrow> Segment" where
  "delta i x tips = \<lparr>sg_index = i, sg_has_payload = x \<noteq> None, sg_size = (case x of Some b \<Rightarrow> of_nat (length b) | None \<Rightarrow> 0), sg_tips = tips\<rparr>"

lemma append_delta_run:
  assumes "append_delta_segment B es G repo_id g old tips m fw = (Ok m', fw')"
  shows "\<exists>x. m' = m\<lparr>sm_segments := sm_segments m @ [delta (next_index m) x tips]\<rparr> \<and>
    (case x of
       Some b \<Rightarrow> git_bundle G g (existing_oids G g (tips_oids old)) = Some b
         \<and> store_put B es repo_id (segment_key (next_index m)) b (fw_store fw) = (Ok (), fw_store fw')
     | None \<Rightarrow> has_new_objects G g (existing_oids G g (tips_oids old)) = Ok False \<and> fw' = fw)"
proof -
  obtain new where new: "has_new_objects G g (existing_oids G g (tips_oids old)) = Ok new"
    using assms by (auto simp: append_delta_segment_def Let_def sbind_eq_Ok)
  show ?thesis
  proof (cases new)
    case True
    then show ?thesis using assms new
      by (auto simp: append_delta_segment_def Let_def sbind_eq_Ok in_store_Ok put_segment_def delta_def
        dest!: bundle_bytes_run intro: exI [of _ "Some _"])
  next
    case False
    then show ?thesis using assms new
      by (auto simp: append_delta_segment_def Let_def sbind_eq_Ok delta_def intro: exI [of _ None])
  qed
qed

lemma append_delta_Ok:
  assumes law: "store_law B es N" "forge_names N max_segs repo_id" "git_law G objs refs reach" "store_ok B es N (fw_store fw)"
    and old: "segs_sealed G objs refs reach max_segs (store_view B es N (fw_store fw) repo_id) (sm_segments m)" "sm_segments m \<noteq> []"
      "length (sm_segments m) < unat max_segs"
    and tips: "current_tips G g = Ok tips" and run: "append_delta_segment B es G repo_id g (last_tips m) tips m fw = (Ok m', fw')"
  shows "store_ok B es N (fw_store fw') \<and> segs_sealed G objs refs reach max_segs (store_view B es N (fw_store fw') repo_id) (sm_segments m')
    \<and> sm_segments m' \<noteq> [] \<and> last_tips m' = tips"
proof -
  let ?ss = "sm_segments m" and ?nots = "existing_oids G g (tips_oids (last_tips m))"
  let ?have = "\<Union>x \<in> set ?ss. tips_reach reach (sg_tips x)" and ?V' = "store_view B es N (fw_store fw') repo_id"
  have laws: "tips_law G refs" "bundle_law G objs refs reach" using law(3) by (simp_all add: git_law_def)
  have idx: "next_index m = of_nat (length ?ss)" using segs_sealed_next [OF old(1,2)] old(2) by (simp add: next_index_def)
  have reach: "tips_reach reach tips = all_reach reach (refs g)" by (rule tips_reach_all [OF laws(1) tips])
  have "(\<Union>i \<in> set ?nots. reach i) \<subseteq> tips_reach reach (last_tips m)"
    by (auto simp: existing_oids_def tips_oids_def tips_reach_def)
  also have "\<dots> \<subseteq> ?have" using UN_upper [OF last_in_set [OF old(2)], of "\<lambda>x. tips_reach reach (sg_tips x)"] old(2) by (simp add: last_tips_def)
  finally have need: "(\<Union>i \<in> set ?nots. reach i) \<subseteq> ?have" .
  have n: "repo_id \<in> N" "segment_key (of_nat (length ?ss)) \<in> N" using law(2) old(3) by (simp_all add: forge_names_def)
  obtain x where m': "m' = m\<lparr>sm_segments := ?ss @ [delta (of_nat (length ?ss)) x tips]\<rparr>"
    and x: "case x of Some b \<Rightarrow> git_bundle G g ?nots = Some b
         \<and> store_put B es repo_id (segment_key (of_nat (length ?ss))) b (fw_store fw) = (Ok (), fw_store fw')
     | None \<Rightarrow> has_new_objects G g ?nots = Ok False \<and> fw' = fw"
    using append_delta_run [OF run] unfolding idx by (elim exE conjE)
  have step: "store_ok B es N (fw_store fw') \<and> (\<forall>k. k \<noteq> segment_key (of_nat (length ?ss)) \<longrightarrow> ?V' k = store_view B es N (fw_store fw) repo_id k)
    \<and> seg_ok G objs refs reach ?V' ?have (delta (of_nat (length ?ss)) x tips)"
  proof (cases x)
    case None
    then have "all_reach reach (refs g) \<subseteq> (\<Union>i \<in> set ?nots. reach i)" "fw' = fw"
      using laws(2) x by (simp_all add: bundle_law_def)
    then show ?thesis using need law(4) reach None by (simp add: seg_ok_def delta_def)
  next
    case (Some b)
    then have b: "git_bundle G g ?nots = Some b" "store_put B es repo_id (segment_key (of_nat (length ?ss))) b (fw_store fw) = (Ok (), fw_store fw')"
      using x by simp_all
    have "delivers G objs refs b (\<Union>i \<in> set ?nots. reach i) (tips_reach reach tips)"
      unfolding reach by (rule bundle_delivers [OF laws(2) b(1)])
    then show ?thesis using store_put_run [OF law(1) n law(4) b(2)] need Some by (auto simp: seg_ok_def delta_def)
  qed
  have "segs_sealed G objs refs reach max_segs ?V' (?ss @ [delta (of_nat (length ?ss)) x tips])"
    using step segs_sealed_fresh [OF old(1)] by (intro segs_sealed_append [OF old(1,2,3)]) (simp_all add: delta_def)
  then show ?thesis using step by (simp add: m' last_tips_def delta_def)
qed

section \<open>A seal as a whole\<close>

text \<open>The store holds working copy \<open>g\<close> of a repository.\<close>

definition sealed :: "'g git \<Rightarrow> ('g \<Rightarrow> string set) \<Rightarrow> ('g \<Rightarrow> string \<rightharpoonup> string) \<Rightarrow> (string \<Rightarrow> string set) \<Rightarrow> u32 \<Rightarrow> SealManifest codec \<Rightarrow>
    (string \<Rightarrow> bytes option) \<Rightarrow> SealManifest \<Rightarrow> 'g \<Rightarrow> bool" where
  "sealed G objs refs reach max_segs c V m g \<longleftrightarrow>
     Option.bind (V SEAL_MANIFEST_KEY) (from_slice c) = Some m \<and> sm_segments m \<noteq> []
   \<and> segs_sealed G objs refs reach max_segs V (sm_segments m)
   \<and> current_tips G g = Ok (last_tips m) \<and> sm_head m = current_head G g"

definition compaction_due :: "SealManifest codec \<Rightarrow> u32 \<Rightarrow> (string \<Rightarrow> bytes option) \<Rightarrow> bool" where
  "compaction_due c max_segs V =
    (case Option.bind (V SEAL_MANIFEST_KEY) (from_slice c) of
       None \<Rightarrow> False | Some m \<Rightarrow> max_segs \<le> of_nat (length (sm_segments m)))"

lemma load_manifest_run:
  assumes "store_law B es N" "forge_names N max_segs repo_id" "store_ok B es N (fw_store fw)" "load_manifest B es c repo_id fw = (x, fw')"
  shows "store_ok B es N (fw_store fw') \<and> store_view B es N (fw_store fw') = store_view B es N (fw_store fw)
    \<and> (\<forall>m. x = Ok m \<longrightarrow> (case store_view B es N (fw_store fw) repo_id SEAL_MANIFEST_KEY of
          None \<Rightarrow> m = manifest_default | Some b \<Rightarrow> from_slice c b = Some m))"
proof -
  obtain y w where g: "store_get B es repo_id SEAL_MANIFEST_KEY (fw_store fw) = (y, w)" by fastforce
  have n: "repo_id \<in> N" "SEAL_MANIFEST_KEY \<in> N" using assms(2) by (simp_all add: forge_names_def)
  note r = store_get_run [OF assms(1) n assms(3) g]
  have "fw' = fw\<lparr>fw_store := w\<rparr> \<and> x = rbind (map_err Store y) (\<lambda>b. case b of Some b \<Rightarrow> ok_or Manifest (from_slice c b) | None \<Rightarrow> Ok manifest_default)"
    using assms(4) g by (cases y) (auto simp: load_manifest_def in_store_def get_manifest_def sbind_def split: option.splits)
  then show ?thesis using r by (cases y) (auto simp: ok_or_def split: option.splits)
qed

text \<open>What a seal does once the manifest is read.\<close>

definition seal_rest :: "backend \<Rightarrow> EncryptedStore \<Rightarrow> SealManifest codec \<Rightarrow> 'g git \<Rightarrow> u32 \<Rightarrow> string \<Rightarrow> 'g \<Rightarrow> RefTip list \<Rightarrow> SealManifest \<Rightarrow>
    ('g forge_world, ForgeError, unit) st" where
  "seal_rest B es c G max_segs repo_id g tips m =
    sbind (seal_segments B es G max_segs repo_id g tips (current_head G g) m) (\<lambda>x.
    case x of
      None \<Rightarrow> sret ()
    | Some m' \<Rightarrow>
        sbind (store_manifest B es c repo_id (m'\<lparr>sm_version := 1, sm_head := current_head G g\<rparr>)) (\<lambda>_ fw'.
        (Ok (), fw'\<lparr>fw_store := snd (store_delete B es repo_id LEGACY_BUNDLE_KEY (fw_store fw'))\<rparr>)))"

lemma seal_start:
  assumes law: "store_law B es N" "forge_names N max_segs repo_id" "store_ok B es N (fw_store fw)"
    and run: "fw_repos fw (repo_path repo_id) = Some g" "seal_to_store B es c G max_segs repo_id fw = (x, fw')"
  shows "(isl x \<and> store_ok B es N (fw_store fw') \<and> store_view B es N (fw_store fw') = store_view B es N (fw_store fw))
    \<or> (\<exists>fw1 m tips. store_ok B es N (fw_store fw1) \<and> store_view B es N (fw_store fw1) = store_view B es N (fw_store fw)
        \<and> current_tips G g = Ok tips
        \<and> (case store_view B es N (fw_store fw) repo_id SEAL_MANIFEST_KEY of None \<Rightarrow> m = manifest_default | Some b \<Rightarrow> from_slice c b = Some m)
        \<and> seal_rest B es c G max_segs repo_id g tips m fw1 = (x, fw'))"
proof -
  have n: "repo_id \<in> N" using law(2) by (simp add: forge_names_def)
  obtain y w where i: "init_repo B es repo_id (fw_store fw) = (y, w)" by fastforce
  note ini = init_repo_run [OF law(1) n law(3) i]
  let ?fw = "fw\<lparr>fw_store := w\<rparr>"
  obtain z fw1 where l: "load_manifest B es c repo_id ?fw = (z, fw1)" by fastforce
  have ok: "store_ok B es N (fw_store ?fw)" using ini by simp
  note lm = load_manifest_run [OF law(1,2) ok l]
  show ?thesis
  proof (cases "isl y \<or> isl (current_tips G g) \<or> isl z")
    case True
    then have "isl x \<and> (fw' = ?fw \<or> fw' = fw1)" using run i l
      by (cases y; cases "current_tips G g"; cases z) (auto simp: seal_to_store_def sbind_def in_store_def)
    then show ?thesis using ini lm by auto
  next
    case False
    then obtain u tips m where "y = Ok u" "current_tips G g = Ok tips" "z = Ok m"
      by (cases y; cases "current_tips G g"; cases z) auto
    moreover from this have "seal_rest B es c G max_segs repo_id g tips m fw1 = (x, fw')" using run i l
      by (simp add: seal_to_store_def sbind_def [of "in_store _"] sbind_def [of "slift _"] sbind_def [of "load_manifest _ _ _ _"]
          in_store_def seal_rest_def [abs_def])
    ultimately show ?thesis using ini lm by auto
  qed
qed

lemma seal_segments_Ok:
  assumes law: "store_law B es N" "forge_names N max_segs repo_id" "git_law G objs refs reach" "store_ok B es N (fw_store fw)"
    and old: "segs_sealed G objs refs reach max_segs (store_view B es N (fw_store fw) repo_id) (sm_segments m)"
    and tips: "current_tips G g = Ok tips" and run: "seal_segments B es G max_segs repo_id g tips head m fw = (Ok x, fw')"
  shows "case x of None \<Rightarrow> fw' = fw \<and> sm_segments m \<noteq> [] \<and> last_tips m = tips \<and> sm_head m = head
    | Some m' \<Rightarrow> store_ok B es N (fw_store fw') \<and> segs_sealed G objs refs reach max_segs (store_view B es N (fw_store fw') repo_id) (sm_segments m')
       \<and> sm_segments m' \<noteq> [] \<and> last_tips m' = tips"
proof -
  have names: "\<forall>s \<in> set (sm_segments m). segment_key (sg_index s) \<in> N" using segs_sealed_names [OF old law(2)] by simp
  note base = write_base_Ok [OF law names tips]
  have lt: "length (sm_segments m) < 2 ^ 32" "length (sm_segments m) \<le> unat max_segs"
    using old unsigned_less [of max_segs, where 'a = nat] by (simp_all add: segs_sealed_def)
  have due: "max_segs \<le> of_nat (length (sm_segments m)) \<longleftrightarrow> \<not> length (sm_segments m) < unat max_segs"
    using lt(1) by (simp add: word_le_nat_alt unat_of_nat not_less)
  consider "sm_segments m = []" | "sm_segments m \<noteq> []" "last_tips m = tips \<and> sm_head m = head"
    | "sm_segments m \<noteq> []" "\<not> (last_tips m = tips \<and> sm_head m = head)" "max_segs \<le> of_nat (length (sm_segments m))"
    | "sm_segments m \<noteq> []" "\<not> (last_tips m = tips \<and> sm_head m = head)" "length (sm_segments m) < unat max_segs"
    using due by blast
  then show ?thesis
  proof cases
    case 1
    then obtain m' where "write_base_segment B es G repo_id g tips m fw = (Ok m', fw')" "x = Some m'"
      using run by (auto simp: seal_segments_def sbind_eq_Ok)
    then show ?thesis using base by simp
  next
    case 2
    then show ?thesis using run by (simp add: seal_segments_def)
  next
    case 3
    then obtain m' where "write_base_segment B es G repo_id g tips m fw = (Ok m', fw')" "x = Some m'"
      using run by (auto simp: seal_segments_def sbind_eq_Ok compact_to_base_def)
    then show ?thesis using base by simp
  next
    case 4
    then obtain m' where "append_delta_segment B es G repo_id g (last_tips m) tips m fw = (Ok m', fw')" "x = Some m'"
      using run due by (auto simp: seal_segments_def sbind_eq_Ok)
    then show ?thesis using append_delta_Ok [OF law old 4(1,3) tips] by simp
  qed
qed

text \<open>Unless it compacts, a seal writes no segment the manifest names, also when it fails.\<close>

definition outside :: "backend \<Rightarrow> EncryptedStore \<Rightarrow> string set \<Rightarrow> string \<Rightarrow> string \<Rightarrow> (string \<Rightarrow> bytes option) \<Rightarrow> 'g forge_world \<Rightarrow> bool" where
  "outside B es N repo_id key V fw \<longleftrightarrow>
    store_ok B es N (fw_store fw) \<and> (\<forall>k. k \<noteq> key \<longrightarrow> store_view B es N (fw_store fw) repo_id k = V k)"

lemma put_outside:
  assumes "store_law B es N" "repo_id \<in> N" "key \<in> N" "outside B es N repo_id key V fw" "store_put B es repo_id key b (fw_store fw) = (x, w)"
  shows "outside B es N repo_id key V (fw\<lparr>fw_store := w\<rparr>)"
  using store_put_run [OF assms(1-3) _ assms(5)] assms(4) by (simp add: outside_def)

lemma put_segment_outside:
  assumes "store_law B es N" "repo_id \<in> N" "segment_key i \<in> N"
  shows "valid (outside B es N repo_id (segment_key i) V) (in_store (put_segment B es repo_id i b))
    (\<lambda>_. outside B es N repo_id (segment_key i) V) (outside B es N repo_id (segment_key i) V)"
  by (rule validI) (auto simp: in_store_run put_segment_def intro: put_outside [OF assms])

lemma bundle_outside:
  "valid P (bundle_bytes G repo_id g nots) (\<lambda>_. P) P"
  by (auto simp: valid_def bundle_bytes_def sbind_def fs_step_def split: sum.splits prod.splits)

lemma slift_outside: "valid P (slift r) (\<lambda>_. P) P"
  by (simp add: valid_lift)

lemma sret_outside: "valid P (sret x) (\<lambda>_. P) P"
  by (simp add: valid_ret)

lemma seal_segments_outside:
  assumes "store_law B es N" "repo_id \<in> N" "segment_key (next_index m) \<in> N" "sm_segments m = [] \<or> \<not> max_segs \<le> of_nat (length (sm_segments m))"
  shows "valid (outside B es N repo_id (segment_key (next_index m)) V) (seal_segments B es G max_segs repo_id g tips head m)
    (\<lambda>_. outside B es N repo_id (segment_key (next_index m)) V) (outside B es N repo_id (segment_key (next_index m)) V)"
proof -
  let ?P = "outside B es N repo_id (segment_key (next_index m)) V"
  note steps = valid_bind bundle_outside slift_outside sret_outside put_segment_outside [OF assms(1-3)]
  consider "sm_segments m = []" | "sm_segments m \<noteq> []" "last_tips m = tips \<and> sm_head m = head"
    | "sm_segments m \<noteq> []" "\<not> (last_tips m = tips \<and> sm_head m = head)" "\<not> max_segs \<le> of_nat (length (sm_segments m))"
    using assms(4) by blast
  then show ?thesis
  proof cases
    case 1
    have "seal_segments B es G max_segs repo_id g tips head m = sbind (write_base_segment B es G repo_id g tips m) (\<lambda>m'. sret (Some m'))"
      using 1 by (simp add: seal_segments_def)
    moreover have "write_base_segment B es G repo_id g tips m = sbind (bundle_bytes G repo_id g []) (\<lambda>b.
        sbind (sret ()) (\<lambda>_. sbind (in_store (put_segment B es repo_id (next_index m) b)) (\<lambda>_.
        sret (m\<lparr>sm_segments := [\<lparr>sg_index = 0, sg_has_payload = True, sg_size = of_nat (length b), sg_tips = tips\<rparr>]\<rparr>))))"
      using 1 by (simp add: write_base_segment_def delete_segments_def next_index_def sret_def [abs_def])
    ultimately show ?thesis by simp (rule steps)+
  next
    case 2
    then show ?thesis by (simp add: seal_segments_def sret_outside)
  next
    case 3
    have put: "valid ?P (if new then sbind (bundle_bytes G repo_id g old) (\<lambda>b.
              sbind (in_store (put_segment B es repo_id (next_index m) b)) (\<lambda>_. sret (s b)))
            else sret s') (\<lambda>_. ?P) ?P" for new old s s'
      by (cases new) (simp_all, (rule steps)+)
    have "seal_segments B es G max_segs repo_id g tips head m =
        sbind (append_delta_segment B es G repo_id g (last_tips m) tips m) (\<lambda>m'. sret (Some m'))"
      using 3 by (auto simp: seal_segments_def)
    then show ?thesis unfolding append_delta_segment_def Let_def by (simp only:) (rule steps put)+
  qed
qed

text \<open>A seal that succeeds seals the working copy; one that fails without compacting leaves what was sealed.\<close>

lemma store_manifest_run:
  assumes "store_law B es N" "forge_names N max_segs repo_id" "codec_law c" "store_ok B es N (fw_store fw)"
    and "store_manifest B es c repo_id m fw = (x, fw')"
  shows "store_ok B es N (fw_store fw') \<and> (\<forall>k. k \<noteq> SEAL_MANIFEST_KEY \<longrightarrow>
      store_view B es N (fw_store fw') repo_id k = store_view B es N (fw_store fw) repo_id k)
    \<and> (if isl x then store_view B es N (fw_store fw') = store_view B es N (fw_store fw)
       else Option.bind (store_view B es N (fw_store fw') repo_id SEAL_MANIFEST_KEY) (from_slice c) = Some m)"
proof (cases "to_vec c m")
  case None
  then show ?thesis using assms(4,5) by (auto simp: store_manifest_def sbind_def ok_or_def)
next
  case (Some b)
  have n: "repo_id \<in> N" "SEAL_MANIFEST_KEY \<in> N" using assms(2) by (simp_all add: forge_names_def)
  obtain y w where p: "store_put B es repo_id SEAL_MANIFEST_KEY b (fw_store fw) = (y, w)" by fastforce
  have "x = map_err Store y" "fw' = fw\<lparr>fw_store := w\<rparr>" using assms(5) Some p
    by (auto simp: store_manifest_def sbind_def ok_or_def in_store_def put_manifest_def)
  moreover have "from_slice c b = Some m" using assms(3) Some by (simp add: codec_law_def)
  ultimately show ?thesis using store_put_run [OF assms(1) n assms(4) p] by (cases y) simp_all
qed

lemma delete_legacy_run:
  assumes "store_law B es N" "forge_names N max_segs repo_id" "store_ok B es N w"
  shows "store_ok B es N (snd (store_delete B es repo_id LEGACY_BUNDLE_KEY w)) \<and> (\<forall>k. k \<noteq> LEGACY_BUNDLE_KEY \<longrightarrow>
      store_view B es N (snd (store_delete B es repo_id LEGACY_BUNDLE_KEY w)) repo_id k = store_view B es N w repo_id k)"
proof -
  have n: "repo_id \<in> N" "LEGACY_BUNDLE_KEY \<in> N" using assms(2) by (simp_all add: forge_names_def)
  obtain y w' where d: "store_delete B es repo_id LEGACY_BUNDLE_KEY w = (y, w')" by fastforce
  then show ?thesis using store_delete_run [OF assms(1) n assms(3) d] by simp
qed

lemma segs_sealed_cong:
  assumes "\<And>i. V' (segment_key i) = V (segment_key i)"
  shows "segs_sealed G objs refs reach max_segs V' ss \<longleftrightarrow> segs_sealed G objs refs reach max_segs V ss"
proof -
  have "segs_ok G objs refs reach V' {} ss \<longleftrightarrow> segs_ok G objs refs reach V {} ss" by (rule segs_ok_cong) (rule assms)
  then show ?thesis by (simp add: segs_sealed_def)
qed

lemma seal_rest_Ok:
  assumes law: "store_law B es N" "forge_names N max_segs repo_id" "git_law G objs refs reach" "codec_law c" "store_ok B es N (fw_store fw)"
    and old: "segs_sealed G objs refs reach max_segs (store_view B es N (fw_store fw) repo_id) (sm_segments m)"
      "sm_segments m \<noteq> [] \<Longrightarrow> Option.bind (store_view B es N (fw_store fw) repo_id SEAL_MANIFEST_KEY) (from_slice c) = Some m"
    and tips: "current_tips G g = Ok tips" and run: "seal_rest B es c G max_segs repo_id g tips m fw = (Ok u, fw')"
  shows "store_ok B es N (fw_store fw') \<and> (\<exists>m'. sealed G objs refs reach max_segs c (store_view B es N (fw_store fw') repo_id) m' g)"
proof -
  obtain x fw1 where x: "seal_segments B es G max_segs repo_id g tips (current_head G g) m fw = (Ok x, fw1)"
    and rest: "(case x of None \<Rightarrow> sret () | Some m' \<Rightarrow>
        sbind (store_manifest B es c repo_id (m'\<lparr>sm_version := 1, sm_head := current_head G g\<rparr>)) (\<lambda>_ fw'.
        (Ok (), fw'\<lparr>fw_store := snd (store_delete B es repo_id LEGACY_BUNDLE_KEY (fw_store fw'))\<rparr>))) fw1 = (Ok u, fw')"
    using run unfolding seal_rest_def sbind_eq_Ok [of "seal_segments _ _ _ _ _ _ _ _ _"] by blast
  note seg = seal_segments_Ok [OF law(1-3,5) old(1) tips x]
  show ?thesis
  proof (cases x)
    case None
    then show ?thesis using seg rest old tips law(5) by (auto simp: sealed_def)
  next
    case (Some m')
    let ?m = "m'\<lparr>sm_version := 1, sm_head := current_head G g\<rparr>"
    obtain y fw2 where sm: "store_manifest B es c repo_id ?m fw1 = (Ok y, fw2)"
      and fw': "fw' = fw2\<lparr>fw_store := snd (store_delete B es repo_id LEGACY_BUNDLE_KEY (fw_store fw2))\<rparr>"
      using rest Some by (auto simp: sbind_eq_Ok)
    have ok1: "store_ok B es N (fw_store fw1)" using seg Some by simp
    note st = store_manifest_run [OF law(1,2,4) ok1 sm]
    note del = delete_legacy_run [OF law(1,2) conjunct1 [OF st]]
    have "segs_sealed G objs refs reach max_segs (store_view B es N (fw_store fw') repo_id) (sm_segments m')
        \<longleftrightarrow> segs_sealed G objs refs reach max_segs (store_view B es N (fw_store fw1) repo_id) (sm_segments m')"
      by (rule segs_sealed_cong) (use st del in \<open>simp add: fw'\<close>)
    then have "sealed G objs refs reach max_segs c (store_view B es N (fw_store fw') repo_id) ?m g"
      using seg Some st del tips by (auto simp: sealed_def fw' last_tips_def)
    then show ?thesis using del by (auto simp: fw')
  qed
qed

lemma seal_rest_Err:
  assumes law: "store_law B es N" "forge_names N max_segs repo_id" "codec_law c" "segment_key (next_index m) \<in> N"
    and old: "outside B es N repo_id (segment_key (next_index m)) V fw"
    and due: "sm_segments m = [] \<or> \<not> max_segs \<le> of_nat (length (sm_segments m))"
    and run: "seal_rest B es c G max_segs repo_id g tips m fw = (Err e, fw')"
  shows "outside B es N repo_id (segment_key (next_index m)) V fw'"
proof -
  let ?P = "outside B es N repo_id (segment_key (next_index m)) V"
  have n: "repo_id \<in> N" using law(2) by (simp add: forge_names_def)
  note seg = seal_segments_outside [OF law(1) n law(4) due, where V = V and G = G and g = g and tips = tips and head = "current_head G g"]
  obtain y fw1 where s: "seal_segments B es G max_segs repo_id g tips (current_head G g) m fw = (y, fw1)" by fastforce
  show ?thesis
  proof (cases y)
    case (Inl e')
    then have "fw' = fw1" using run s by (simp add: seal_rest_def sbind_def)
    then show ?thesis using valid_Err [OF seg old s [unfolded Inl]] by simp
  next
    case (Inr x)
    have fw1: "?P fw1" using valid_Ok [OF seg old s [unfolded Inr]] .
    obtain m' where m': "x = Some m'" "store_manifest B es c repo_id (m'\<lparr>sm_version := 1, sm_head := current_head G g\<rparr>) fw1 = (Err e, fw')"
      using run s Inr by (cases x) (auto simp: seal_rest_def sbind_def split: sum.splits prod.splits)
    then show ?thesis using store_manifest_run [OF law(1-3) _ m'(2)] fw1 by (simp add: outside_def)
  qed
qed

lemma sealed_outside:
  assumes "sealed G objs refs reach max_segs c V m g" "outside B es N repo_id (segment_key (next_index m)) V fw"
  shows "sealed G objs refs reach max_segs c (store_view B es N (fw_store fw) repo_id) m g"
proof -
  have segs: "segs_sealed G objs refs reach max_segs V (sm_segments m)" "sm_segments m \<noteq> []" using assms(1) by (simp_all add: sealed_def)
  have idx: "next_index m = of_nat (length (sm_segments m))"
    using segs_sealed_next [OF segs] segs(2) by (simp add: next_index_def)
  have "segs_ok G objs refs reach (store_view B es N (fw_store fw) repo_id) {} (sm_segments m) \<longleftrightarrow> segs_ok G objs refs reach V {} (sm_segments m)"
    by (rule segs_ok_cong) (use assms(2) segs_sealed_fresh [OF segs(1)] in \<open>simp add: outside_def idx\<close>)
  then show ?thesis using assms by (simp add: sealed_def segs_sealed_def outside_def)
qed

text \<open>Successive seals: the working copy becomes \<open>g\<close> in any way and is sealed. The last argument is the copy sealed
  last. A seal that fails is allowed unless it was to compact. In between, the process may restart: working copies are
  lost, and paths become readable and writable or cease to be; the files and directories of the store stay.\<close>

inductive seal_runs :: "backend \<Rightarrow> EncryptedStore \<Rightarrow> string set \<Rightarrow> SealManifest codec \<Rightarrow> 'g git \<Rightarrow> u32 \<Rightarrow> string \<Rightarrow> 'g forge_world \<Rightarrow> 'g option \<Rightarrow> bool"
  for B es N c G max_segs repo_id where
  run_start: "store_ok B es N (fw_store fw) \<Longrightarrow> store_view B es N (fw_store fw) repo_id SEAL_MANIFEST_KEY = None \<Longrightarrow>
    seal_runs B es N c G max_segs repo_id fw None"
| run_sealed: "seal_runs B es N c G max_segs repo_id fw x \<Longrightarrow>
    seal_to_store B es c G max_segs repo_id (set_repo repo_id (Some g) fw) = (Ok (), fw') \<Longrightarrow>
    seal_runs B es N c G max_segs repo_id fw' (Some g)"
| run_failed: "seal_runs B es N c G max_segs repo_id fw x \<Longrightarrow>
    seal_to_store B es c G max_segs repo_id (set_repo repo_id (Some g) fw) = (Err e, fw') \<Longrightarrow>
    \<not> compaction_due c max_segs (store_view B es N (fw_store fw) repo_id) \<Longrightarrow>
    seal_runs B es N c G max_segs repo_id fw' x"
| run_restart: "seal_runs B es N c G max_segs repo_id fw x \<Longrightarrow>
    w_files (fw_store fw') = w_files (fw_store fw) \<Longrightarrow> (\<forall>p. w_dirs (fw_store fw) p \<longrightarrow> w_dirs (fw_store fw') p) \<Longrightarrow>
    seal_runs B es N c G max_segs repo_id fw' x"

text \<open>A restart on a disk that works.\<close>

definition mount :: "'g forge_world \<Rightarrow> 'g forge_world" where
  "mount fw = fw\<lparr>fw_repos := Map.empty, fw_io := (\<lambda>_. True),
     fw_store := (fw_store fw)\<lparr>w_can_read := (\<lambda>_. True), w_can_write := (\<lambda>_. True)\<rparr>\<rparr>"

definition holds :: "backend \<Rightarrow> EncryptedStore \<Rightarrow> string set \<Rightarrow> SealManifest codec \<Rightarrow> 'g git \<Rightarrow> ('g \<Rightarrow> string set) \<Rightarrow> ('g \<Rightarrow> string \<rightharpoonup> string) \<Rightarrow>
    (string \<Rightarrow> string set) \<Rightarrow> u32 \<Rightarrow> string \<Rightarrow> world \<Rightarrow> 'g option \<Rightarrow> bool" where
  "holds B es N c G objs refs reach max_segs repo_id w x \<longleftrightarrow> store_ok B es N w \<and>
    (case x of None \<Rightarrow> store_view B es N w repo_id SEAL_MANIFEST_KEY = None
     | Some g \<Rightarrow> \<exists>m. sealed G objs refs reach max_segs c (store_view B es N w repo_id) m g)"

lemma same_files:
  assumes "w_files w' = w_files w" "\<forall>p. w_dirs w p \<longrightarrow> w_dirs w' p"
  shows "store_view B es N w' = store_view B es N w" "store_ok B es N w \<Longrightarrow> store_ok B es N w'"
proof -
  have k: "repo_key B es w' = repo_key B es w" by (simp add: repo_key_def fun_eq_iff assms(1))
  show v: "store_view B es N w' = store_view B es N w" by (simp add: store_view_def fun_eq_iff assms(1) k)
  show "store_ok B es N w \<Longrightarrow> store_ok B es N w'" using assms(2) by (simp add: store_ok_def k v assms(1))
qed

lemma holds_same_files:
  assumes "w_files w' = w_files w" "\<forall>p. w_dirs w p \<longrightarrow> w_dirs w' p" "holds B es N c G objs refs reach max_segs repo_id w x"
  shows "holds B es N c G objs refs reach max_segs repo_id w' x"
  using assms(3) same_files [OF assms(1,2)] by (cases x) (simp_all add: holds_def)

text \<open>The manifest a seal reads.\<close>

lemma holds_manifest:
  assumes "holds B es N c G objs refs reach max_segs repo_id w x" "forge_names N max_segs repo_id"
    and "case store_view B es N w repo_id SEAL_MANIFEST_KEY of None \<Rightarrow> m = manifest_default | Some b \<Rightarrow> from_slice c b = Some m"
  shows "segs_sealed G objs refs reach max_segs (store_view B es N w repo_id) (sm_segments m)"
    "sm_segments m \<noteq> [] \<Longrightarrow> Option.bind (store_view B es N w repo_id SEAL_MANIFEST_KEY) (from_slice c) = Some m"
    "sm_segments m = [] \<longleftrightarrow> x = None" "x = Some g \<Longrightarrow> sealed G objs refs reach max_segs c (store_view B es N w repo_id) m g"
    "sm_segments m = [] \<or> length (sm_segments m) < unat max_segs \<Longrightarrow> segment_key (next_index m) \<in> N"
proof -
  have all: "segs_sealed G objs refs reach max_segs (store_view B es N w repo_id) (sm_segments m) \<and>
    (sm_segments m \<noteq> [] \<longrightarrow> Option.bind (store_view B es N w repo_id SEAL_MANIFEST_KEY) (from_slice c) = Some m) \<and>
    (sm_segments m = [] \<longleftrightarrow> x = None) \<and> (\<forall>g. x = Some g \<longrightarrow> sealed G objs refs reach max_segs c (store_view B es N w repo_id) m g)"
    using assms(1,3) by (cases x) (auto simp: holds_def sealed_def manifest_default_def segs_sealed_def split: option.splits)
  then show 1: "segs_sealed G objs refs reach max_segs (store_view B es N w repo_id) (sm_segments m)"
    "sm_segments m \<noteq> [] \<Longrightarrow> Option.bind (store_view B es N w repo_id SEAL_MANIFEST_KEY) (from_slice c) = Some m"
    "sm_segments m = [] \<longleftrightarrow> x = None" "x = Some g \<Longrightarrow> sealed G objs refs reach max_segs c (store_view B es N w repo_id) m g"
    by simp_all
  assume "sm_segments m = [] \<or> length (sm_segments m) < unat max_segs"
  then show "segment_key (next_index m) \<in> N"
    using segs_sealed_next [OF 1(1)] assms(2) by (cases "sm_segments m = []") (auto simp: next_index_def forge_names_def)
qed

lemma seal_runs_holds:
  assumes "seal_runs B es N c G max_segs repo_id fw x" "store_law B es N" "forge_names N max_segs repo_id" "git_law G objs refs reach" "codec_law c"
  shows "holds B es N c G objs refs reach max_segs repo_id (fw_store fw) x"
  using assms(1)
proof (induction rule: seal_runs.induct)
  case (run_start fw)
  then show ?case by (simp add: holds_def)
next
  case (run_sealed fw x g fw')
  let ?fw = "set_repo repo_id (Some g) fw"
  have ih: "holds B es N c G objs refs reach max_segs repo_id (fw_store ?fw) x" using run_sealed.IH by (simp add: set_repo_def)
  have ok: "store_ok B es N (fw_store ?fw)" "fw_repos ?fw (repo_path repo_id) = Some g" using ih by (simp_all add: holds_def set_repo_def)
  obtain fw1 m tips where r: "store_ok B es N (fw_store fw1)" "store_view B es N (fw_store fw1) = store_view B es N (fw_store ?fw)"
    "current_tips G g = Ok tips"
    "case store_view B es N (fw_store ?fw) repo_id SEAL_MANIFEST_KEY of None \<Rightarrow> m = manifest_default | Some b \<Rightarrow> from_slice c b = Some m"
    "seal_rest B es c G max_segs repo_id g tips m fw1 = (Ok (), fw')"
    using seal_start [OF assms(2,3) ok run_sealed.hyps(2)] by auto
  note m = holds_manifest [OF ih assms(3) r(4)]
  have "store_ok B es N (fw_store fw') \<and> (\<exists>m'. sealed G objs refs reach max_segs c (store_view B es N (fw_store fw') repo_id) m' g)"
    by (rule seal_rest_Ok [OF assms(2-5) r(1) _ _ r(3,5)]) (simp_all add: r(2) m(1,2))
  then show ?case by (simp add: holds_def)
next
  case (run_failed fw x g e fw')
  let ?fw = "set_repo repo_id (Some g) fw"
  have ih: "holds B es N c G objs refs reach max_segs repo_id (fw_store ?fw) x" using run_failed.IH by (simp add: set_repo_def)
  have ok: "store_ok B es N (fw_store ?fw)" "fw_repos ?fw (repo_path repo_id) = Some g" using ih by (simp_all add: holds_def set_repo_def)
  from seal_start [OF assms(2,3) ok run_failed.hyps(2)] show ?case
  proof (elim disjE exE conjE)
    assume "store_ok B es N (fw_store fw')" "store_view B es N (fw_store fw') = store_view B es N (fw_store ?fw)"
    then show ?thesis using ih by (cases x) (simp_all add: holds_def)
  next
    fix fw1 m tips
    assume r: "store_ok B es N (fw_store fw1)" "store_view B es N (fw_store fw1) = store_view B es N (fw_store ?fw)"
      "case store_view B es N (fw_store ?fw) repo_id SEAL_MANIFEST_KEY of None \<Rightarrow> m = manifest_default | Some b \<Rightarrow> from_slice c b = Some m"
      "seal_rest B es c G max_segs repo_id g tips m fw1 = (Err e, fw')"
    let ?V = "store_view B es N (fw_store ?fw) repo_id"
    note m = holds_manifest [OF ih assms(3) r(3)]
    have due: "sm_segments m = [] \<or> \<not> max_segs \<le> of_nat (length (sm_segments m))"
      using run_failed.hyps(3) m(2) by (auto simp: compaction_due_def set_repo_def)
    have "length (sm_segments m) \<le> unat max_segs" using m(1) by (simp add: segs_sealed_def)
    then have "sm_segments m = [] \<or> length (sm_segments m) < unat max_segs"
      using due unsigned_less [of max_segs, where 'a = nat] by (auto simp: word_le_nat_alt unat_of_nat)
    note key = m(5) [OF this]
    have "outside B es N repo_id (segment_key (next_index m)) ?V fw1" using r(1,2) by (simp add: outside_def)
    from seal_rest_Err [OF assms(2,3,5) key this due r(4)]
    have out: "outside B es N repo_id (segment_key (next_index m)) ?V fw'" .
    show ?thesis
    proof (cases x)
      case None
      then show ?thesis using out ih by (simp add: holds_def outside_def)
    next
      case (Some h)
      from sealed_outside [OF m(4) [OF this] out] show ?thesis using out Some by (auto simp: holds_def outside_def)
    qed
  qed
next
  case (run_restart fw x fw')
  then show ?case by (blast intro: holds_same_files)
qed

section \<open>Restoring\<close>

text \<open>A step of git on a working copy.\<close>

lemma unbundle_step:
  assumes "store_law B es N" "repo_id \<in> N" "segment_key (sg_index s) \<in> N" "store_ok B es N (fw_store fw)" "disk_works (fw_store fw)"
    "\<forall>x. fw_io fw x" "fw_repos fw (repo_path repo_id) = Some h"
    "sg_has_payload s" "store_view B es N (fw_store fw) repo_id (segment_key (sg_index s)) = Some b" "git_unbundle G h b = Some h'"
  obtains w where "unbundle_all B es G repo_id (s # ss) fw = unbundle_all B es G repo_id ss (set_repo repo_id (Some h') (fw\<lparr>fw_store := w\<rparr>))"
    "store_ok B es N w" "disk_works w" "store_view B es N w = store_view B es N (fw_store fw)"
proof -
  obtain w where g: "store_get B es repo_id (segment_key (sg_index s)) (fw_store fw) = (Ok (Some b), w)"
    using store_get_returns_lib [OF assms(1-5)] assms(9) by (auto simp: fst_eq_Ok)
  have w: "store_ok B es N w" "disk_works w" "store_view B es N w = store_view B es N (fw_store fw)"
    using store_get_run [OF assms(1-4) g] valid_Ok [OF store_get_works assms(5) g] by simp_all
  have "unbundle_all B es G repo_id (s # ss) fw = unbundle_all B es G repo_id ss (set_repo repo_id (Some h') (fw\<lparr>fw_store := w\<rparr>))"
    using assms(6-8,10) g by (simp add: sbind_def in_store_def get_segment_def fs_step_def git_step_def)
  then show thesis using that w by blast
qed

lemma unbundle_all_returns:
  assumes "store_law B es N" "repo_id \<in> N" "\<forall>s \<in> set ss. segment_key (sg_index s) \<in> N" "store_ok B es N (fw_store fw)" "disk_works (fw_store fw)"
    "\<forall>x. fw_io fw x" "fw_repos fw (repo_path repo_id) = Some h" "have \<subseteq> objs h"
    "segs_ok G objs refs reach (store_view B es N (fw_store fw) repo_id) have ss"
  shows "\<exists>h' fw'. unbundle_all B es G repo_id ss fw = (Ok (), fw') \<and> fw_repos fw' (repo_path repo_id) = Some h' \<and> refs h' = refs h
    \<and> have \<union> (\<Union>s \<in> set ss. tips_reach reach (sg_tips s)) \<subseteq> objs h'"
  using assms(3-9)
proof (induction ss arbitrary: fw h "have")
  case (Cons s ss)
  let ?V = "store_view B es N (fw_store fw) repo_id" and ?have = "have \<union> tips_reach reach (sg_tips s)"
  show ?case
  proof (cases "sg_has_payload s")
    case False
    then have sub: "tips_reach reach (sg_tips s) \<subseteq> have" using Cons.prems(7) by (simp add: seg_ok_def)
    then have "?have = have" by blast
    then show ?thesis using Cons.IH [OF _ Cons.prems(2-6)] Cons.prems(1,7) False order_trans [OF sub]
      by fastforce
  next
    case True
    then obtain b need where b: "?V (segment_key (sg_index s)) = Some b" "need \<subseteq> have" "delivers G objs refs b need (tips_reach reach (sg_tips s))"
      using Cons.prems(7) by (auto simp: seg_ok_def)
    then obtain h1 where h1: "git_unbundle G h b = Some h1" "objs h1 = objs h \<union> tips_reach reach (sg_tips s)" "refs h1 = refs h"
      using Cons.prems(6) unfolding delivers_def by (meson order_trans)
    obtain w where w: "unbundle_all B es G repo_id (s # ss) fw = unbundle_all B es G repo_id ss (set_repo repo_id (Some h1) (fw\<lparr>fw_store := w\<rparr>))"
      "store_ok B es N w" "disk_works w" "store_view B es N w = store_view B es N (fw_store fw)"
      by (rule unbundle_step [OF assms(1,2) _ Cons.prems(2-5) True b(1) h1(1)]) (use Cons.prems(1) in simp)
    let ?fw = "set_repo repo_id (Some h1) (fw\<lparr>fw_store := w\<rparr>)"
    have "\<exists>h' fw'. unbundle_all B es G repo_id ss ?fw = (Ok (), fw') \<and> fw_repos fw' (repo_path repo_id) = Some h' \<and> refs h' = refs h1
      \<and> ?have \<union> (\<Union>s \<in> set ss. tips_reach reach (sg_tips s)) \<subseteq> objs h'"
      using Cons.prems h1 w by (intro Cons.IH) (auto simp: set_repo_def)
    then show ?thesis using w(1) h1(3) by (auto simp: Un_assoc)
  qed
qed simp

lemma update_refs_returns:
  assumes "update_law G objs refs reach" "fw_repos fw (repo_path repo_id) = Some h" "distinct (map rt_name ts)"
    "rt_name ` set ts \<union> dom (refs h) \<subseteq> dom (refs g)" "tips_reach reach ts \<subseteq> objs h"
  shows "\<exists>h' fw'. update_refs G repo_id ts fw = (Ok (), fw') \<and> fw_repos fw' (repo_path repo_id) = Some h'
    \<and> objs h' = objs h \<and> refs h' = refs h ++ tips_map ts"
  using assms(2-5)
proof (induction ts arbitrary: fw h)
  case (Cons t ts)
  have "insert (rt_name t) (dom (refs h)) \<subseteq> dom (refs g)" "reach (rt_oid t) \<subseteq> objs h"
    using Cons.prems(3,4) by (auto simp: tips_reach_def)
  then obtain h1 where h1: "git_update_ref G h (rt_name t) (rt_oid t) = Some h1" "objs h1 = objs h" "refs h1 = (refs h)(rt_name t \<mapsto> rt_oid t)"
    using assms(1) unfolding update_law_def by meson
  have dom: "dom (refs h1) = insert (rt_name t) (dom (refs h))" using h1(3) by simp
  let ?fw = "set_repo repo_id (Some h1) fw"
  have step: "update_refs G repo_id (t # ts) fw = update_refs G repo_id ts ?fw"
    using Cons.prems(1) h1(1) by (simp add: sbind_def git_step_def)
  have "\<exists>h' fw'. update_refs G repo_id ts ?fw = (Ok (), fw') \<and> fw_repos fw' (repo_path repo_id) = Some h'
    \<and> objs h' = objs h1 \<and> refs h' = refs h1 ++ tips_map ts"
    using Cons.prems h1(2) by (intro Cons.IH) (simp_all add: dom set_repo_def tips_reach_def)
  moreover have "tips_map ts (rt_name t) = None" "tips_map (t # ts) = (tips_map ts)(rt_name t \<mapsto> rt_oid t)"
    using Cons.prems(2) by (auto simp: tips_map_def map_of_eq_None_iff)
  then have "refs h1 ++ tips_map ts = refs h ++ tips_map (t # ts)"
    using h1(3) by (auto simp: fun_eq_iff map_add_def split: option.split)
  ultimately show ?case unfolding step using h1(2) by simp
qed (simp add: tips_map_def)

lemma sealed_restores:
  assumes law: "store_law B es N" "forge_names N max_segs repo_id" "git_law G objs refs reach"
    and ok: "store_ok B es N (fw_store fw)" "disk_works (fw_store fw)" "\<forall>x. fw_io fw x"
    and sealed: "sealed G objs refs reach max_segs c (store_view B es N (fw_store fw) repo_id) m g"
  shows "\<exists>h fw'. restore_from_store B es c G repo_id fw = (Ok True, fw') \<and> fw_repos fw' (repo_path repo_id) = Some h
    \<and> refs h = refs g \<and> all_reach reach (refs g) \<subseteq> objs h \<and> (\<forall>x. current_head G g = Some x \<longrightarrow> current_head G h = Some x)"
proof -
  let ?V = "store_view B es N (fw_store fw)" and ?ts = "last_tips m"
  have n: "repo_id \<in> N" "SEAL_MANIFEST_KEY \<in> N" using law(2) by (simp_all add: forge_names_def)
  have laws: "tips_law G refs" "update_law G objs refs reach" using law(3) by (simp_all add: git_law_def)
  obtain b where b: "?V repo_id SEAL_MANIFEST_KEY = Some b" "from_slice c b = Some m" using sealed by (auto simp: sealed_def bind_eq_Some_conv)
  have segs: "segs_sealed G objs refs reach max_segs (?V repo_id) (sm_segments m)" "sm_segments m \<noteq> []"
    and tips: "current_tips G g = Ok ?ts" and head: "sm_head m = current_head G g" using sealed by (simp_all add: sealed_def)
  note ts = tips_lawD(1,2) [OF laws(1) tips]
  obtain w where get: "store_get B es repo_id SEAL_MANIFEST_KEY (fw_store fw) = (Ok (Some b), w)"
    using store_get_returns_lib [OF law(1) n ok(1,2)] b(1) by (auto simp: fst_eq_Ok)
  have w: "store_ok B es N w" "disk_works w" "store_view B es N w = ?V"
    using store_get_run [OF law(1) n ok(1) get] valid_Ok [OF store_get_works ok(2) get] by simp_all
  obtain g0 where g0: "git_init G None = Some g0" "refs g0 = Map.empty" using laws(2) unfolding update_law_def by blast
  let ?fw0 = "fw\<lparr>fw_store := w\<rparr>" and ?fw1 = "set_repo repo_id (Some g0) (fw\<lparr>fw_store := w\<rparr>)"
  have "\<exists>h1 fw2. unbundle_all B es G repo_id (sm_segments m) ?fw1 = (Ok (), fw2) \<and> fw_repos fw2 (repo_path repo_id) = Some h1 \<and> refs h1 = refs g0
    \<and> {} \<union> (\<Union>s \<in> set (sm_segments m). tips_reach reach (sg_tips s)) \<subseteq> objs h1"
    using segs w ok(3) segs_sealed_names [OF segs(1) law(2)]
    by (intro unbundle_all_returns [OF law(1) n(1)]) (simp_all add: set_repo_def segs_sealed_def)
  then obtain h1 fw2 where h1: "unbundle_all B es G repo_id (sm_segments m) ?fw1 = (Ok (), fw2)" "fw_repos fw2 (repo_path repo_id) = Some h1"
    "refs h1 = refs g0" "(\<Union>s \<in> set (sm_segments m). tips_reach reach (sg_tips s)) \<subseteq> objs h1" by auto
  have "?ts = sg_tips (last (sm_segments m))" using segs(2) by (simp add: last_tips_def)
  then have reach: "tips_reach reach ?ts \<subseteq> objs h1"
    using order_trans [OF UN_upper [OF last_in_set [OF segs(2)], of "\<lambda>x. tips_reach reach (sg_tips x)"] h1(4)] by simp
  have "rt_name ` set ?ts \<union> dom (refs h1) \<subseteq> dom (refs g)"
    using ts(1) g0(2) h1(3) by (auto simp: tips_map_def dom_map_of_conv_image_fst image_image simp flip: ts(1))
  from update_refs_returns [OF laws(2) h1(2) ts(2) this reach]
  obtain h2 fw3 where h2: "update_refs G repo_id ?ts fw2 = (Ok (), fw3)" "fw_repos fw3 (repo_path repo_id) = Some h2"
    "objs h2 = objs h1" "refs h2 = refs g" using g0(2) h1(3) ts(1) by auto
  have run: "restore_from_store B es c G repo_id fw = (Ok True, restore_head G repo_id (sm_head m) fw3)"
    using get b(2) ok(3) g0(1) h1(1) h2(1)
    by (simp add: restore_from_store_def sbind_def in_store_def get_manifest_def ok_or_def remove_working_def forge_exists_def
        git_step_def set_repo_def)
  have "\<exists>h. fw_repos (restore_head G repo_id (sm_head m) fw3) (repo_path repo_id) = Some h \<and> objs h = objs h2 \<and> refs h = refs h2
    \<and> (\<forall>x. current_head G g = Some x \<longrightarrow> current_head G h = Some x)"
  proof (cases "current_head G g")
    case None
    then show ?thesis using h2(2) head by (simp add: restore_head_def)
  next
    case (Some x)
    then obtain h3 where "git_set_head G h2 x = Some h3" "objs h3 = objs h2" "refs h3 = refs h2" "current_head G h3 = Some x"
      using laws(2) unfolding update_law_def by meson
    then show ?thesis using h2(2) head Some by (simp add: restore_head_def git_step_def set_repo_def)
  qed
  then show ?thesis
    unfolding run using h2(3,4) reach tips_reach_all [OF laws(1) tips, of reach] by auto
qed

text \<open>C8: A repository sealed any number of times, by base, delta or compaction, is restored from the encrypted store:
  the call reports success, and the working copy has exactly the references of the one sealed last, every object they reach, and its
  head. Seals that failed without being due to compact lose nothing.\<close>

theorem sealed_repo_restores:
  assumes "store_law B es N" "forge_names N max_segs repo_id" "git_law G objs refs reach" "codec_law c"
    and "seal_runs B es N c G max_segs repo_id fw (Some g)" "disk_works (fw_store fw)" "\<forall>x. fw_io fw x"
  shows "\<exists>h fw'. restore_from_store B es c G repo_id fw = (Ok True, fw') \<and> fw_repos fw' (repo_path repo_id) = Some h
    \<and> refs h = refs g \<and> all_reach reach (refs g) \<subseteq> objs h \<and> (\<forall>x. current_head G g = Some x \<longrightarrow> current_head G h = Some x)"
proof -
  have "holds B es N c G objs refs reach max_segs repo_id (fw_store fw) (Some g)"
    by (rule seal_runs_holds [OF assms(5,1-4)])
  then obtain m where "store_ok B es N (fw_store fw)" "sealed G objs refs reach max_segs c (store_view B es N (fw_store fw) repo_id) m g"
    by (auto simp: holds_def)
  then show ?thesis using sealed_restores [OF assms(1-3) _ assms(6,7)] by blast
qed

section \<open>A small git\<close>

text \<open>A repository that may have the object 1, the branch m on it, and a head on that branch.\<close>

type_synonym tiny = "bool \<times> bool \<times> bool"

definition tiny_git :: "tiny git" where
  "tiny_git = \<lparr>git_init = (\<lambda>g. case g of None \<Rightarrow> Some (False, False, False) | Some g \<Rightarrow> Some g),
    git_for_each_ref = (\<lambda>(i, r, h). Some (if r then ''1 refs/heads/m'' @ [char_of (10 :: nat)] else [])),
    git_symbolic_ref = (\<lambda>(i, r, h). if h then Some (''refs/heads/m'' @ [char_of (10 :: nat)]) else None),
    git_bundle = (\<lambda>(i, r, h) nots. if r then Some [7] else None),
    git_rev_list = (\<lambda>(i, r, h) nots. Some (if r \<and> ''1'' \<notin> set nots then ''1'' @ [char_of (10 :: nat)] else [])),
    git_cat_file = (\<lambda>(i, r, h) oid. i \<and> oid = ''1''),
    git_unbundle = (\<lambda>(i, r, h) b. Some (True, r, h)),
    git_update_ref = (\<lambda>(i, r, h) name oid. Some (i, True, h)),
    git_set_head = (\<lambda>(i, r, h) x. Some (i, r, True)),
    git_clone_bare = (\<lambda>b. None)\<rparr>"

definition tiny_objs :: "tiny \<Rightarrow> string set" where
  "tiny_objs g = (if fst g then {''1''} else {})"

definition tiny_refs :: "tiny \<Rightarrow> string \<rightharpoonup> string" where
  "tiny_refs g = (if fst (snd g) then [''refs/heads/m'' \<mapsto> ''1''] else Map.empty)"

definition tiny_reach :: "string \<Rightarrow> string set" where
  "tiny_reach i = {i}"

lemma tiny_tips: "current_tips tiny_git (i, r, h) = Ok (if r then [\<lparr>rt_name = ''refs/heads/m'', rt_oid = ''1''\<rparr>] else [])"
proof -
  have "sort_key rt_name (List.map_filter parse_tip (str_lines (from_utf8_lossy (''1 refs/heads/m'' @ [char_of (10 :: nat)])))) =
      [\<lparr>rt_name = ''refs/heads/m'', rt_oid = ''1''\<rparr>]" "sort_key rt_name (List.map_filter parse_tip (str_lines (from_utf8_lossy []))) = []"
    by code_simp+
  then show ?thesis by (simp add: current_tips_def tiny_git_def ok_or_def)
qed

lemma tiny_head: "current_head tiny_git (i, r, h) = (if h then Some ''refs/heads/m'' else None)"
proof -
  have "utrim (from_utf8_lossy (''refs/heads/m'' @ [char_of (10 :: nat)])) = ''refs/heads/m''" by code_simp
  then show ?thesis by (simp add: current_head_def tiny_git_def)
qed

lemma tiny_new: "has_new_objects tiny_git (i, r, h) nots = Ok (r \<and> ''1'' \<notin> set nots)"
proof -
  have "split_whitespace (from_utf8_lossy (''1'' @ [char_of (10 :: nat)])) \<noteq> []" "split_whitespace (from_utf8_lossy []) = []"
    by code_simp+
  then show ?thesis by (simp add: has_new_objects_def tiny_git_def ok_or_def)
qed

lemma tiny_law: "git_law tiny_git tiny_objs tiny_refs tiny_reach"
proof -
  have sel: "git_bundle tiny_git (i, r, h) nots = (if r then Some [7] else None)" "git_unbundle tiny_git (i, r, h) b = Some (True, r, h)"
    "git_init tiny_git None = Some (False, False, False)" "git_update_ref tiny_git (i, r, h) name oid = Some (i, True, h)"
    "git_set_head tiny_git (i, r, h) x = Some (i, r, True)" for i r h nots b name oid x
    by (simp_all add: tiny_git_def)
  have "tips_law tiny_git tiny_refs"
    by (auto simp: tips_law_def tiny_tips tiny_refs_def tips_map_def fun_eq_iff split: if_splits)
  moreover have "bundle_law tiny_git tiny_objs tiny_refs tiny_reach"
    by (auto simp: bundle_law_def sel tiny_new tiny_objs_def tiny_refs_def tiny_reach_def all_reach_def split: if_splits)
  moreover have "update_law tiny_git tiny_objs tiny_refs tiny_reach"
    by (auto simp: update_law_def sel tiny_head tiny_objs_def tiny_refs_def tiny_reach_def split: if_splits)
  ultimately show ?thesis by (simp add: git_law_def)
qed

definition tiny_seg :: "u32 \<Rightarrow> bool \<Rightarrow> Segment" where
  "tiny_seg i p = \<lparr>sg_index = i, sg_has_payload = p, sg_size = (if p then 1 else 0), sg_tips = [\<lparr>rt_name = ''refs/heads/m'', rt_oid = ''1''\<rparr>]\<rparr>"

definition tiny_sealed :: "nat \<Rightarrow> SealManifest" where
  "tiny_sealed n = (if n = 0 then \<lparr>sm_version = 1, sm_head = None, sm_segments = [tiny_seg 0 True]\<rparr>
     else \<lparr>sm_version = 1, sm_head = Some ''refs/heads/m'', sm_segments = [tiny_seg 0 True, tiny_seg 1 False]\<rparr>)"

definition tiny_json :: "SealManifest codec" where
  "tiny_json = \<lparr>to_vec = (\<lambda>m. if m = tiny_sealed 0 then Some [0] else if m = tiny_sealed 1 then Some [1] else None),
     from_slice = (\<lambda>b. if b = [0] then Some (tiny_sealed 0) else if b = [1] then Some (tiny_sealed 1) else None)\<rparr>"

definition tiny_names :: "string set" where
  "tiny_names = {''r'', SEAL_MANIFEST_KEY, LEGACY_BUNDLE_KEY, segment_key 0, segment_key 1, segment_key 2}"

definition tiny_world :: "tiny forge_world" where
  "tiny_world = \<lparr>fw_repos = Map.empty, fw_io = (\<lambda>_. True),
     fw_store = demo_disk\<lparr>w_rng := [replicate 32 1, replicate 12 2, replicate 12 3, replicate 12 4, replicate 12 5]\<rparr>\<rparr>"

lemma tiny_store_law: "store_law ref_backend demo_store tiny_names"
proof -
  have "inj_on (\<lambda>s. sha256 ref_backend (as_bytes s)) tiny_names"
    by (simp add: tiny_names_def inj_on_def ref_selectors) code_simp
  then show ?thesis using ref_laws by (simp add: store_law_def demo_store_def)
qed

lemma tiny_forge_names: "forge_names tiny_names 2 ''r''"
proof -
  have "segment_key (of_nat i) \<in> tiny_names" if "i \<le> 2" for i :: nat
  proof -
    have "i \<in> {0, 1, 2}" using that by auto
    then show ?thesis by (auto simp: tiny_names_def)
  qed
  then show ?thesis by (simp add: forge_names_def) (simp add: tiny_names_def)
qed

definition tiny_seal :: "tiny \<Rightarrow> (tiny forge_world, ForgeError, unit) st" where
  "tiny_seal g fw = seal_to_store ref_backend demo_store tiny_json tiny_git 2 ''r'' (set_repo ''r'' (Some g) fw)"

lemma tiny_two_seals: "fst (sbind (tiny_seal (True, True, False)) (\<lambda>_. tiny_seal (True, True, True)) tiny_world) = Ok ()"
  by code_simp

theorem sealed_repo_restores_witness:
  "\<exists>fw h fw'. seal_runs ref_backend demo_store tiny_names tiny_json tiny_git 2 ''r'' fw (Some (True, True, True))
    \<and> restore_from_store ref_backend demo_store tiny_json tiny_git ''r'' fw = (Ok True, fw') \<and> fw_repos fw' (repo_path ''r'') = Some h
    \<and> tiny_refs h ''refs/heads/m'' = Some ''1'' \<and> ''1'' \<in> tiny_objs h \<and> current_head tiny_git h = Some ''refs/heads/m''"
proof -
  have law: "codec_law tiny_json" by (auto simp: codec_law_def tiny_json_def split: if_splits)
  have ok: "store_ok ref_backend demo_store tiny_names (fw_store tiny_world)"
    "store_view ref_backend demo_store tiny_names (fw_store tiny_world) ''r'' SEAL_MANIFEST_KEY = None"
    by (simp_all add: store_ok_def store_view_def tiny_world_def demo_disk_def repo_key_def)
  obtain fw1 fw2 where s: "tiny_seal (True, True, False) tiny_world = (Ok (), fw1)" "tiny_seal (True, True, True) fw1 = (Ok (), fw2)"
    using tiny_two_seals by (auto simp: fst_eq_Ok sbind_eq_Ok)
  note run = seal_runs.run_sealed [OF seal_runs.run_sealed [OF seal_runs.run_start [OF ok] s(1) [unfolded tiny_seal_def]] s(2) [unfolded tiny_seal_def]]
  have m: "seal_runs ref_backend demo_store tiny_names tiny_json tiny_git 2 ''r'' (mount fw2) (Some (True, True, True))"
    by (rule seal_runs.run_restart [OF run]) (simp_all add: mount_def)
  have d: "disk_works (fw_store (mount fw2))" "\<forall>x. fw_io (mount fw2) x" by (simp_all add: mount_def disk_works_def)
  obtain h fw' where r: "restore_from_store ref_backend demo_store tiny_json tiny_git ''r'' (mount fw2) = (Ok True, fw')"
    "fw_repos fw' (repo_path ''r'') = Some h" "tiny_refs h = tiny_refs (True, True, True)"
    "all_reach tiny_reach (tiny_refs (True, True, True)) \<subseteq> tiny_objs h"
    "\<forall>x. current_head tiny_git (True, True, True) = Some x \<longrightarrow> current_head tiny_git h = Some x"
    using sealed_repo_restores [OF tiny_store_law tiny_forge_names tiny_law law m d] by (elim exE conjE)
  have "tiny_refs h ''refs/heads/m'' = Some ''1''" unfolding r(3) by (simp add: tiny_refs_def)
  moreover have "''1'' \<in> tiny_objs h" using r(4) by (simp add: all_reach_def tiny_reach_def tiny_refs_def)
  moreover have "current_head tiny_git h = Some ''refs/heads/m''" using r(5) by (simp add: tiny_head)
  ultimately show ?thesis using m r(1,2) by (intro exI conjI)
qed

end
