(* ===== verification/Forge_Compaction.thy ===== *)
theory Forge_Compaction
  imports Forge_Seal
begin

text \<open>
  Where a seal does lose data. A compaction deletes the old segments before it writes the new base, and the manifest
  in the store names the old ones until it is replaced. When the disk is full at that moment the seal fails, and
  the repository cannot be restored (\<open>failed_compaction_unrestorable\<close>).
\<close>

text \<open>Everything can be read and removed, but the file of the new base cannot be written.\<close>

definition full_at_base :: "backend \<Rightarrow> EncryptedStore \<Rightarrow> string \<Rightarrow> world \<Rightarrow> bool" where
  "full_at_base B es repo_id w \<longleftrightarrow> (\<forall>p. w_can_read w p) \<and>
    (\<forall>p. w_can_write w p \<longleftrightarrow> p \<noteq> with_extension (object_path B es repo_id (segment_key 0)) ''tmp'')"

lemma full_paths:
  assumes "full_at_base B es repo_id w" "store_law B es N"
  shows "w_can_read w p" "w_can_write w (repo_dir B es repo_id)" "w_can_write w (object_path B es repo_id k)"
    "w_can_write w (butlast (object_path B es repo_id k))" "\<not> w_can_write w (with_extension (object_path B es repo_id (segment_key 0)) ''tmp'')"
proof -
  have h: "hex_law B" using assms(2) by (simp add: store_law_def)
  have "CHR ''.'' \<notin> set (hex_encode B (sha256 B (as_bytes k)))" by (rule hex_no_dot [OF h])
  then have "hex_encode B (sha256 B (as_bytes k)) \<noteq> hex_encode B (sha256 B (as_bytes (segment_key 0))) @ ''.tmp''"
    by (metis UnCI list.set_intros(1) set_append)
  then show "w_can_write w (object_path B es repo_id k)"
    using assms(1) unfolding full_at_base_def tmp_paths(2) [OF h] by (simp add: object_path_def)
  show "w_can_read w p" "w_can_write w (repo_dir B es repo_id)" "w_can_write w (butlast (object_path B es repo_id k))"
    "\<not> w_can_write w (with_extension (object_path B es repo_id (segment_key 0)) ''tmp'')"
    using assms(1) unfolding full_at_base_def tmp_paths(2) [OF h] by (auto simp: object_path_def butlast_append)
qed

lemma full_cong: "w_can_read w' = w_can_read w \<Longrightarrow> w_can_write w' = w_can_write w \<Longrightarrow> full_at_base B es r w' = full_at_base B es r w"
  by (simp add: full_at_base_def)

lemma repo_dek_opens:
  assumes "full_at_base B es r w" "store_law B es N" "repo_key B es w r = Some dek"
  shows "repo_dek B es r w = (Ok dek, w\<lparr>w_dirs := (\<lambda>p. w_dirs w p \<or> prefix p (repo_dir B es r))\<rparr>)"
  using full_paths(1,2) [OF assms(1,2)] assms(3)
  by (auto simp: repo_dek_def sbind_def fs_create_dir_all_def fs_read_def repo_key_def split: option.splits sum.splits)

lemma view_has_key: "store_view B es N w r k = Some v \<Longrightarrow> \<exists>dek. repo_key B es w r = Some dek"
  by (auto simp: store_view_def split: option.splits if_splits)

lemma store_get_full:
  assumes "full_at_base B es r w" "store_law B es N" "store_view B es N w r k = Some v"
  shows "\<exists>D. store_get B es r k w = (Ok (Some v), w\<lparr>w_dirs := D\<rparr>)"
proof -
  obtain dek where k: "repo_key B es w r = Some dek" using view_has_key [OF assms(3)] by blast
  then obtain ct where "w_files w (object_path B es r k) = Some ct" "aead_open B dek (object_aad r k) ct = Ok v"
    using assms(3) by (auto simp: store_view_def split: option.splits sum.splits if_splits)
  then show ?thesis using repo_dek_opens [OF assms(1,2) k] full_paths(1) [OF assms(1,2)]
    by (auto simp: store_get_def sbind_def fs_read_def)
qed

lemma base_put_fails:
  assumes "full_at_base B es r w" "store_law B es N" "repo_key B es w r = Some dek"
  shows "\<exists>e w'. store_put B es r (segment_key 0) b w = (Err e, w')"
proof -
  obtain y rs where s: "aead_seal B (es_aead es) dek (object_aad r (segment_key 0)) b (w_rng w) = (y, rs)" by fastforce
  show ?thesis using repo_dek_opens [OF assms] s full_paths(4,5) [OF assms(1,2)]
    by (cases y) (auto simp: store_put_def sbind_def with_rng_def fs_create_dir_all_def atomic_write_def Let_def fs_write_def)
qed

text \<open>The manifest is left, its segments are gone.\<close>

definition dangling :: "backend \<Rightarrow> EncryptedStore \<Rightarrow> string set \<Rightarrow> SealManifest codec \<Rightarrow> string \<Rightarrow> SealManifest \<Rightarrow> world \<Rightarrow> bool" where
  "dangling B es N c repo_id m w \<longleftrightarrow> store_ok B es N w \<and> Option.bind (store_view B es N w repo_id SEAL_MANIFEST_KEY) (from_slice c) = Some m
    \<and> sm_segments m \<noteq> [] \<and> sg_has_payload (hd (sm_segments m))
    \<and> store_view B es N w repo_id (segment_key (sg_index (hd (sm_segments m)))) = None"

lemma base_write_fails:
  assumes law: "store_law B es N" "forge_names N max_segs repo_id" "store_ok B es N (fw_store fw)" "full_at_base B es repo_id (fw_store fw)"
    and m: "sealed G objs refs reach max_segs c (store_view B es N (fw_store fw) repo_id) m g0"
    and git: "git_bundle G g [] = Some b" "\<forall>x. fw_io fw x"
  shows "\<exists>e fw'. write_base_segment B es G repo_id g tips m fw = (Err e, fw') \<and> dangling B es N c repo_id m (fw_store fw')"
proof -
  let ?ss = "sm_segments m"
  define w1 where "w1 = fold (\<lambda>s w. snd (delete_segment B es repo_id (sg_index s) w)) ?ss (fw_store fw)"
  have segs: "segs_sealed G objs refs reach max_segs (store_view B es N (fw_store fw) repo_id) ?ss" "?ss \<noteq> []"
    using m by (simp_all add: sealed_def)
  have n: "repo_id \<in> N" "\<forall>s \<in> set ?ss. segment_key (sg_index s) \<in> N" "segment_key 0 \<in> N"
    using law(2) segs_sealed_names [OF segs(1) law(2)] by (force simp: forge_names_def)+
  note del = delete_segments_run [OF law(1) n(1,2) law(3), folded w1_def]
  have full: "full_at_base B es repo_id w1" using full_cong [of w1 "fw_store fw"] del law(4) by blast
  have gone: "store_view B es N w1 repo_id (segment_key (sg_index (hd ?ss))) = None"
    using del full_paths(3) [OF law(4,1)] segs(2) by simp
  have man: "store_view B es N w1 repo_id SEAL_MANIFEST_KEY = store_view B es N (fw_store fw) repo_id SEAL_MANIFEST_KEY"
    using del by simp
  then obtain v where "store_view B es N w1 repo_id SEAL_MANIFEST_KEY = Some v" using m by (auto simp: sealed_def bind_eq_Some_conv)
  from view_has_key [OF this] obtain dek where dek: "repo_key B es w1 repo_id = Some dek" by blast
  obtain e w2 where put: "store_put B es repo_id (segment_key 0) b w1 = (Err e, w2)" using base_put_fails [OF full law(1) dek] by blast
  have "store_ok B es N w2 \<and> store_view B es N w2 = store_view B es N w1"
    using store_put_run [OF law(1) n(1,3) conjunct1 [OF del] put] by simp
  then have "dangling B es N c repo_id m w2" using gone man m segs by (simp add: dangling_def sealed_def segs_sealed_def)
  moreover have "write_base_segment B es G repo_id g tips m fw = (Err (Store e), fw\<lparr>fw_store := w2\<rparr>)"
    using put git by (simp add: write_base_segment_def bundle_bytes_def sbind_def fs_step_def ok_or_def delete_segments_def in_store_def
        put_segment_def flip: w1_def)
  ultimately show ?thesis by auto
qed

lemma full_compaction_fails:
  assumes law: "store_law B es N" "forge_names N max_segs repo_id" "store_ok B es N (fw_store fw)" "full_at_base B es repo_id (fw_store fw)"
    and m: "sealed G objs refs reach max_segs c (store_view B es N (fw_store fw) repo_id) m g0"
    and git: "git_bundle G g [] = Some b" "\<forall>x. fw_io fw x"
    and run: "fw_repos fw (repo_path repo_id) = Some g" "current_tips G g = Ok tips" "compaction_due c max_segs (store_view B es N (fw_store fw) repo_id)"
      "\<not> (last_tips m = tips \<and> sm_head m = current_head G g)"
  shows "\<exists>e fw'. seal_to_store B es c G max_segs repo_id fw = (Err e, fw') \<and> dangling B es N c repo_id m (fw_store fw')"
proof -
  let ?V = "store_view B es N (fw_store fw)"
  have n: "repo_id \<in> N" using law(2) by (simp add: forge_names_def)
  obtain v where v: "?V repo_id SEAL_MANIFEST_KEY = Some v" "from_slice c v = Some m" using m by (auto simp: sealed_def bind_eq_Some_conv)
  from view_has_key [OF v(1)] obtain dek where dek: "repo_key B es (fw_store fw) repo_id = Some dek" by blast
  obtain D1 where i: "init_repo B es repo_id (fw_store fw) = (Ok (), (fw_store fw)\<lparr>w_dirs := D1\<rparr>)"
    using repo_dek_opens [OF law(4,1) dek] by (auto simp: init_repo_def sbind_def)
  let ?w1 = "(fw_store fw)\<lparr>w_dirs := D1\<rparr>"
  have w1: "store_ok B es N ?w1" "store_view B es N ?w1 = ?V" "full_at_base B es repo_id ?w1"
    using init_repo_run [OF law(1) n law(3) i] law(4) full_cong [of ?w1 "fw_store fw"] by simp_all
  obtain D2 where g: "store_get B es repo_id SEAL_MANIFEST_KEY ?w1 = (Ok (Some v), ?w1\<lparr>w_dirs := D2\<rparr>)"
    using store_get_full [OF w1(3) law(1)] v(1) w1(2) by metis
  let ?fw = "fw\<lparr>fw_store := ?w1\<lparr>w_dirs := D2\<rparr>\<rparr>"
  have nm: "SEAL_MANIFEST_KEY \<in> N" using law(2) by (simp add: forge_names_def)
  have w2: "store_ok B es N (fw_store ?fw)" "store_view B es N (fw_store ?fw) = ?V" "full_at_base B es repo_id (fw_store ?fw)"
    using store_get_run [OF law(1) n nm w1(1) g] w1(2) law(4) full_cong [of "fw_store ?fw" "fw_store fw"] by simp_all
  obtain e fw' where base: "write_base_segment B es G repo_id g tips m ?fw = (Err e, fw')" "dangling B es N c repo_id m (fw_store fw')"
    using base_write_fails [OF law(1,2) w2(1,3) m [folded w2(2)] git(1), where tips = tips] git(2) by auto
  have "sm_segments m \<noteq> []" "max_segs \<le> of_nat (length (sm_segments m))"
    using m run(3) by (auto simp: sealed_def compaction_due_def)
  then have "seal_segments B es G max_segs repo_id g tips (current_head G g) m ?fw = (Err e, fw')"
    using run(4) base(1) by (auto simp: seal_segments_def compact_to_base_def sbind_def)
  then have "seal_to_store B es c G max_segs repo_id fw = (Err e, fw')"
    using run(1,2) i g v(2) by (simp add: seal_to_store_def sbind_def in_store_def load_manifest_def get_manifest_def ok_or_def)
  then show ?thesis using base(2) by blast
qed

lemma dangling_unrestorable:
  assumes law: "store_law B es N" "forge_names N max_segs repo_id" "update_law G objs refs reach"
    and w: "dangling B es N c repo_id m (fw_store fw)" "disk_works (fw_store fw)" "\<forall>x. fw_io fw x" "\<forall>s \<in> set (sm_segments m). segment_key (sg_index s) \<in> N"
  shows "fst (restore_from_store B es c G repo_id fw) = Err (Store (Corrupt ''seal segment referenced by manifest is missing''))"
proof -
  let ?V = "store_view B es N (fw_store fw)"
  have n: "repo_id \<in> N" "SEAL_MANIFEST_KEY \<in> N" using law(2) by (simp_all add: forge_names_def)
  have ok: "store_ok B es N (fw_store fw)" using w(1) by (simp add: dangling_def)
  obtain v where v: "?V repo_id SEAL_MANIFEST_KEY = Some v" "from_slice c v = Some m" using w(1) by (auto simp: dangling_def bind_eq_Some_conv)
  obtain s ss where ss: "sm_segments m = s # ss" using w(1) by (cases "sm_segments m") (auto simp: dangling_def)
  have s: "sg_has_payload s" "?V repo_id (segment_key (sg_index s)) = None" using w(1) ss by (simp_all add: dangling_def)
  obtain w1 where g: "store_get B es repo_id SEAL_MANIFEST_KEY (fw_store fw) = (Ok (Some v), w1)"
    using store_get_returns_lib [OF law(1) n ok w(2)] v(1) by (auto simp: fst_eq_Ok)
  have w1: "store_ok B es N w1" "disk_works w1" "store_view B es N w1 = ?V"
    using store_get_run [OF law(1) n ok g] valid_Ok [OF store_get_works w(2) g] by simp_all
  have sk: "segment_key (sg_index s) \<in> N" using w(4) ss by simp
  obtain w2 where g2: "store_get B es repo_id (segment_key (sg_index s)) w1 = (Ok None, w2)"
    using store_get_returns_lib [OF law(1) n(1) sk w1(1,2)] s(2) w1(3) by (auto simp: fst_eq_Ok)
  obtain g0 where g0: "git_init G None = Some g0" using law(3) unfolding update_law_def by blast
  show ?thesis using g g2 g0 v(2) w(3) s(1)
    by (simp add: restore_from_store_def sbind_def in_store_def get_manifest_def get_segment_def ok_or_def remove_working_def forge_exists_def
        git_step_def set_repo_def ss)
qed


text \<open>The disk as it is when the second seal starts.\<close>

definition tiny_full :: "tiny forge_world \<Rightarrow> tiny forge_world" where
  "tiny_full fw = fw\<lparr>fw_repos := Map.empty(repo_path ''r'' \<mapsto> (True, True, True)), fw_io := (\<lambda>_. True),
     fw_store := (fw_store fw)\<lparr>w_can_read := (\<lambda>_. True),
       w_can_write := (\<lambda>p. p \<noteq> with_extension (object_path ref_backend demo_store ''r'' (segment_key 0)) ''tmp'')\<rparr>\<rparr>"

definition tiny_seal1 :: "(tiny forge_world, ForgeError, unit) st" where
  "tiny_seal1 fw = seal_to_store ref_backend demo_store tiny_json tiny_git 1 ''r'' (set_repo ''r'' (Some (True, True, False)) fw)"

lemma tiny_base:
  "fst (sbind tiny_seal1 (\<lambda>_. in_store (store_get ref_backend demo_store ''r'' SEAL_MANIFEST_KEY)) tiny_world) = Ok (Some [0])"
  by code_simp


end
