(* ===== verification/Spec2Isabelle.thy ===== *)
theory Spec2Isabelle
  imports Audit_Log Crypto_Properties Keybroker Import Authz Pow Http Tiers Ratelimit Abuse Forge_Compaction
begin

text \<open>
  Verification of SecGit, a Git forge that runs in a confidential virtual machine and keeps the data of its tenants
  encrypted from its operator. The Rust workspace is under \<open>src/\<close>: the crates \<open>src/crates/secgit-*\<close> and the server
  \<open>src/bins/secgit-server\<close>.

  \<^bold>\<open>How the parts interact.\<close> At start the guest proves by attestation what it runs (secgit-attest), and the key broker
  releases the key-encryption key to it alone (secgit-keybroker, with a replay guard). The key opens the encrypted
  object store (secgit-store), in which every repository has a data key of its own and every object is sealed
  (secgit-crypto). Repositories are git working copies inside the guest, sealed into the store as bundles
  (secgit-forge). Users, organisations, sessions and passwords (secgit-identity), pull requests and reviews
  (secgit-review), imported ones too (secgit-import), and the server's abuse queue live in the same store. The
  server reads HTTP requests, decides on access, and limits anonymous and free use (secgit-api, and the modules
  \<open>http\<close>, \<open>authz\<close>, \<open>pow\<close>, \<open>ratelimit\<close>, \<open>abuse\<close> of the server). Security-relevant actions are appended to a transparency log
  with a Merkle tree (secgit-audit).

  \<^bold>\<open>The theories\<close>, in the order of their dependencies. Definitions keep the source's names, with a prefix where two
  modules use the same one.
  \<^item> \<open>SecGit_Prelude\<close>, \<open>Strings\<close>, \<open>Utf8\<close>, \<open>Json\<close>: what the sources use of the language and its library. A \<open>Result\<close> is a sum,
    a fallible operation on a state is \<open>('s, 'e, 'a) st\<close> (an error keeps the state reached), with a Hoare logic
    (\<open>valid\<close>) for all outcomes; machine integers are words; hash maps are association lists with distinct keys; a
    \<open>str\<close> is its bytes.
  \<^item> \<open>Envelope\<close>, \<open>Crypto\<close>, \<open>Reference_Backend\<close>, \<open>Crypto_Properties\<close>: secgit-crypto, \<open>error.rs\<close> to \<open>kem.rs\<close>. The third-party
    primitives are the record \<open>backend\<close> with laws (\<open>aead_law\<close>, \<open>sig_law\<close>, \<open>kem_law\<close>, \<open>hkdf_law\<close>, \<open>hex_law\<close>);
    \<open>Reference_Backend\<close> is an instance of all of them. Shown: the envelope format is unambiguous, an envelope
    opens exactly under its key and associated data, hybrid signatures need both halves, HKDF is RFC 5869, wrapped
    keys and encapsulated secrets come back. The locale \<open>sealing\<close> is the interface the log and the store use.
  \<^item> \<open>Merkle\<close>, \<open>Merkle_Inclusion\<close>, \<open>Merkle_Consistency\<close>: \<open>secgit-audit/src/merkle.rs\<close>. Provers and verifiers of RFC 6962:
    completeness, soundness up to collisions that the statement names, equality with recursive definitions. The locale
    \<open>commitment\<close> is what the log relies on.
  \<^item> \<open>Audit_Log\<close>: \<open>secgit-audit/src/lib.rs\<close>, the hash chain, its file and checkpoints. Append-only history, tamper evidence,
    reopening, and the failed sync that makes the log impossible to open.
  \<^item> \<open>Store\<close>, \<open>KV\<close>, \<open>Store_Refinement\<close>: secgit-store on a disk (\<open>world\<close>: files, directories, what can be read and
    written, torn writes, randomness). \<open>store_view\<close> abstracts the disk to a map; every operation refines its update or, when
    it fails, changes nothing. \<open>kv_store\<close> and \<open>kv_store_live\<close> are the interfaces of the services, interpreted on the store.
  \<^item> \<open>Attest\<close>, \<open>Vcek\<close>: secgit-attest, reports, policy, the certificate chain with its cache and revocation. \<open>Replay\<close>,
    \<open>Keybroker\<close>: secgit-keybroker. A released key implies a genuine, fresh, allowed report; the guest gets the
    broker's key; a request accepted twice had a timestamp ahead of the clock.
  \<^item> \<open>Identity\<close>, \<open>Directory_Store\<close>, \<open>Identity_Auth\<close>: secgit-identity. The effective role is the greatest grant; the
    persistent directory survives restarts; sessions are exactly those the history grants; one-time codes, passwords
    and OpenID tokens.
  \<^item> \<open>Review\<close>, \<open>Import\<close>, \<open>Calendar\<close>: secgit-review, secgit-import with \<open>importer.rs\<close>, and the dates of secgit-sso.
  \<^item> \<open>Http\<close>, \<open>Authz\<close>, \<open>Pow\<close>, \<open>Ratelimit\<close>, \<open>Abuse\<close>: the modules of the server of these names. \<open>Tiers\<close>: secgit-api.
    Limits of requests, of clients and of accounts hold over every run.
  \<^item> \<open>Forge\<close>, \<open>Forge_Seal\<close>, \<open>Forge_Compaction\<close>: the sealing half of secgit-forge over a git given by its laws. Any
    sequence of seals and restarts restores to the copy sealed last; a compaction on a full disk does not; two
    identifiers can share a working copy.
  \<^item> This theory: the parts together, from attestation to the restored repository.

  \<^bold>\<open>State, time, failure.\<close> Operations that take a lock are atomic steps, and histories are lists of operations or
  inductive step relations (\<open>seal_runs\<close>). Each reading of a clock is an argument, so that it may go back unless a
  hypothesis says otherwise. Randomness is a list of the byte strings the generator will return. The disk decides at
  each path whether an operation fails. Errors of third-party code are \<open>None\<close> or an error value.

  \<^bold>\<open>Bounds and fuel.\<close> All recursions are structural or have a termination proof, except the loop of \<open>url_decode\<close>, which
  has fuel the length of the text: its index grows in every turn. No statement bounds the size of its input
  otherwise; widths of the machine integers are those of the source, and where a length must fit a width the
  hypothesis says so. The buckets of the rate limiter are exact rationals instead of floating point numbers.

  \<^bold>\<open>What is assumed.\<close> The laws of \<open>backend\<close>, of the hardware and certificate library (\<open>tee_lib\<close>), of serde_json
  (\<open>codec_law\<close>), of the authentication library (\<open>authlib\<close>) and of git (\<open>git_law\<close>) are hypotheses of the theorems
  that need them, each with an instance. Collision freedom is assumed only for the named messages.

  \<^bold>\<open>Not modelled.\<close>
  \<^item> Sockets, threads, processes and terminals: \<open>main.rs\<close> (start-up, accept loop, routing), \<open>tls.rs\<close>, \<open>ssh.rs\<close>, \<open>kbs.rs\<close>,
    secgit-net, secgit-git, the process control of secgit-forge. They are calls to the operating system, to rustls
    and to the git program, whose behaviour is not in the sources.
  \<^item> The handlers \<open>api.rs\<close>, \<open>web.rs\<close> and \<open>sso.rs\<close>, and \<open>metrics.rs\<close>: they render pages, JSON and counters from the operations
    modelled here. The browsing half of secgit-forge turns the output of git into such views.
  \<^item> Pure code and services over the store that are left for later: the XML parser and canonicaliser, the checks on SAML
    responses and the SCIM protocol of secgit-sso (its dates are modelled), the search index of secgit-search, the
    webhooks and notifications of \<open>events.rs\<close>, and the environment variables read by \<open>config.rs\<close>. No theorem here says
    anything about single sign-on through SAML.
  \<^item> The tools that test a deployment and not the forge: secgit-verify, secgit-leaktest, \<open>xtask\<close>.
\<close>

section \<open>From attestation to the repository\<close>

text \<open>C5: what the parts promise together. A guest obtains the storage key from the broker by attestation and seals a repository
  into the encrypted store. Another guest, on another machine or after a restart, that obtains a key for the same
  resource from a broker holding the same key, and opens the store at the same directory, restores the repository as it was
  sealed last: its references, every object they reach and its head. Nothing but the disk is carried over.\<close>

theorem reboot_recovers_repository:
  assumes crypto: "kem_law B" "aead_law B" "hkdf_law B" "hex_law B" "\<forall>dk ek. mlkem_ek_bytes B dk = Some ek \<longrightarrow> length ek < 2 ^ 32"
      "inj_on (\<lambda>s. sha256 B (as_bytes s)) N"
    and names: "forge_names N max_segs repo_id" and libs: "git_law G objs refs reach" "codec_law c"
    and first: "attest_and_unwrap B T J u1 guest1 broker1 resource att1 s1 = (Ok k1, s1')" "store_open dir k1 w0 = (Ok es, w1)"
      "seal_runs B es N c G max_segs repo_id fw (Some g)"
    and second: "attest_and_unwrap B T J u2 guest2 broker2 resource att2 s2 = (Ok k2, s2')"
      "kb_keks (bs_broker (gs_broker s2)) resource = kb_keks (bs_broker (gs_broker s1)) resource"
      "store_open dir k2 (fw_store fw) = (Ok es', w2)" "disk_works w2" "\<forall>x. fw_io fw x"
  shows "\<exists>h fw'. restore_from_store B es' c G repo_id (fw\<lparr>fw_repos := Map.empty, fw_store := w2\<rparr>) = (Ok True, fw')
    \<and> fw_repos fw' (repo_path repo_id) = Some h \<and> refs h = refs g \<and> all_reach reach (refs g) \<subseteq> objs h
    \<and> (\<forall>x. current_head G g = Some x \<longrightarrow> current_head G h = Some x)"
proof -
  have k1: "kb_keks (bs_broker (gs_broker s1)) resource = Some k1" "length k1 = 32"
    using attest_and_unwrap_correct [OF crypto(1-3,5) first(1)] by simp_all
  have k: "k2 = k1" using attest_and_unwrap_correct [OF crypto(1-3,5) second(1)] second(2) k1 by simp
  have es: "es' = es" "es_kek es = k1"
    using first(2) second(3) k by (auto simp: store_open_def sbind_eq_Ok)
  have law: "store_law B es N" using crypto(2,4,6) k1(2) es(2) by (simp add: store_law_def)
  have w2: "w_files w2 = w_files (fw_store fw)" "\<forall>p. w_dirs (fw_store fw) p \<longrightarrow> w_dirs w2 p"
    using second(3) by (auto simp: store_open_def sbind_eq_Ok fs_create_dir_all_def split: if_splits)
  have "holds B es N c G objs refs reach max_segs repo_id (fw_store fw) (Some g)"
    by (rule seal_runs_holds [OF first(3) law names libs])
  from holds_same_files [OF w2 this] obtain m
    where ok: "store_ok B es N w2" and m: "sealed G objs refs reach max_segs c (store_view B es N w2 repo_id) m g" by (auto simp: holds_def)
  let ?fw = "fw\<lparr>fw_repos := Map.empty, fw_store := w2\<rparr>"
  show ?thesis unfolding es(1) using sealed_restores [OF law names libs(1), of ?fw c m g] ok m second(4,5) by simp
qed

definition guest_store :: EncryptedStore where
  "guest_store = \<lparr>es_root = [''data''], es_kek = replicate 32 9, es_aead = DEFAULT_AEAD\<rparr>"

lemma tiny_guest_seal:
  "fst (seal_to_store ref_backend guest_store tiny_json tiny_git 2 ''r'' (set_repo ''r'' (Some (True, True, False)) tiny_world)) = Ok ()"
  by code_simp

theorem reboot_recovers_repository_witness:
  "\<exists>fw es w2 fw' h. store_open [''data''] (replicate 32 9) (fw_store fw) = (Ok es, w2)
    \<and> restore_from_store ref_backend es tiny_json tiny_git ''r'' (fw\<lparr>fw_repos := Map.empty, fw_store := w2\<rparr>) = (Ok True, fw')
    \<and> fw_repos fw' (repo_path ''r'') = Some h \<and> tiny_refs h ''refs/heads/m'' = Some ''1'' \<and> ''1'' \<in> tiny_objs h"
proof -
  have law: "codec_law tiny_json" by (auto simp: codec_law_def tiny_json_def split: if_splits)
  have inj: "inj_on (\<lambda>s. sha256 ref_backend (as_bytes s)) tiny_names" using tiny_store_law by (simp add: store_law_def)
  have ek: "\<forall>dk ek. mlkem_ek_bytes ref_backend dk = Some ek \<longrightarrow> length ek < 2 ^ 32"
    by (auto simp: ref_backend_def ref_ek_bytes_def)
  obtain s' where key: "attest_and_unwrap ref_backend demo_tee demo_broker_json ''e'' 1000 1000 ''kek'' (MockAttester MOCK_MEASUREMENT)
    demo_guest = (Ok (replicate 32 9), s')" using demo_guest_key by blast
  have ok: "store_ok ref_backend guest_store tiny_names (fw_store tiny_world)"
    "store_view ref_backend guest_store tiny_names (fw_store tiny_world) ''r'' SEAL_MANIFEST_KEY = None"
    by (simp_all add: store_ok_def store_view_def tiny_world_def demo_disk_def repo_key_def)
  obtain fw1 where s: "seal_to_store ref_backend guest_store tiny_json tiny_git 2 ''r'' (set_repo ''r'' (Some (True, True, False)) tiny_world) = (Ok (), fw1)"
    using tiny_guest_seal by (auto simp: fst_eq_Ok)
  have run: "seal_runs ref_backend guest_store tiny_names tiny_json tiny_git 2 ''r'' (mount fw1) (Some (True, True, False))"
    by (rule seal_runs.run_restart [OF seal_runs.run_sealed [OF seal_runs.run_start [OF ok] s]]) (simp_all add: mount_def)
  have o1: "\<exists>w. store_open [''data''] (replicate 32 9) (fw_store (mount fw)) = (Ok guest_store, w) \<and> disk_works w" for fw :: "tiny forge_world"
    by (auto simp: store_open_def sbind_def fs_create_dir_all_def mount_def guest_store_def disk_works_def)
  obtain w2 where o2: "store_open [''data''] (replicate 32 9) (fw_store (mount fw1)) = (Ok guest_store, w2)" "disk_works w2" using o1 by blast
  have io: "\<forall>x. fw_io (mount fw1) x" by (simp add: mount_def)
  obtain h fw' where r: "restore_from_store ref_backend guest_store tiny_json tiny_git ''r'' ((mount fw1)\<lparr>fw_repos := Map.empty, fw_store := w2\<rparr>) = (Ok True, fw')"
    "fw_repos fw' (repo_path ''r'') = Some h" "tiny_refs h = tiny_refs (True, True, False)"
    "all_reach tiny_reach (tiny_refs (True, True, False)) \<subseteq> tiny_objs h"
    using reboot_recovers_repository [OF ref_kem_law ref_aead_law ref_hkdf_law ref_hex_law ek inj tiny_forge_names tiny_law law key
        o2(1) run key refl o2 io] by (elim exE conjE)
  have "tiny_refs h ''refs/heads/m'' = Some ''1''" unfolding r(3) by (simp add: tiny_refs_def)
  moreover have "''1'' \<in> tiny_objs h" using r(4) by (simp add: all_reach_def tiny_reach_def tiny_refs_def)
  ultimately show ?thesis using o2(1) r(1,2) by blast
qed

end
